(* ===== verification/Node_Prelude.thy ===== *)
theory Node_Prelude
  imports Main "HOL-Library.Word"
begin

text \<open>
  Shared vocabulary of the development: machine integers and byte strings, results with an
  error case, the little- and big-endian readings of byte strings, the lexicographic order Rust
  gives to byte arrays, and the two interfaces several components share (a byte codec and a
  state machine whose states are ranked).
\<close>

section \<open>Machine integers and byte strings\<close>

type_synonym u8 = "8 word"
type_synonym u16 = "16 word"
type_synonym u32 = "32 word"
type_synonym u64 = "64 word"
type_synonym i64 = "64 word"
type_synonym bytes = "u8 list"

named_theorems result_simps
named_theorems endian_simps

section \<open>Results\<close>

text \<open>
  A Rust \<^verbatim>\<open>Result<T, E>\<close> is a sum, \<open>Inl\<close> the error. The question mark operator is
  \<open>bindE\<close>: the first error ends the computation.
\<close>

fun bindE :: "'e + 'a \<Rightarrow> ('a \<Rightarrow> 'e + 'b) \<Rightarrow> 'e + 'b" where
  "bindE (Inl e) f = Inl e"
| "bindE (Inr x) f = f x"

fun foldE :: "('s \<Rightarrow> 'x \<Rightarrow> 'e + 's) \<Rightarrow> 's \<Rightarrow> 'x list \<Rightarrow> 'e + 's" where
  "foldE f s [] = Inr s"
| "foldE f s (x # xs) = bindE (f s x) (\<lambda>s'. foldE f s' xs)"

fun ok_or :: "'e \<Rightarrow> 'a option \<Rightarrow> 'e + 'a" where
  "ok_or e None = Inl e"
| "ok_or e (Some x) = Inr x"

text \<open>\<^verbatim>\<open>.ok().flatten()\<close> on a \<^verbatim>\<open>Result<Option<T>, E>\<close>.\<close>

fun ok_flatten :: "'e + 'a option \<Rightarrow> 'a option" where
  "ok_flatten (Inl e) = None"
| "ok_flatten (Inr x) = x"

definition is_ok :: "'e + 'a \<Rightarrow> bool" where
  "is_ok r = (case r of Inl _ \<Rightarrow> False | Inr _ \<Rightarrow> True)"

lemma is_ok_simps [simp, result_simps]: "is_ok (Inr x)" "\<not> is_ok (Inl e)"
  by (simp_all add: is_ok_def)

lemma bindE_eq_Inr [result_simps]:
  "bindE m f = Inr y \<longleftrightarrow> (\<exists>x. m = Inr x \<and> f x = Inr y)"
  by (cases m) auto

lemma bindE_eq_Inl [result_simps]:
  "bindE m f = Inl e \<longleftrightarrow> m = Inl e \<or> (\<exists>x. m = Inr x \<and> f x = Inl e)"
  by (cases m) auto

lemma ok_or_eq_Inr [result_simps]: "ok_or e m = Inr x \<longleftrightarrow> m = Some x"
  by (cases m) auto

lemma is_ok_unit_iff: "is_ok (r :: 'e + unit) \<longleftrightarrow> r = Inr ()"
  by (cases r) auto

lemma ok_flatten_Some [result_simps]: "ok_flatten r = Some x \<longleftrightarrow> r = Inr (Some x)"
  by (cases r) auto

lemma foldE_append:
  "foldE f s (xs @ ys) = bindE (foldE f s xs) (\<lambda>s'. foldE f s' ys)"
proof (induction xs arbitrary: s)
  case (Cons x xs)
  then show ?case by (cases "f s x") auto
qed simp

lemma foldE_invariant:
  assumes "foldE f s xs = Inr t" and "P s"
    and "\<And>s x s'. x \<in> set xs \<Longrightarrow> P s \<Longrightarrow> f s x = Inr s' \<Longrightarrow> P s'"
  shows "P t"
  using assms
proof (induction xs arbitrary: s)
  case (Cons x xs)
  from Cons.prems(1) obtain s' where s': "f s x = Inr s'" "foldE f s' xs = Inr t"
    by (auto simp: bindE_eq_Inr)
  then have "P s'" using Cons.prems by auto
  with s' show ?case using Cons.prems(3) by (intro Cons.IH) auto
qed simp

section \<open>Endian readings\<close>

fun le_val :: "bytes \<Rightarrow> nat" where
  "le_val [] = 0"
| "le_val (b # bs) = unat b + 256 * le_val bs"

definition be_val :: "bytes \<Rightarrow> nat" where
  "be_val bs = le_val (rev bs)"

fun to_le :: "nat \<Rightarrow> nat \<Rightarrow> bytes" where
  "to_le 0 v = []"
| "to_le (Suc n) v = of_nat (v mod 256) # to_le n (v div 256)"

definition to_be :: "nat \<Rightarrow> nat \<Rightarrow> bytes" where
  "to_be n v = rev (to_le n v)"

text \<open>\<^verbatim>\<open>u32::to_le_bytes\<close>, \<^verbatim>\<open>u32::from_le_bytes\<close> and their 64-bit and big-endian kin.\<close>

definition u32_to_le :: "u32 \<Rightarrow> bytes" where "u32_to_le w = to_le 4 (unat w)"
definition u32_from_le :: "bytes \<Rightarrow> u32" where "u32_from_le bs = of_nat (le_val bs)"
definition u64_to_le :: "u64 \<Rightarrow> bytes" where "u64_to_le w = to_le 8 (unat w)"
definition u64_from_le :: "bytes \<Rightarrow> u64" where "u64_from_le bs = of_nat (le_val bs)"
definition u32_to_be :: "u32 \<Rightarrow> bytes" where "u32_to_be w = to_be 4 (unat w)"

lemma unat_of_nat_byte [simp]: "unat (of_nat (v mod 256) :: u8) = v mod 256"
  by (simp add: unat_of_nat)

lemma unat_u8_lt [simp]: "unat (b :: u8) < 256"
  using unsigned_less [of b] by simp

lemma length_to_le [simp]: "length (to_le n v) = n"
  by (induction n arbitrary: v) auto

lemma length_to_be [simp]: "length (to_be n v) = n"
  by (simp add: to_be_def)

lemma le_val_bound: "le_val bs < 256 ^ length bs"
proof (induction bs)
  case (Cons b bs)
  have "unat b + 256 * le_val bs < 256 * (le_val bs + 1)"
    using unat_u8_lt [of b] by simp
  also have "\<dots> \<le> 256 * 256 ^ length bs"
    using Cons by (intro mult_le_mono2) simp
  finally show ?case by simp
qed simp

lemma be_val_bound: "be_val bs < 256 ^ length bs"
  using le_val_bound [of "rev bs"] by (simp add: be_val_def)

lemma le_val_append: "le_val (xs @ ys) = le_val xs + 256 ^ length xs * le_val ys"
  by (induction xs) (auto simp: algebra_simps)

lemma be_val_Nil [simp]: "be_val [] = 0"
  by (simp add: be_val_def)

lemma be_val_Cons: "be_val (b # bs) = unat b * 256 ^ length bs + be_val bs"
  by (simp add: be_val_def le_val_append)

lemma be_val_append: "be_val (xs @ ys) = be_val xs * 256 ^ length ys + be_val ys"
  by (simp add: be_val_def le_val_append)

lemma le_val_to_le [endian_simps]: "le_val (to_le n v) = v mod 256 ^ n"
proof (induction n arbitrary: v)
  case (Suc n)
  have "v mod 256 ^ Suc n = v mod 256 + 256 * (v div 256 mod 256 ^ n)"
    by (simp add: mod_mult2_eq)
  then show ?case by (simp add: Suc)
qed simp

lemma be_val_to_be [endian_simps]: "be_val (to_be n v) = v mod 256 ^ n"
  by (simp add: be_val_def to_be_def le_val_to_le)

lemma to_le_le_val [endian_simps]: "to_le (length bs) (le_val bs) = bs"
  by (induction bs) (auto simp: word_unat_eq_iff unat_of_nat)

lemma to_be_be_val [endian_simps]: "to_be (length bs) (be_val bs) = bs"
  using to_le_le_val [of "rev bs"] by (simp add: to_be_def be_val_def)

lemma le_val_inject: "length xs = length ys \<Longrightarrow> le_val xs = le_val ys \<Longrightarrow> xs = ys"
  by (metis to_le_le_val)

lemma be_val_inject: "length xs = length ys \<Longrightarrow> be_val xs = be_val ys \<Longrightarrow> xs = ys"
  by (metis to_be_be_val)

lemma to_le_inject: "a < 256 ^ n \<Longrightarrow> b < 256 ^ n \<Longrightarrow> to_le n a = to_le n b \<longleftrightarrow> a = b"
  by (metis le_val_to_le mod_less)

lemma length_u_to_le [simp]:
  "length (u32_to_le w) = 4" "length (u64_to_le x) = 8" "length (u32_to_be w) = 4"
  by (simp_all add: u32_to_le_def u64_to_le_def u32_to_be_def)

lemma u32_from_to_le [simp]: "u32_from_le (u32_to_le w) = w"
proof -
  have "unat w mod 256 ^ 4 = unat w" using unsigned_less [of w, where ?'a = nat] by simp
  then show ?thesis by (simp add: u32_from_le_def u32_to_le_def le_val_to_le)
qed

lemma u64_from_to_le [simp]: "u64_from_le (u64_to_le w) = w"
proof -
  have "unat w mod 256 ^ 8 = unat w" using unsigned_less [of w, where ?'a = nat] by simp
  then show ?thesis by (simp add: u64_from_le_def u64_to_le_def le_val_to_le)
qed

lemma u32_to_le_inject [simp]: "u32_to_le a = u32_to_le b \<longleftrightarrow> a = b"
  by (metis u32_from_to_le)

lemma be_val_zeros [simp]: "be_val (replicate n 0) = 0"
proof -
  have "le_val (replicate n 0) = 0" by (induction n) auto
  then show ?thesis by (simp add: be_val_def)
qed

lemma be_val_eq_0_iff: "be_val bs = 0 \<longleftrightarrow> bs = replicate (length bs) 0"
  by (metis be_val_inject be_val_zeros length_replicate)

section \<open>The order of byte arrays\<close>

text \<open>\<^verbatim>\<open>Ord\<close> on \<^verbatim>\<open>[u8; N]\<close> is lexicographic; on equal lengths it is the numeric order of the
  big-endian reading.\<close>

datatype ordering = Less | Equal | Greater

fun bytes_cmp :: "bytes \<Rightarrow> bytes \<Rightarrow> ordering" where
  "bytes_cmp [] [] = Equal"
| "bytes_cmp [] (b # bs) = Less"
| "bytes_cmp (a # as) [] = Greater"
| "bytes_cmp (a # as) (b # bs) =
     (if a < b then Less else if b < a then Greater else bytes_cmp as bs)"

definition nat_cmp :: "nat \<Rightarrow> nat \<Rightarrow> ordering" where
  "nat_cmp m n = (if m < n then Less else if n < m then Greater else Equal)"

lemma nat_cmp_iff [simp]:
  "nat_cmp m n = Less \<longleftrightarrow> m < n" "nat_cmp m n = Equal \<longleftrightarrow> m = n"
  "nat_cmp m n = Greater \<longleftrightarrow> n < m"
  by (auto simp: nat_cmp_def)

lemma be_val_Cons_less:
  assumes "unat a < unat b" and "length as = length bs"
  shows "be_val (a # as) < be_val (b # bs)"
proof -
  have "be_val (a # as) < (unat a + 1) * 256 ^ length as"
    using be_val_bound [of as] by (simp add: be_val_Cons algebra_simps)
  also have "\<dots> \<le> unat b * 256 ^ length as"
    using assms by (intro mult_le_mono1) simp
  also have "\<dots> \<le> be_val (b # bs)"
    using assms by (simp add: be_val_Cons)
  finally show ?thesis .
qed

lemma bytes_cmp_numeric:
  "length a = length b \<Longrightarrow> bytes_cmp a b = nat_cmp (be_val a) (be_val b)"
proof (induction a b rule: bytes_cmp.induct)
  case (4 a as b bs)
  then have len: "length as = length bs" by simp
  show ?case
  proof (cases "a = b")
    case True
    with 4 len show ?thesis by (simp add: be_val_Cons nat_cmp_def)
  next
    case False
    then consider "unat a < unat b" | "unat b < unat a"
      by (metis linorder_neqE_nat word_unat_eq_iff)
    then show ?thesis
    proof cases
      case 1
      then have "a < b" by (simp add: word_less_nat_alt)
      with be_val_Cons_less [OF 1 len] show ?thesis by (simp add: nat_cmp_def)
    next
      case 2
      then have "b < a" "\<not> a < b" by (simp_all add: word_less_nat_alt)
      with be_val_Cons_less [OF 2 len [symmetric]] show ?thesis by (simp add: nat_cmp_def)
    qed
  qed
qed (simp_all add: nat_cmp_def)

section \<open>Shared interfaces\<close>

text \<open>A byte codec: decoding what was encoded gives the value back, on the values the encoder
  can represent.\<close>

locale byte_codec =
  fixes enc :: "'a \<Rightarrow> bytes"
    and dec :: "bytes \<Rightarrow> 'e + 'a"
    and representable :: "'a \<Rightarrow> bool"
  assumes dec_enc: "representable x \<Longrightarrow> dec (enc x) = Inr x"
begin

lemma enc_inject:
  assumes "representable x" and "representable y" and "enc x = enc y"
  shows "x = y"
  using assms dec_enc by (metis sum.inject(2))

lemma stored_read_back:
  assumes "representable x" and "m k = Some (enc x)"
  shows "map_option dec (m k) = Some (Inr x)"
  using assms dec_enc by simp

end

text \<open>A machine whose states carry a rank no step lowers, and whose final states no step
  leaves.\<close>

locale ranked_machine =
  fixes step :: "'i \<Rightarrow> 's \<Rightarrow> 's"
    and rank :: "'s \<Rightarrow> nat"
    and final :: "'s \<Rightarrow> bool"
  assumes step_rank: "rank s \<le> rank (step i s)"
    and step_final: "final s \<Longrightarrow> step i s = s"
begin

lemma run_rank: "rank s \<le> rank (fold step is s)"
proof (induction "is" arbitrary: s)
  case (Cons i "is")
  have "rank s \<le> rank (step i s)" by (rule step_rank)
  also have "\<dots> \<le> rank (fold step is (step i s))" by (rule Cons.IH)
  finally show ?case by simp
qed simp

lemma run_final: "final s \<Longrightarrow> fold step is s = s"
  by (induction "is") (auto simp: step_final)

lemma run_split_rank: "rank (fold step is s) \<le> rank (fold step (is @ js) s)"
  using run_rank [of "fold step is s" js] by simp

end

text \<open>A key-value store: what a read returns after a write or a delete.\<close>

locale kv_store =
  fixes get :: "'s \<Rightarrow> 'k \<Rightarrow> 'v option"
    and put :: "'k \<Rightarrow> 'v \<Rightarrow> 's \<Rightarrow> 's"
    and del :: "'k \<Rightarrow> 's \<Rightarrow> 's"
    and wf :: "'s \<Rightarrow> bool"
  assumes get_put: "wf s \<Longrightarrow> get (put k v s) j = (if j = k then Some v else get s j)"
    and get_del: "wf s \<Longrightarrow> get (del k s) j = (if j = k then None else get s j)"
    and wf_put: "wf s \<Longrightarrow> wf (put k v s)"
    and wf_del: "wf s \<Longrightarrow> wf (del k s)"
begin

lemma wf_put_batch: "wf s \<Longrightarrow> wf (fold (\<lambda>(k, v). put k v) kvs s)"
  by (induction kvs arbitrary: s) (auto simp: wf_put)

lemma wf_del_batch: "wf s \<Longrightarrow> wf (fold del ks s)"
  by (induction ks arbitrary: s) (auto simp: wf_del)

text \<open>A batch of writes is one lookup in the list of the writes, the last one first.\<close>

lemma get_put_batch:
  "wf s \<Longrightarrow> get (fold (\<lambda>(k, v). put k v) kvs s) j =
     (case map_of (rev kvs) j of Some v \<Rightarrow> Some v | None \<Rightarrow> get s j)"
proof (induction kvs rule: rev_induct)
  case (snoc kv kvs)
  then show ?case by (cases kv) (simp add: get_put wf_put_batch)
qed simp

lemma get_del_batch: "wf s \<Longrightarrow> get (fold del ks s) j = (if j \<in> set ks then None else get s j)"
proof (induction ks rule: rev_induct)
  case (snoc k ks)
  then show ?case by (simp add: get_del wf_del_batch)
qed simp

end

section \<open>Column families\<close>

text \<open>A RocksDB column family is a map; one that the code iterates over is the list of its entries
  in key order.\<close>

type_synonym cf = "bytes \<rightharpoonup> bytes"

definition put_cf :: "bytes \<Rightarrow> bytes \<Rightarrow> cf \<Rightarrow> cf" where
  "put_cf k v m = m(k \<mapsto> v)"

definition delete_cf :: "bytes \<Rightarrow> cf \<Rightarrow> cf" where
  "delete_cf k m = m(k := None)"

interpretation cf_map: kv_store "\<lambda>m. m" put_cf delete_cf "\<lambda>_. True"
  by unfold_locales (auto simp: put_cf_def delete_cf_def)

type_synonym cf_list = "(bytes \<times> bytes) list"

fun put_sorted :: "bytes \<Rightarrow> bytes \<Rightarrow> cf_list \<Rightarrow> cf_list" where
  "put_sorted k v [] = [(k, v)]"
| "put_sorted k v ((k', v') # rest) =
     (case bytes_cmp k k' of
        Less \<Rightarrow> (k, v) # (k', v') # rest
      | Equal \<Rightarrow> (k, v) # rest
      | Greater \<Rightarrow> (k', v') # put_sorted k v rest)"

definition delete_sorted :: "bytes \<Rightarrow> cf_list \<Rightarrow> cf_list" where
  "delete_sorted k m = filter (\<lambda>e. fst e \<noteq> k) m"

lemma bytes_cmp_Equal: "bytes_cmp a b = Equal \<longleftrightarrow> a = b"
  by (induction a b rule: bytes_cmp.induct) auto

lemma bytes_cmp_refl: "bytes_cmp a a = Equal"
  by (simp only: bytes_cmp_Equal)

lemma map_of_put_sorted [simp]: "map_of (put_sorted k v m) = (map_of m)(k \<mapsto> v)"
proof (induction m)
  case (Cons e m)
  obtain k' v' where e: "e = (k', v')" by (cases e)
  show ?case
  proof (cases "bytes_cmp k k'")
    case Less
    then show ?thesis by (intro ext) (simp add: e)
  next
    case Equal
    then have "k' = k" by (simp only: bytes_cmp_Equal)
    then show ?thesis by (intro ext) (simp add: e bytes_cmp_refl)
  next
    case Greater
    then have "k' \<noteq> k" using bytes_cmp_refl [of k] by (metis ordering.distinct(5))
    with Greater Cons show ?thesis by (intro ext) (simp add: e)
  qed
qed simp

lemma map_of_delete_sorted [simp]: "map_of (delete_sorted k m) = (map_of m)(k := None)"
  by (induction m) (auto simp: delete_sorted_def)

lemma fst_put_sorted [simp]: "fst ` set (put_sorted k v m) = insert k (fst ` set m)"
  by (simp add: dom_map_of_conv_image_fst [symmetric])

lemma fst_delete_sorted [simp]: "fst ` set (delete_sorted k m) = fst ` set m - {k}"
  by (auto simp: delete_sorted_def)

interpretation cf_sorted: kv_store map_of put_sorted delete_sorted "\<lambda>_. True"
  by unfold_locales auto

text \<open>ASCII byte-string literals, the keys of the metadata families.\<close>

definition byte_str :: "string \<Rightarrow> bytes" where
  "byte_str s = map of_char s"

end
