(* ===== verification/Merkle.thy ===== *)
theory Merkle
  imports Node_Prelude
begin

text \<open>
  Merkle trees of \<^verbatim>\<open>bitcoinpr-core/src/merkle.rs\<close>: the level-by-level root, the streaming root
  that reports CVE-2012-2459 mutations, and the branch of a leaf. The hash \<open>sha256d\<close> is the
  \<^verbatim>\<open>bitcoin\<close> crate's and stays a parameter. A panic (an array index out of range, a shift by 32)
  is \<open>None\<close>.
\<close>

section \<open>The code\<close>

definition hash_pair :: "(bytes \<Rightarrow> bytes) \<Rightarrow> bytes \<Rightarrow> bytes \<Rightarrow> bytes" where
  "hash_pair sha256d a b = sha256d (a @ b)"

text \<open>Both level loops first repeat the last node of an odd level, then hash \<^verbatim>\<open>chunks(2)\<close>.\<close>

definition pad_level :: "bytes list \<Rightarrow> bytes list" where
  "pad_level level = (if odd (length level) then level @ [last level] else level)"

fun hash_chunks :: "(bytes \<Rightarrow> bytes) \<Rightarrow> bytes list \<Rightarrow> bytes list" where
  "hash_chunks sha256d (a # b # rest) = hash_pair sha256d a b # hash_chunks sha256d rest"
| "hash_chunks sha256d _ = []"

definition next_level :: "(bytes \<Rightarrow> bytes) \<Rightarrow> bytes list \<Rightarrow> bytes list" where
  "next_level sha256d level = hash_chunks sha256d (pad_level level)"

lemma length_hash_chunks [simp]: "length (hash_chunks H xs) = length xs div 2"
  by (induction H xs rule: hash_chunks.induct) auto

lemma length_pad_level: "length (pad_level xs) = length xs + length xs mod 2"
  by (auto simp: pad_level_def odd_iff_mod_2_eq_one)

lemma length_next_level [simp]: "length (next_level H xs) = (length xs + 1) div 2"
  by (simp add: next_level_def length_pad_level) presburger

function root_loop :: "(bytes \<Rightarrow> bytes) \<Rightarrow> bytes list \<Rightarrow> bytes" where
  "root_loop sha256d level =
     (if 1 < length level then root_loop sha256d (next_level sha256d level) else hd level)"
  by pat_completeness auto
termination
  by (relation "measure (\<lambda>(H, level). length level)") auto

definition root :: "(bytes \<Rightarrow> bytes) \<Rightarrow> bytes list \<Rightarrow> bytes" where
  "root sha256d leaves =
     (if leaves = [] then replicate 32 0 else root_loop sha256d leaves)"

text \<open>The inner \<^verbatim>\<open>while count & (1u32 << level) == 0\<close> of \<^verbatim>\<open>root_detecting_mutation\<close>: completed
  subtrees are joined until the level's bit of \<open>count\<close> is set.\<close>

function collapse ::
  "(bytes \<Rightarrow> bytes) \<Rightarrow> nat \<Rightarrow> bytes list \<Rightarrow> nat \<Rightarrow> bytes \<Rightarrow> bool \<Rightarrow> (nat \<times> bytes \<times> bool) option"
where
  "collapse sha256d count inner level h mutated =
     (if 32 \<le> level then None
      else if bit count level then Some (level, h, mutated)
      else collapse sha256d count inner (level + 1)
             (hash_pair sha256d (inner ! level) h) (mutated \<or> inner ! level = h))"
  by pat_completeness auto
termination
  by (relation "measure (\<lambda>(H, count, inner, level, h, mutated). 32 - level)") auto

fun absorb ::
  "(bytes \<Rightarrow> bytes) \<Rightarrow> bytes list \<Rightarrow> nat \<Rightarrow> bytes list \<Rightarrow> bool \<Rightarrow> (nat \<times> bytes list \<times> bool) option"
where
  "absorb sha256d [] count inner mutated = Some (count, inner, mutated)"
| "absorb sha256d (h # hs) count inner mutated =
     (let count' = (count + 1) mod 2 ^ 32
      in case collapse sha256d count' inner 0 h mutated of
           None \<Rightarrow> None
         | Some (level, h', mutated') \<Rightarrow>
             absorb sha256d hs count' (inner[level := h']) mutated')"

function lowest_set :: "nat \<Rightarrow> nat \<Rightarrow> nat option" where
  "lowest_set count level =
     (if 32 \<le> level then None
      else if bit count level then Some level
      else lowest_set count (level + 1))"
  by pat_completeness auto
termination
  by (relation "measure (\<lambda>(count, level). 32 - level)") auto

declare root_loop.simps [simp del] collapse.simps [simp del] lowest_set.simps [simp del]

lemma collapse_level:
  "collapse H count inner level h mutated = Some (l, h', m) \<Longrightarrow> level \<le> l \<and> l < 32 \<and> bit count l"
proof (induction H count inner level h mutated rule: collapse.induct)
  case (1 H count inner level h mutated)
  show ?case
  proof (cases "32 \<le> level \<or> bit count level")
    case True
    with 1 show ?thesis by (auto simp: collapse.simps [of H count inner level] split: if_splits)
  next
    case False
    with 1 show ?thesis by (fastforce simp: collapse.simps [of H count inner level])
  qed
qed

text \<open>The closing loop: the last partial subtree is paired with itself until it spans the tree.\<close>

function finish ::
  "(bytes \<Rightarrow> bytes) \<Rightarrow> bytes list \<Rightarrow> nat \<Rightarrow> nat \<Rightarrow> bytes \<Rightarrow> bool \<Rightarrow> (bytes \<times> bool) option"
where
  "finish sha256d inner count level h mutated =
     (if count = 2 ^ level then Some (h, mutated)
      else
        (let h' = hash_pair sha256d h h;
             count' = (count + 2 ^ level) mod 2 ^ 32
         in case collapse sha256d count' inner (level + 1) h' mutated of
              None \<Rightarrow> None
            | Some (level', h'', mutated') \<Rightarrow> finish sha256d inner count' level' h'' mutated'))"
  by pat_completeness auto
termination
  by (relation "measure (\<lambda>(H, inner, count, level, h, mutated). 32 - level)")
    (auto dest!: collapse_level)

declare finish.simps [simp del]

definition root_detecting_mutation ::
  "(bytes \<Rightarrow> bytes) \<Rightarrow> bytes list \<Rightarrow> (bytes option \<times> bool) option"
where
  "root_detecting_mutation sha256d leaves =
     (if leaves = [] then Some (None, False)
      else
        (case absorb sha256d leaves 0 (replicate 32 (replicate 32 0)) False of
           None \<Rightarrow> None
         | Some (count, inner, mutated) \<Rightarrow>
             (case lowest_set count 0 of
                None \<Rightarrow> None
              | Some level \<Rightarrow>
                  (case finish sha256d inner count level (inner ! level) mutated of
                     None \<Rightarrow> None
                   | Some (h, mutated') \<Rightarrow> Some (Some h, mutated')))))"

function branch_loop ::
  "(bytes \<Rightarrow> bytes) \<Rightarrow> bytes list \<Rightarrow> nat \<Rightarrow> bytes list \<Rightarrow> (bytes \<times> bytes list) option"
where
  "branch_loop sha256d level idx acc =
     (if 1 < length level then
        (let padded = pad_level level;
             sibling = (if even idx then idx + 1 else idx - 1)
         in if sibling < length padded
            then branch_loop sha256d (hash_chunks sha256d padded) (idx div 2)
                   (acc @ [padded ! sibling])
            else None)
      else Some (hd level, acc))"
  by pat_completeness auto
termination
  by (relation "measure (\<lambda>(H, level, idx, acc). length level)")
    (auto simp: length_pad_level)

declare branch_loop.simps [simp del]

definition branch :: "(bytes \<Rightarrow> bytes) \<Rightarrow> bytes list \<Rightarrow> nat \<Rightarrow> (bytes \<times> bytes list) option" where
  "branch sha256d leaves index =
     (if leaves = [] then Some (replicate 32 0, []) else branch_loop sha256d leaves index [])"

section \<open>The reference tree\<close>

text \<open>
  The tree of depth \<open>k\<close> over at most \<open>2 ^ k\<close> leaves, split in halves from the top: a missing
  right half is a copy of the left one. \<open>mtree_mutated\<close> says that somewhere two real sibling
  subtrees are equal.
\<close>

fun mtree :: "(bytes \<Rightarrow> bytes) \<Rightarrow> nat \<Rightarrow> bytes list \<Rightarrow> bytes" where
  "mtree H 0 xs = hd xs"
| "mtree H (Suc k) xs =
     (if length xs \<le> 2 ^ k then hash_pair H (mtree H k xs) (mtree H k xs)
      else hash_pair H (mtree H k (take (2 ^ k) xs)) (mtree H k (drop (2 ^ k) xs)))"

fun mtree_mutated :: "(bytes \<Rightarrow> bytes) \<Rightarrow> nat \<Rightarrow> bytes list \<Rightarrow> bool" where
  "mtree_mutated H 0 xs = False"
| "mtree_mutated H (Suc k) xs =
     (if length xs \<le> 2 ^ k then mtree_mutated H k xs
      else mtree_mutated H k (take (2 ^ k) xs) \<or> mtree_mutated H k (drop (2 ^ k) xs)
           \<or> mtree H k (take (2 ^ k) xs) = mtree H k (drop (2 ^ k) xs))"

text \<open>The depth of the tree over \<open>n\<close> leaves.\<close>

fun tree_depth :: "nat \<Rightarrow> nat" where
  "tree_depth n = (if n \<le> 1 then 0 else Suc (tree_depth ((n + 1) div 2)))"

declare tree_depth.simps [simp del]

lemma tree_depth_small [simp]: "n \<le> 1 \<Longrightarrow> tree_depth n = 0"
  by (simp add: tree_depth.simps)

lemma tree_depth_eqI:
  assumes "n \<le> 2 ^ k" and "k = 0 \<or> 2 ^ (k - 1) < n"
  shows "tree_depth n = k"
  using assms
proof (induction k arbitrary: n)
  case (Suc k)
  then have n: "2 ^ k < n" by simp
  then have "1 < n" by (metis less_le_trans not_le one_le_numeral one_le_power)
  moreover have "tree_depth ((n + 1) div 2) = k"
  proof (rule Suc.IH)
    show "(n + 1) div 2 \<le> 2 ^ k" using Suc.prems by simp
    show "k = 0 \<or> 2 ^ (k - 1) < (n + 1) div 2" using n by (cases k) auto
  qed
  ultimately show ?case by (simp add: tree_depth.simps [of n])
qed simp

lemma tree_depth_bound: "n \<le> 2 ^ tree_depth n"
proof (induction n rule: tree_depth.induct)
  case (1 n)
  show ?case
  proof (cases "n \<le> 1")
    case False
    with 1 have "(n + 1) div 2 \<le> 2 ^ tree_depth ((n + 1) div 2)" by simp
    with False show ?thesis by (simp add: tree_depth.simps [of n])
  qed simp
qed

section \<open>The level-by-level root is the reference tree\<close>

lemma pad_level_append:
  "even (length xs) \<Longrightarrow> ys \<noteq> [] \<Longrightarrow> pad_level (xs @ ys) = xs @ pad_level ys"
  by (simp add: pad_level_def)

lemma hash_chunks_append:
  "even (length xs) \<Longrightarrow> hash_chunks H (xs @ ys) = hash_chunks H xs @ hash_chunks H ys"
  by (induction H xs rule: hash_chunks.induct) auto

lemma next_level_append:
  assumes "even (length xs)" and "ys \<noteq> []"
  shows "next_level H (xs @ ys) = next_level H xs @ next_level H ys"
proof -
  have "next_level H xs = hash_chunks H xs"
    using assms by (simp add: next_level_def pad_level_def)
  with assms show ?thesis
    by (simp add: next_level_def pad_level_append hash_chunks_append)
qed

lemma next_level_nonempty: "xs \<noteq> [] \<Longrightarrow> next_level H xs \<noteq> []"
  by (cases xs) (auto simp flip: length_greater_0_conv)

lemma mtree_next_level:
  "xs \<noteq> [] \<Longrightarrow> length xs \<le> 2 ^ Suc k \<Longrightarrow> mtree H (Suc k) xs = mtree H k (next_level H xs)"
proof (induction k arbitrary: xs)
  case 0
  then consider x where "xs = [x]" | x y where "xs = [x, y]"
    by (cases xs; cases "tl xs") auto
  then show ?case by cases (auto simp: next_level_def pad_level_def)
next
  case (Suc k)
  show ?case
  proof (cases "length xs \<le> 2 ^ Suc k")
    case True
    then have "length (next_level H xs) \<le> 2 ^ k" by simp
    with True Suc.IH [OF Suc.prems(1) True] show ?thesis by simp
  next
    case False
    define a where "a = take (2 ^ Suc k) xs"
    define b where "b = drop (2 ^ Suc k) xs"
    have ab: "xs = a @ b" "length a = 2 ^ Suc k" "b \<noteq> []" "length b \<le> 2 ^ Suc k" "a \<noteq> []"
      using False Suc.prems by (auto simp: a_def b_def)
    have nl: "next_level H xs = next_level H a @ next_level H b"
      using ab by (simp add: next_level_append)
    have la: "length (next_level H a) = 2 ^ k" using ab by simp
    have "length (next_level H b) > 0" using ab by simp
    then have "\<not> length (next_level H xs) \<le> 2 ^ k" using nl la by simp
    then have "mtree H (Suc k) (next_level H xs)
        = hash_pair H (mtree H k (next_level H a)) (mtree H k (next_level H b))"
      using nl la by simp
    also have "\<dots> = hash_pair H (mtree H (Suc k) a) (mtree H (Suc k) b)"
      using Suc.IH ab by (metis order_refl)
    also have "\<dots> = mtree H (Suc (Suc k)) xs"
      using False by (simp add: a_def b_def)
    finally show ?thesis by simp
  qed
qed

lemma root_loop_mtree: "xs \<noteq> [] \<Longrightarrow> root_loop H xs = mtree H (tree_depth (length xs)) xs"
proof (induction H xs rule: root_loop.induct)
  case (1 H xs)
  show ?case
  proof (cases "1 < length xs")
    case True
    define k where "k = tree_depth ((length xs + 1) div 2)"
    have d: "tree_depth (length xs) = Suc k"
      using True by (simp add: k_def tree_depth.simps [of "length xs"])
    have "length xs \<le> 2 ^ Suc k" using tree_depth_bound [of "length xs"] d by simp
    then have "mtree H (Suc k) xs = mtree H k (next_level H xs)"
      using 1 by (intro mtree_next_level)
    moreover have "root_loop H (next_level H xs) = mtree H k (next_level H xs)"
      using 1 True by (simp add: next_level_nonempty k_def)
    ultimately show ?thesis using True d by (simp add: root_loop.simps [of H xs])
  next
    case False
    then show ?thesis by (simp add: root_loop.simps [of H xs])
  qed
qed

section \<open>The streaming root is the reference tree\<close>

text \<open>
  \<open>segment l c ys\<close> is the complete subtree of \<open>2 ^ l\<close> leaves that bit \<open>l\<close> of the leaf count
  \<open>c\<close> stands for. \<open>stream_inv\<close> describes a running carry at level \<open>l\<close>: the leaves from position
  \<open>p\<close> on are in the node \<open>h\<close>, those before it in the stored subtrees.
\<close>

definition segment :: "nat \<Rightarrow> nat \<Rightarrow> 'a list \<Rightarrow> 'a list" where
  "segment l c ys = take (2 ^ l) (drop (c div 2 ^ Suc l * 2 ^ Suc l) ys)"

definition subtrees_ok :: "(bytes \<Rightarrow> bytes) \<Rightarrow> bytes list \<Rightarrow> nat \<Rightarrow> nat \<Rightarrow> bytes list \<Rightarrow> bool" where
  "subtrees_ok H inner l p ys \<longleftrightarrow>
     (\<forall>i\<ge>l. bit p i \<longrightarrow> inner ! i = mtree H i (segment i p ys))"

definition subtrees_mutated :: "(bytes \<Rightarrow> bytes) \<Rightarrow> nat \<Rightarrow> nat \<Rightarrow> bytes list \<Rightarrow> bool" where
  "subtrees_mutated H l p ys \<longleftrightarrow> (\<exists>i\<ge>l. bit p i \<and> mtree_mutated H i (segment i p ys))"

definition stream_inv ::
  "(bytes \<Rightarrow> bytes) \<Rightarrow> bytes list \<Rightarrow> bytes list \<Rightarrow> nat \<Rightarrow> nat \<Rightarrow> bytes \<Rightarrow> bool \<Rightarrow> bool"
where
  "stream_inv H inner ys l p h m \<longleftrightarrow>
     2 ^ l dvd p \<and> p < length ys \<and> length ys \<le> p + 2 ^ l \<and>
     (p = 0 \<longrightarrow> l = 0 \<or> 2 ^ (l - 1) < length ys) \<and>
     h = mtree H l (drop p ys) \<and>
     m = (subtrees_mutated H l p ys \<or> mtree_mutated H l (drop p ys)) \<and>
     subtrees_ok H inner l p ys"

lemma bit_div: "bit (n :: nat) i \<longleftrightarrow> odd (n div 2 ^ i)"
  by (simp add: bit_iff_odd)

lemma dvd_bit_cases:
  assumes "2 ^ l dvd (p :: nat)"
  obtains q where "p = q * 2 ^ Suc l" "\<not> bit p l" | q where "p = q * 2 ^ Suc l + 2 ^ l" "bit p l"
proof -
  from assms obtain k where k: "p = 2 ^ l * k" by blast
  show thesis
  proof (cases "even k")
    case True
    with k show thesis by (intro that(1) [of "k div 2"]) (auto simp: bit_div)
  next
    case False
    then obtain j where "k = 2 * j + 1" by (elim oddE)
    with k show thesis by (intro that(2) [of j]) (auto simp: bit_div algebra_simps)
  qed
qed

lemma div_high:
  assumes "l < i"
  shows "(q * 2 ^ Suc l + 2 ^ l) div 2 ^ i = (q * 2 ^ Suc l) div (2 ^ i :: nat)"
proof -
  obtain d where "i = Suc l + d" using assms less_iff_Suc_add by auto
  then have i: "(2 :: nat) ^ i = 2 ^ Suc l * 2 ^ d" by (simp add: power_add)
  have "(q * 2 ^ Suc l + 2 ^ l) div 2 ^ Suc l = (q :: nat)" by simp
  moreover have "(q * 2 ^ Suc l) div 2 ^ Suc l = (q :: nat)" by simp
  ultimately show ?thesis unfolding i by (simp only: div_mult2_eq)
qed

lemma bit_high:
  "l < i \<Longrightarrow> bit (q * 2 ^ Suc l + 2 ^ l :: nat) i = bit (q * 2 ^ Suc l :: nat) i"
  by (simp only: bit_div div_high)

lemma segment_high:
  "l \<le> i \<Longrightarrow> segment i (q * 2 ^ Suc l + 2 ^ l) ys = segment i (q * 2 ^ Suc l) ys"
  using div_high [of l "Suc i" q] by (simp only: segment_def less_Suc_eq_le)

lemma low_bit: "i < l \<Longrightarrow> 2 ^ l dvd (c :: nat) \<Longrightarrow> \<not> bit c i"
proof -
  assume "i < l" "2 ^ l dvd c"
  moreover obtain d where "l = Suc i + d" using \<open>i < l\<close> less_iff_Suc_add by auto
  ultimately obtain k where "c = 2 ^ Suc i * (2 ^ d * k)"
    by (auto simp: power_add dvd_def mult.assoc)
  then show "\<not> bit c i" by (auto simp: bit_div)
qed

lemma join_subtree:
  assumes inv: "stream_inv H inner ys l p h m" and p: "p = q * 2 ^ Suc l + 2 ^ l"
  shows "stream_inv H inner ys (Suc l) (q * 2 ^ Suc l)
           (hash_pair H (inner ! l) h) (m \<or> inner ! l = h)"
proof -
  let ?p = "q * 2 ^ Suc l"
  have bl: "bit p l" by (simp add: p bit_div)
  have seg: "segment l p ys = take (2 ^ l) (drop ?p ys)"
    by (simp add: segment_def p)
  have pl: "p < length ys" "length ys \<le> p + 2 ^ l"
    using inv by (simp_all add: stream_inv_def)
  have "drop (2 ^ l) (drop ?p ys) = drop p ys"
    using p by (simp add: add.commute)
  moreover have "\<not> length (drop ?p ys) \<le> 2 ^ l" using pl p by simp
  ultimately have tree: "mtree H (Suc l) (drop ?p ys) = hash_pair H (inner ! l) h"
    and mut: "mtree_mutated H (Suc l) (drop ?p ys) \<longleftrightarrow>
      mtree_mutated H l (segment l p ys) \<or> mtree_mutated H l (drop p ys) \<or> inner ! l = h"
    using inv bl seg by (auto simp: stream_inv_def subtrees_ok_def)
  have high: "bit p i = bit ?p i \<and> segment i p ys = segment i ?p ys" if "Suc l \<le> i" for i
    using that unfolding p by (simp only: bit_high segment_high Suc_le_eq less_imp_le)
  have sub: "subtrees_mutated H l p ys \<longleftrightarrow>
      subtrees_mutated H (Suc l) ?p ys \<or> mtree_mutated H l (segment l p ys)"
    using bl high unfolding subtrees_mutated_def
    by (metis Suc_leD Suc_leI le_eq_less_or_eq)
  have ok: "subtrees_ok H inner (Suc l) ?p ys"
    using inv high by (auto simp: stream_inv_def subtrees_ok_def)
  have "length ys \<le> ?p + 2 ^ Suc l" "?p < length ys" "?p = 0 \<longrightarrow> 2 ^ l < length ys"
    using pl p by auto
  with inv sub ok tree mut show ?thesis by (auto simp: stream_inv_def)
qed

lemma collapse_correct:
  assumes "stream_inv H inner ys l p h m" and "p + 2 ^ l < 2 ^ 32"
  shows "\<exists>l' p' h' m'. collapse H (p + 2 ^ l) inner l h m = Some (l', h', m') \<and>
           stream_inv H inner ys l' p' h' m' \<and> \<not> bit p' l' \<and> p' + 2 ^ l' = p + 2 ^ l"
  using assms
proof (induction "32 - l" arbitrary: l p h m)
  case 0
  then have "(2::nat) ^ 32 \<le> 2 ^ l" by (intro power_increasing) auto
  with 0 show ?case by simp
next
  case (Suc x)
  then have l: "\<not> 32 \<le> l" by simp
  have "2 ^ l dvd p" using Suc.prems by (simp add: stream_inv_def)
  then show ?case
  proof (cases rule: dvd_bit_cases)
    case (1 q)
    then have "bit (p + 2 ^ l) l" by (simp add: bit_div)
    then have "collapse H (p + 2 ^ l) inner l h m = Some (l, h, m)"
      using l by (simp add: collapse.simps [of H "p + 2 ^ l" inner l])
    with 1 Suc.prems(1) show ?thesis by blast
  next
    case (2 q)
    let ?p = "q * 2 ^ Suc l"
    have c: "p + 2 ^ l = ?p + 2 ^ Suc l" using 2 by simp
    have "\<not> bit (p + 2 ^ l) l" unfolding c by (simp add: bit_div)
    then have step: "collapse H (p + 2 ^ l) inner l h m =
        collapse H (?p + 2 ^ Suc l) inner (Suc l) (hash_pair H (inner ! l) h) (m \<or> inner ! l = h)"
      using l unfolding c by (subst collapse.simps) simp
    have "stream_inv H inner ys (Suc l) ?p (hash_pair H (inner ! l) h) (m \<or> inner ! l = h)"
      using Suc.prems 2 by (intro join_subtree)
    moreover have "x = 32 - Suc l" using Suc.hyps by simp
    moreover have "?p + 2 ^ Suc l < 2 ^ 32" using Suc.prems c by simp
    ultimately show ?thesis using Suc.hyps(1) step c by metis
  qed
qed

lemma stream_inv_settle:
  assumes inv: "stream_inv H inner ys l p h m" and nb: "\<not> bit p l"
    and len: "p + 2 ^ l = length ys" and l: "l < length inner"
  shows "subtrees_ok H (inner[l := h]) 0 (length ys) ys"
    and "m = subtrees_mutated H 0 (length ys) ys"
    and "stream_inv H (inner[l := h]) ys l p h m"
proof -
  have dvd: "2 ^ l dvd p" using inv by (simp add: stream_inv_def)
  then obtain q where q: "p = q * 2 ^ Suc l"
    using nb by (elim dvd_bit_cases) auto
  have c: "length ys = q * 2 ^ Suc l + 2 ^ l" using len q by simp
  have bits: "bit (length ys) i \<longleftrightarrow> i = l \<or> l < i \<and> bit p i" for i
  proof -
    have "2 ^ l dvd length ys" using len dvd by (metis dvd_add dvd_refl)
    then have "i < l \<Longrightarrow> \<not> bit (length ys) i" by (intro low_bit)
    moreover have "bit (length ys) l" by (simp add: c bit_div)
    moreover have "l < i \<Longrightarrow> bit (length ys) i = bit p i"
      unfolding c q by (rule bit_high)
    ultimately show ?thesis by (metis linorder_neqE_nat)
  qed
  have seg_l: "segment l (length ys) ys = drop p ys"
    using len by (simp add: segment_def c q)
  have seg_i: "l < i \<Longrightarrow> segment i (length ys) ys = segment i p ys" for i
  proof -
    assume "l < i"
    then have "segment i (q * 2 ^ Suc l + 2 ^ l) ys = segment i (q * 2 ^ Suc l) ys"
      by (intro segment_high) simp
    then show ?thesis using c q by metis
  qed
  show "subtrees_ok H (inner[l := h]) 0 (length ys) ys"
    using inv bits seg_l seg_i l by (auto simp: stream_inv_def subtrees_ok_def)
  have "subtrees_mutated H 0 (length ys) ys \<longleftrightarrow>
      mtree_mutated H l (drop p ys) \<or> (\<exists>i>l. bit p i \<and> mtree_mutated H i (segment i p ys))"
    using bits seg_l seg_i unfolding subtrees_mutated_def by (metis le0)
  moreover have "subtrees_mutated H l p ys \<longleftrightarrow> (\<exists>i>l. bit p i \<and> mtree_mutated H i (segment i p ys))"
    using nb unfolding subtrees_mutated_def by (metis le_eq_less_or_eq)
  ultimately show "m = subtrees_mutated H 0 (length ys) ys"
    using inv by (auto simp: stream_inv_def)
  show "stream_inv H (inner[l := h]) ys l p h m"
    using inv nb unfolding stream_inv_def subtrees_ok_def by (metis nth_list_update_neq)
qed

lemma segment_prefix:
  assumes "bit c i" and "c = length ys"
  shows "segment i c (ys @ zs) = segment i c ys"
proof -
  have "c div 2 ^ Suc i * 2 ^ Suc i + 2 ^ i \<le> c"
  proof -
    have "odd (c div 2 ^ i)" using assms by (simp add: bit_div)
    then have "c div 2 ^ i = 2 * (c div 2 ^ i div 2) + 1"
      by (rule odd_two_times_div_two_succ [symmetric])
    then have "c div 2 ^ i * 2 ^ i = (2 * (c div 2 ^ i div 2) + 1) * 2 ^ i" by (rule arg_cong)
    moreover have "c div 2 ^ Suc i = c div 2 ^ i div 2"
      by (metis div_mult2_eq mult.commute power_Suc)
    ultimately have "c div 2 ^ Suc i * 2 ^ Suc i + 2 ^ i = c div 2 ^ i * 2 ^ i"
      by (simp add: algebra_simps)
    also have "\<dots> \<le> c" by simp
    finally show ?thesis .
  qed
  then show ?thesis using assms by (simp add: segment_def)
qed

lemma absorb_correct:
  assumes "subtrees_ok H inner 0 (length ys) ys" and "length inner = 32"
    and "length ys + length zs < 2 ^ 32"
  shows "\<exists>inner'. absorb H zs (length ys) inner (subtrees_mutated H 0 (length ys) ys) =
           Some (length (ys @ zs), inner', subtrees_mutated H 0 (length (ys @ zs)) (ys @ zs)) \<and>
         subtrees_ok H inner' 0 (length (ys @ zs)) (ys @ zs) \<and> length inner' = 32"
  using assms
proof (induction zs arbitrary: ys inner)
  case (Cons z zs)
  let ?ys = "ys @ [z]" and ?m = "subtrees_mutated H 0 (length ys) ys"
  have mod: "(length ys + 1) mod 2 ^ 32 = length ys + 2 ^ 0"
    using Cons.prems by simp
  have seg: "bit (length ys) i \<Longrightarrow> segment i (length ys) ?ys = segment i (length ys) ys" for i
    by (simp add: segment_prefix)
  have m: "?m = subtrees_mutated H 0 (length ys) ?ys"
    using seg unfolding subtrees_mutated_def by metis
  have ok: "subtrees_ok H inner 0 (length ys) ?ys"
    using Cons.prems seg by (auto simp: subtrees_ok_def)
  have "stream_inv H inner ?ys 0 (length ys) z ?m"
    using ok m by (simp add: stream_inv_def)
  moreover have "length ys + 2 ^ 0 < 2 ^ 32" using Cons.prems by simp
  ultimately obtain l p h m' where
    col: "collapse H (length ys + 2 ^ 0) inner 0 z ?m = Some (l, h, m')" and
    inv: "stream_inv H inner ?ys l p h m'" "\<not> bit p l" "p + 2 ^ l = length ys + 2 ^ 0"
    using collapse_correct by blast
  have l: "l < 32" using collapse_level [OF col] by simp
  from inv(3) have len: "p + 2 ^ l = length ?ys" by simp
  have "subtrees_ok H (inner[l := h]) 0 (length ?ys) ?ys"
    using inv len l Cons.prems by (intro stream_inv_settle(1)) auto
  moreover have "m' = subtrees_mutated H 0 (length ?ys) ?ys"
    using inv len l Cons.prems by (intro stream_inv_settle(2)) auto
  moreover have "absorb H (z # zs) (length ys) inner ?m
      = absorb H zs (length ?ys) (inner[l := h]) m'"
    using col mod by (simp add: Let_def)
  ultimately show ?case
    using Cons.IH [of "inner[l := h]" ?ys] Cons.prems by simp
qed simp

lemma lowest_set_correct:
  assumes "2 ^ l dvd c" and "0 < c" and "c < 2 ^ 32"
  shows "\<exists>l'. lowest_set c l = Some l' \<and> 2 ^ l' dvd c \<and> bit c l' \<and> l' < 32"
  using assms
proof (induction "32 - l" arbitrary: l)
  case 0
  then have "(2::nat) ^ 32 \<le> 2 ^ l" by (intro power_increasing) auto
  with 0 show ?case by (meson dvd_imp_le leD le_less_trans)
next
  case (Suc x)
  from Suc.prems(1) show ?case
  proof (cases rule: dvd_bit_cases)
    case (1 q)
    then have "2 ^ Suc l dvd c" by simp
    moreover have "x = 32 - Suc l" using Suc.hyps by simp
    ultimately show ?thesis
      using Suc 1 by (metis Suc_eq_plus1 diff_is_0_eq lowest_set.simps nat.distinct(1))
  next
    case (2 q)
    have "l < 32" using Suc.hyps(2) by simp
    moreover from this 2(2) have "lowest_set c l = Some l" by (simp add: lowest_set.simps [of c l])
    ultimately have "lowest_set c l = Some l" "l < 32" by auto
    with Suc.prems 2 show ?thesis by blast
  qed
qed

lemma finish_correct:
  assumes "stream_inv H inner ys l p h m" and "\<not> bit p l" and "length ys \<le> 2 ^ 31"
  shows "\<exists>k. finish H inner (p + 2 ^ l) l h m = Some (mtree H k ys, mtree_mutated H k ys) \<and>
           tree_depth (length ys) = k"
  using assms
proof (induction "32 - l" arbitrary: l p h m rule: less_induct)
  case less
  show ?case
  proof (cases "p = 0")
    case True
    with less.prems have "tree_depth (length ys) = l"
      by (intro tree_depth_eqI) (auto simp: stream_inv_def)
    with True less.prems show ?thesis
      by (simp add: finish.simps [of H inner "2 ^ l"] stream_inv_def subtrees_mutated_def)
  next
    case False
    have inv: "2 ^ l dvd p" "p < length ys" "length ys \<le> p + 2 ^ l"
      using less.prems by (auto simp: stream_inv_def)
    from inv(1) less.prems(2) obtain q where q: "p = q * 2 ^ Suc l"
      by (elim dvd_bit_cases) auto
    then have le: "2 ^ Suc l \<le> p" using False by (cases q) auto
    then have lt: "p + 2 ^ Suc l < 2 ^ 32" and l: "l < 32"
    proof -
      show "p + 2 ^ Suc l < 2 ^ 32" using le inv less.prems(3) by simp
      then have "(2::nat) ^ l < 2 ^ 32" by simp
      then show "l < 32" by (rule power_less_imp_less_exp [rotated]) simp
    qed
    have bitp: "i \<ge> l \<and> bit p i \<longleftrightarrow> i \<ge> Suc l \<and> bit p i" for i
      using less.prems(2) by (metis Suc_leD le_antisym not_less_eq_eq)
    have inv': "stream_inv H inner ys (Suc l) p (hash_pair H h h) m"
      using less.prems(1) bitp q False inv
      by (auto simp: stream_inv_def subtrees_ok_def subtrees_mutated_def; metis)
    from collapse_correct [OF inv' lt] obtain l' p' h' m' where
      col: "collapse H (p + 2 ^ Suc l) inner (Suc l) (hash_pair H h h) m = Some (l', h', m')" and
      r: "stream_inv H inner ys l' p' h' m'" "\<not> bit p' l'" "p' + 2 ^ l' = p + 2 ^ Suc l"
      by blast
    have c: "(p + 2 ^ l + 2 ^ l) mod 2 ^ 32 = p + 2 ^ Suc l" using lt by simp
    have "finish H inner (p + 2 ^ l) l h m = finish H inner (p' + 2 ^ l') l' h' m'"
      using col c r(3) False
      by (simp add: finish.simps [of H inner "p + 2 ^ l"] Let_def)
    moreover have "32 - l' < 32 - l" using collapse_level [OF col] l by linarith
    ultimately show ?thesis using less.hyps r less.prems(3) by metis
  qed
qed

lemma root_detecting_mutation_mtree:
  assumes "leaves \<noteq> []" and "length leaves \<le> 2 ^ 31"
  shows "root_detecting_mutation H leaves =
     Some (Some (mtree H (tree_depth (length leaves)) leaves),
           mtree_mutated H (tree_depth (length leaves)) leaves)"
proof -
  let ?n = "length leaves"
  let ?inner0 = "replicate 32 (replicate 32 0) :: bytes list"
  have none: "subtrees_ok H ?inner0 0 (length ([] :: bytes list)) []"
      "\<not> subtrees_mutated H 0 (length ([] :: bytes list)) []"
    by (simp_all add: subtrees_ok_def subtrees_mutated_def)
  from absorb_correct [OF none(1), of leaves] assms obtain inner where
    abs: "absorb H leaves 0 ?inner0 False = Some (?n, inner, subtrees_mutated H 0 ?n leaves)" and
    ok: "subtrees_ok H inner 0 ?n leaves" "length inner = 32"
    using none(2) by auto
  have "2 ^ 0 dvd ?n" "0 < ?n" "?n < 2 ^ 32" using assms by auto
  then obtain l where l: "lowest_set ?n 0 = Some l" "2 ^ l dvd ?n" "bit ?n l" "l < 32"
    using lowest_set_correct by blast
  from l(2,3) obtain q where q: "?n = q * 2 ^ Suc l + 2 ^ l"
    by (elim dvd_bit_cases) auto
  let ?p = "q * 2 ^ Suc l"
  have np: "\<not> bit ?p l" by (simp add: bit_div)
  have bits: "bit ?n i \<longleftrightarrow> i = l \<or> l < i \<and> bit ?p i" for i
    using low_bit [of i l ?n] l(2,3) bit_high [of l i q] q by (metis linorder_neqE_nat)
  have segs: "l < i \<Longrightarrow> segment i ?n leaves = segment i ?p leaves" for i
    using segment_high [of l i q leaves] q by simp
  have seg_l: "segment l ?n leaves = drop ?p leaves"
    using q by (simp add: segment_def)
  have "stream_inv H inner leaves l ?p (inner ! l) (subtrees_mutated H 0 ?n leaves)"
    unfolding stream_inv_def
  proof (intro conjI)
    show "?p = 0 \<longrightarrow> l = 0 \<or> 2 ^ (l - 1) < ?n" using q by (cases l) auto
    show "inner ! l = mtree H l (drop ?p leaves)"
      using ok(1) l(3) seg_l by (simp add: subtrees_ok_def)
    show "subtrees_ok H inner l ?p leaves"
      using ok(1) bits segs np unfolding subtrees_ok_def by (metis le0 le_eq_less_or_eq)
    show "subtrees_mutated H 0 ?n leaves =
        (subtrees_mutated H l ?p leaves \<or> mtree_mutated H l (drop ?p leaves))"
      using bits segs np seg_l unfolding subtrees_mutated_def by (metis le0 le_eq_less_or_eq)
  qed (use q in auto)
  from finish_correct [OF this np assms(2)] show ?thesis
    using assms abs l(1) q by (auto simp: root_detecting_mutation_def)
qed

section \<open>Roots of unmutated trees are binding\<close>

text \<open>The byte strings that computing the reference tree hashes.\<close>

fun tree_inputs :: "(bytes \<Rightarrow> bytes) \<Rightarrow> nat \<Rightarrow> bytes list \<Rightarrow> bytes list" where
  "tree_inputs H 0 xs = []"
| "tree_inputs H (Suc k) xs =
     (if length xs \<le> 2 ^ k then (mtree H k xs @ mtree H k xs) # tree_inputs H k xs
      else (mtree H k (take (2 ^ k) xs) @ mtree H k (drop (2 ^ k) xs))
             # tree_inputs H k (take (2 ^ k) xs) @ tree_inputs H k (drop (2 ^ k) xs))"

definition collision :: "(bytes \<Rightarrow> bytes) \<Rightarrow> bytes list \<Rightarrow> bytes list \<Rightarrow> bool" where
  "collision H xs ys \<longleftrightarrow> list_ex (\<lambda>x. list_ex (\<lambda>y. x \<noteq> y \<and> H x = H y) ys) xs"

lemma collisionI: "x \<in> set xs \<Longrightarrow> y \<in> set ys \<Longrightarrow> x \<noteq> y \<Longrightarrow> H x = H y \<Longrightarrow> collision H xs ys"
  by (auto simp: collision_def list_ex_iff)

lemma collision_mono:
  "collision H xs ys \<Longrightarrow> set xs \<subseteq> set xs' \<Longrightarrow> set ys \<subseteq> set ys' \<Longrightarrow> collision H xs' ys'"
  by (auto simp: collision_def list_ex_iff)

lemma mtree_length:
  assumes "\<And>x. length (H x) = 32" and "\<forall>x\<in>set xs. length x = 32" and "xs \<noteq> []"
  shows "length (mtree H k xs) = 32"
  using assms(2,3) by (cases k) (auto simp: hash_pair_def assms(1))

lemma hash_pair_binding:
  assumes "hash_pair H a b = hash_pair H c d" and "length a = length c"
    and "a @ b \<in> set xs" and "c @ d \<in> set ys" and "\<not> collision H xs ys"
  shows "a = c \<and> b = d"
  using assms collisionI [of "a @ b" xs "c @ d" ys H] by (auto simp: hash_pair_def)

lemma mtree_binding:
  assumes H: "\<And>x. length (H x) = 32"
    and xs: "xs \<noteq> []" "length xs \<le> 2 ^ k" "\<forall>x\<in>set xs. length x = 32" "\<not> mtree_mutated H k xs"
    and ys: "ys \<noteq> []" "length ys \<le> 2 ^ k" "\<forall>x\<in>set ys. length x = 32" "\<not> mtree_mutated H k ys"
    and eq: "mtree H k xs = mtree H k ys"
    and nc: "\<not> collision H (tree_inputs H k xs) (tree_inputs H k ys)"
  shows "xs = ys"
  using xs ys eq nc
proof (induction k arbitrary: xs ys)
  case 0
  then show ?case by (cases xs; cases ys) auto
next
  case (Suc k)
  have len: "length (mtree H k zs) = 32" if "zs \<noteq> []" "set zs \<subseteq> set xs \<union> set ys" for zs
    using that Suc.prems by (intro mtree_length [OF H]) auto
  let ?l = "take (2 ^ k)" and ?r = "drop (2 ^ k)"
  have sub: "set (?l zs) \<subseteq> set zs" "set (?r zs) \<subseteq> set zs" for zs :: "bytes list"
    by (rule set_take_subset, rule set_drop_subset)
  have split: "zs = ws" if "?l zs = ?l ws" "?r zs = ?r ws" for zs ws :: "bytes list"
    using that by (metis append_take_drop_id)
  have nc: "\<not> collision H as bs"
    if "set as \<subseteq> set (tree_inputs H (Suc k) xs)" "set bs \<subseteq> set (tree_inputs H (Suc k) ys)" for as bs
    using that Suc.prems(10) collision_mono by blast
  consider (both) "length xs \<le> 2 ^ k" "length ys \<le> 2 ^ k"
    | (left) "\<not> length xs \<le> 2 ^ k" "length ys \<le> 2 ^ k"
    | (right) "length xs \<le> 2 ^ k" "\<not> length ys \<le> 2 ^ k"
    | (none) "\<not> length xs \<le> 2 ^ k" "\<not> length ys \<le> 2 ^ k" by blast
  then show ?case
  proof cases
    case both
    then have "mtree H k xs = mtree H k ys \<and> mtree H k xs = mtree H k ys"
      using Suc.prems len [of xs] len [of ys]
      by (intro hash_pair_binding [OF _ _ _ _ Suc.prems(10)]) auto
    moreover have "\<not> collision H (tree_inputs H k xs) (tree_inputs H k ys)"
      using both by (intro nc) auto
    ultimately show ?thesis using Suc.IH Suc.prems both by simp
  next
    case left
    then have "mtree H k (?l xs) = mtree H k ys \<and> mtree H k (?r xs) = mtree H k ys"
      using Suc.prems len [of "?l xs"] len [of ys] sub
      by (intro hash_pair_binding [OF _ _ _ _ Suc.prems(10)]) auto
    with left Suc.prems(4) show ?thesis by simp
  next
    case right
    then have "mtree H k xs = mtree H k (?l ys) \<and> mtree H k xs = mtree H k (?r ys)"
      using Suc.prems len [of "?l ys"] len [of xs] sub
      by (intro hash_pair_binding [OF _ _ _ _ Suc.prems(10)]) auto
    with right Suc.prems(8) show ?thesis by auto
  next
    case none
    have "set (?l xs) \<subseteq> set xs \<union> set ys" "set (?l ys) \<subseteq> set xs \<union> set ys"
      using sub by blast+
    then have e: "mtree H k (?l xs) = mtree H k (?l ys) \<and> mtree H k (?r xs) = mtree H k (?r ys)"
      using none Suc.prems len [of "?l xs"] len [of "?l ys"]
      by (intro hash_pair_binding [OF _ _ _ _ Suc.prems(10)]) auto
    have nc': "\<not> collision H (tree_inputs H k (?l xs)) (tree_inputs H k (?l ys))"
      "\<not> collision H (tree_inputs H k (?r xs)) (tree_inputs H k (?r ys))"
      using none by (intro nc; auto)+
    have "?l xs = ?l ys"
      using e nc'(1) none Suc.prems sub by (intro Suc.IH) (auto dest: in_set_takeD)
    moreover have "?r xs = ?r ys"
      using e nc'(2) none Suc.prems sub by (intro Suc.IH) (auto dest: in_set_dropD)
    ultimately show ?thesis by (rule split)
  qed
qed

section \<open>Branches\<close>

text \<open>How an SPV client folds a branch, as the tests of the file do.\<close>

fun fold_branch :: "(bytes \<Rightarrow> bytes) \<Rightarrow> nat \<Rightarrow> bytes \<Rightarrow> bytes list \<Rightarrow> bytes" where
  "fold_branch H idx h [] = h"
| "fold_branch H idx h (s # ss) =
     fold_branch H (idx div 2) (if even idx then hash_pair H h s else hash_pair H s h) ss"

lemma hash_chunks_nth:
  "i < length xs div 2 \<Longrightarrow> hash_chunks H xs ! i = hash_pair H (xs ! (2 * i)) (xs ! (2 * i + 1))"
proof (induction H xs arbitrary: i rule: hash_chunks.induct)
  case (1 H a b rest)
  then show ?case by (cases i) auto
qed auto

lemma nth_pad_level: "i < length level \<Longrightarrow> pad_level level ! i = level ! i"
  by (simp add: pad_level_def nth_append)

lemma fold_branch_step:
  assumes "idx < length level" and "1 < length level"
  defines "sib \<equiv> (if even idx then idx + 1 else idx - 1)"
  shows "sib < length (pad_level level)"
    and "(if even idx then hash_pair H (level ! idx) (pad_level level ! sib)
          else hash_pair H (pad_level level ! sib) (level ! idx))
         = next_level H level ! (idx div 2)"
proof -
  show "sib < length (pad_level level)"
    using assms unfolding sib_def length_pad_level by (cases "even idx") (auto, presburger)
  have "idx div 2 < length (pad_level level) div 2"
    using assms unfolding length_pad_level by presburger
  from hash_chunks_nth [OF this, of H] have "next_level H level ! (idx div 2) =
      hash_pair H (pad_level level ! (2 * (idx div 2))) (pad_level level ! (2 * (idx div 2) + 1))"
    by (simp add: next_level_def)
  then show "(if even idx then hash_pair H (level ! idx) (pad_level level ! sib)
      else hash_pair H (pad_level level ! sib) (level ! idx)) = next_level H level ! (idx div 2)"
    using assms by (auto simp: nth_pad_level elim!: evenE oddE)
qed

lemma branch_loop_correct:
  assumes "idx < length level"
  shows "\<exists>path. branch_loop H level idx acc = Some (root_loop H level, acc @ path) \<and>
           fold_branch H idx (level ! idx) path = root_loop H level \<and>
           length path = tree_depth (length level)"
  using assms
proof (induction H level idx acc rule: branch_loop.induct)
  case (1 H level idx acc)
  show ?case
  proof (cases "1 < length level")
    case True
    let ?sib = "if even idx then idx + 1 else idx - 1"
    let ?s = "pad_level level ! ?sib"
    have sib: "?sib < length (pad_level level)" using fold_branch_step(1) 1(2) True by blast
    have "idx div 2 < length (next_level H level)" using 1(2) by simp
    with 1(1) [OF True refl refl sib] obtain path where
      p: "branch_loop H (next_level H level) (idx div 2) (acc @ [?s])
           = Some (root_loop H (next_level H level), acc @ ?s # path)"
        "fold_branch H (idx div 2) (next_level H level ! (idx div 2)) path
           = root_loop H (next_level H level)"
        "length path = tree_depth (length (next_level H level))"
      by (auto simp: next_level_def)
    show ?thesis
    proof (intro exI [of _ "?s # path"] conjI)
      show "branch_loop H level idx acc = Some (root_loop H level, acc @ ?s # path)"
        using p(1) True sib
        by (simp add: branch_loop.simps [of H level] root_loop.simps [of H level] next_level_def
            Let_def)
      show "fold_branch H idx (level ! idx) (?s # path) = root_loop H level"
        using p(2) fold_branch_step(2) [OF 1(2) True, of H] True
        by (simp add: root_loop.simps [of H level])
      show "length (?s # path) = tree_depth (length level)"
        using p(3) True by (simp add: tree_depth.simps [of "length level"])
    qed
  next
    case False
    with 1(2) show ?thesis
      by (cases level) (simp_all add: branch_loop.simps [of H "[_]"] root_loop.simps [of H "[_]"])
  qed
qed

section \<open>Properties\<close>

text \<open>
  C9: the streaming routine that \<^verbatim>\<open>verify_merkle_root_with_txids\<close> calls never panics on up to
  \<open>2 ^ 31\<close> leaves, returns the same root as the level-by-level \<^verbatim>\<open>root\<close>, and raises its flag
  exactly when two real sibling subtrees of the tree are equal.
\<close>
theorem root_detecting_mutation_is_root:
  assumes "leaves \<noteq> []" and "length leaves \<le> 2 ^ 31"
  shows "root_detecting_mutation sha256d leaves =
     Some (Some (root sha256d leaves),
           mtree_mutated sha256d (tree_depth (length leaves)) leaves)"
  using root_detecting_mutation_mtree [OF assms] assms
  by (simp add: root_def root_loop_mtree)

theorem root_detecting_mutation_is_root_witness:
  "root_detecting_mutation (\<lambda>bs. [of_nat (le_val bs mod 251)]) [[1], [2], [3], [3]] =
     Some (Some (root (\<lambda>bs. [of_nat (le_val bs mod 251)]) [[1], [2], [3], [3]]), True)"
  using root_detecting_mutation_is_root
    [of "[[1], [2], [3], [3]]" "\<lambda>bs. [of_nat (le_val bs mod 251)]"]
  by (simp add: tree_depth.simps)

text \<open>
  C10: two transaction lists whose roots agree and that are both reported unmutated are the same
  list, unless the two computations exhibit a collision of \<^verbatim>\<open>sha256d\<close> (the lists have trees of
  the same depth). This is what closes CVE-2012-2459.
\<close>
theorem unmutated_root_binding:
  assumes sha256d: "\<And>x. length (sha256d x) = 32"
    and xs: "xs \<noteq> []" "length xs \<le> 2 ^ 31" "\<forall>x\<in>set xs. length x = 32"
    and ys: "ys \<noteq> []" "length ys \<le> 2 ^ 31" "\<forall>y\<in>set ys. length y = 32"
    and depth: "tree_depth (length xs) = tree_depth (length ys)"
    and rx: "root_detecting_mutation sha256d xs = Some (Some r, False)"
    and ry: "root_detecting_mutation sha256d ys = Some (Some r, False)"
  shows "xs = ys \<or> collision sha256d (tree_inputs sha256d (tree_depth (length xs)) xs)
                                     (tree_inputs sha256d (tree_depth (length ys)) ys)"
proof -
  let ?k = "tree_depth (length xs)"
  have "length xs \<le> 2 ^ ?k" "length ys \<le> 2 ^ ?k"
    using tree_depth_bound depth by metis+
  with rx ry show ?thesis
    using mtree_binding [OF sha256d xs(1) _ xs(3) _ ys(1) _ ys(3), of ?k]
      root_detecting_mutation_mtree [OF xs(1,2), of sha256d]
      root_detecting_mutation_mtree [OF ys(1,2), of sha256d] depth
    by auto
qed

theorem unmutated_root_binding_witness:
  "(let H = (\<lambda>bs :: bytes. take 32 (bs @ replicate 32 0)); a = replicate 32 1; b = replicate 32 2
    in root_detecting_mutation H [a, b] = Some (Some a, False) \<and>
       ([a, b] = [a, b] \<or> collision H (tree_inputs H 1 [a, b]) (tree_inputs H 1 [a, b])))"
proof -
  let ?H = "\<lambda>bs :: bytes. take 32 (bs @ replicate 32 0)"
  let ?l = "[replicate 32 1, replicate 32 2] :: bytes list"
  have d: "tree_depth (length ?l) = 1" by (simp add: tree_depth.simps)
  have r: "root_detecting_mutation ?H ?l = Some (Some (replicate 32 1), False)"
    using root_detecting_mutation_mtree [of ?l ?H] d by (simp add: hash_pair_def)
  have "?l = ?l \<or> collision ?H (tree_inputs ?H (tree_depth (length ?l)) ?l)
                                (tree_inputs ?H (tree_depth (length ?l)) ?l)"
    by (rule unmutated_root_binding [where r = "replicate 32 1"])
      (use r in \<open>auto simp: tree_depth.simps\<close>)
  with r d show ?thesis by (simp only: Let_def simp_thms)
qed

text \<open>
  C11: for a leaf inside the tree \<^verbatim>\<open>branch\<close> does not panic, its root is the root of the leaves, its
  path has one sibling per level of the tree, and folding the path from the leaf gives the root back.
\<close>
theorem branch_folds_to_root:
  assumes "index < length leaves"
  shows "\<exists>path. branch sha256d leaves index = Some (root sha256d leaves, path) \<and>
           fold_branch sha256d index (leaves ! index) path = root sha256d leaves \<and>
           length path = tree_depth (length leaves)"
  using branch_loop_correct [OF assms, of sha256d "[]"] assms
  by (auto simp: branch_def root_def)

theorem branch_folds_to_root_witness:
  "\<exists>path. branch (\<lambda>bs. [of_nat (le_val bs mod 251)]) [[7], [8], [9]] 2 =
            Some (root (\<lambda>bs. [of_nat (le_val bs mod 251)]) [[7], [8], [9]], path) \<and>
          fold_branch (\<lambda>bs. [of_nat (le_val bs mod 251)]) 2 [9] path =
            root (\<lambda>bs. [of_nat (le_val bs mod 251)]) [[7], [8], [9]] \<and> length path = 2"
  using branch_folds_to_root [of 2 "[[7], [8], [9]]" "\<lambda>bs. [of_nat (le_val bs mod 251)]"]
  by (simp add: tree_depth.simps flip: numeral_2_eq_2)

end
