(* ===== verification/Net_Time.thy ===== *)
theory Net_Time
  imports Node_Prelude "HOL-Library.Signed_Division"
begin

text \<open>
  Network-adjusted time, \<^verbatim>\<open>bitcoinpr-core/src/time.rs\<close>. The three statics are the fields of one
  record. Offsets are \<^verbatim>\<open>i64\<close>: 64-bit words read with \<open>sint\<close>, whose \<^verbatim>\<open>abs\<close> and \<open>+\<close> wrap around.
\<close>

section \<open>The code\<close>

definition MAX_SAMPLES :: nat where "MAX_SAMPLES = 200"
definition MIN_SAMPLES :: nat where "MIN_SAMPLES = 5"
definition MAX_TIME_OFFSET_SECS :: int where "MAX_TIME_OFFSET_SECS = 70 * 60"

record time_state =
  OFFSET_SECS :: i64
  SAMPLES :: "i64 list"
  CLOCK_WARNED :: bool

definition reset_for_test :: time_state where
  "reset_for_test = \<lparr>OFFSET_SECS = 0, SAMPLES = [], CLOCK_WARNED = False\<rparr>"

definition i64_abs :: "i64 \<Rightarrow> i64" where
  "i64_abs x = (if sint x < 0 then - x else x)"

definition adjusted_time_secs :: "i64 \<Rightarrow> time_state \<Rightarrow> i64" where
  "adjusted_time_secs local_time_secs st = local_time_secs + OFFSET_SECS st"

definition median_of :: "i64 list \<Rightarrow> i64" where
  "median_of samples = sort_key sint samples ! (length samples div 2)"

definition add_time_sample :: "time_state \<Rightarrow> i64 \<Rightarrow> time_state" where
  "add_time_sample st offset_secs =
     (if MAX_SAMPLES \<le> length (SAMPLES st) then st
      else
        (let samples = SAMPLES st @ [offset_secs]; st' = st\<lparr>SAMPLES := samples\<rparr>
         in if MIN_SAMPLES \<le> length samples \<and> length samples mod 2 = 1 then
              (let median = median_of samples
               in if sint (i64_abs median) \<le> MAX_TIME_OFFSET_SECS
                  then st'\<lparr>OFFSET_SECS := median\<rparr>
                  else st'\<lparr>OFFSET_SECS := 0, CLOCK_WARNED := True\<rparr>)
            else st'))"

section \<open>The applied offset\<close>

definition I64_MIN :: i64 where "I64_MIN = 0x8000000000000000"

lemma sint_I64_MIN: "sint I64_MIN = - (2 ^ 63)"
  by (simp add: I64_MIN_def sint_uint signed_take_bit_def mask_eq_exp_minus_1 not_int_def)

lemma i64_abs_bound:
  assumes "sint (i64_abs m) \<le> b" and "m \<noteq> I64_MIN"
  shows "\<bar>sint m\<bar> \<le> b"
proof (cases "sint m < 0")
  case True
  have "sint m \<noteq> - (2 ^ 63)"
    using assms(2) sint_I64_MIN by (metis signed_word_eqI)
  moreover have "- (2 ^ 63) \<le> sint m"
    using sint_ge [of m] by simp
  ultimately have "- (2 ^ 63) < - sint m" "- sint m < 2 ^ 63"
    using True by auto
  then have "sint (- m) = - sint m"
    by (simp add: signed_take_bit_int_eq_self sint_word_ariths(4))
  with True assms(1) show ?thesis by (simp add: i64_abs_def)
qed (use assms in \<open>simp add: i64_abs_def\<close>)

lemma median_of_mem: "xs \<noteq> [] \<Longrightarrow> median_of xs \<in> set xs"
proof -
  assume "xs \<noteq> []"
  then have "length xs div 2 < length (sort_key sint xs)" by simp
  then show ?thesis unfolding median_of_def by (metis nth_mem set_sort)
qed

definition time_inv :: "time_state \<Rightarrow> bool" where
  "time_inv st \<longleftrightarrow>
     length (SAMPLES st) \<le> MAX_SAMPLES \<and>
     (OFFSET_SECS st = 0 \<or> OFFSET_SECS st \<in> set (SAMPLES st)) \<and>
     (OFFSET_SECS st = I64_MIN \<or> \<bar>sint (OFFSET_SECS st)\<bar> \<le> MAX_TIME_OFFSET_SECS) \<and>
     (length (SAMPLES st) < MIN_SAMPLES \<longrightarrow> OFFSET_SECS st = 0)"

lemma time_inv_reset: "time_inv reset_for_test"
  by (simp add: time_inv_def reset_for_test_def MAX_TIME_OFFSET_SECS_def)

lemma time_inv_add:
  assumes "time_inv st"
  shows "time_inv (add_time_sample st x)"
proof -
  let ?ys = "SAMPLES st @ [x]"
  have m: "median_of ?ys \<in> set ?ys" by (rule median_of_mem) simp
  have b: "median_of ?ys = I64_MIN \<or> \<bar>sint (median_of ?ys)\<bar> \<le> MAX_TIME_OFFSET_SECS"
    if "sint (i64_abs (median_of ?ys)) \<le> MAX_TIME_OFFSET_SECS"
    using that i64_abs_bound by blast
  from assms m b show ?thesis
    by (auto simp: add_time_sample_def time_inv_def Let_def MAX_TIME_OFFSET_SECS_def)
qed

lemma samples_add: "set (SAMPLES (add_time_sample st x)) \<subseteq> insert x (set (SAMPLES st))"
  by (auto simp: add_time_sample_def Let_def)

lemma time_inv_run: "time_inv (fold (\<lambda>x st. add_time_sample st x) xs reset_for_test) \<and>
  set (SAMPLES (fold (\<lambda>x st. add_time_sample st x) xs reset_for_test)) \<subseteq> set xs"
proof (induction xs rule: rev_induct)
  case Nil
  then show ?case using time_inv_reset by (simp add: reset_for_test_def)
next
  case (snoc x xs)
  then show ?case using time_inv_add samples_add by fastforce
qed

text \<open>The majority bound: with an odd number of samples, more than half of which lie in an
  interval, the median lies in it too.\<close>

lemma sorted_median_majority:
  fixes ys :: "int list"
  assumes "sorted ys" and "length ys < 2 * length (filter (\<lambda>y. lo \<le> y \<and> y \<le> hi) ys)"
  shows "lo \<le> ys ! (length ys div 2) \<and> ys ! (length ys div 2) \<le> hi"
proof -
  let ?n = "length ys" and ?m = "length ys div 2"
  have len: "length (filter P ys) = card {i. i < ?n \<and> P (ys ! i)}" for P
    by (rule length_filter_conv_card)
  have m: "?m < ?n" using assms(2) by (cases ys) auto
  have "lo \<le> ys ! ?m"
  proof (rule ccontr)
    assume "\<not> lo \<le> ys ! ?m"
    then have "{i. i < ?n \<and> lo \<le> ys ! i \<and> ys ! i \<le> hi} \<subseteq> {?m<..<?n}"
      using sorted_nth_mono [OF assms(1)] m by (force simp: not_le)
    then have "card {i. i < ?n \<and> lo \<le> ys ! i \<and> ys ! i \<le> hi} \<le> ?n - Suc ?m"
      using card_mono [of "{?m<..<?n}"] by force
    with assms(2) m show False unfolding len by linarith
  qed
  moreover have "ys ! ?m \<le> hi"
  proof (rule ccontr)
    assume "\<not> ys ! ?m \<le> hi"
    then have "{i. i < ?n \<and> lo \<le> ys ! i \<and> ys ! i \<le> hi} \<subseteq> {..<?m}"
      using sorted_nth_mono [OF assms(1)] m by (force simp: not_le)
    then have "card {i. i < ?n \<and> lo \<le> ys ! i \<and> ys ! i \<le> hi} \<le> ?m"
      using card_mono [of "{..<?m}"] by force
    with assms(2) m show False unfolding len by linarith
  qed
  ultimately show ?thesis by blast
qed

lemma median_majority:
  assumes "length xs < 2 * length (filter (\<lambda>x. lo \<le> sint x \<and> sint x \<le> hi) xs)"
  shows "lo \<le> sint (median_of xs) \<and> sint (median_of xs) \<le> hi"
proof -
  let ?ys = "map sint (sort_key sint xs)"
  have m: "length xs div 2 < length xs" using assms by (cases xs) auto
  have "length (filter (\<lambda>y. lo \<le> y \<and> y \<le> hi) ?ys)
      = length (filter (\<lambda>x. lo \<le> sint x \<and> sint x \<le> hi) (sort_key sint xs))"
    by (simp add: filter_map o_def)
  also have "\<dots> = length (filter (\<lambda>x. lo \<le> sint x \<and> sint x \<le> hi) xs)"
    by (simp add: filter_sort)
  finally have "lo \<le> ?ys ! (length ?ys div 2) \<and> ?ys ! (length ?ys div 2) \<le> hi"
    using assms by (intro sorted_median_majority) simp_all
  with m show ?thesis by (simp add: median_of_def)
qed

section \<open>Properties\<close>

text \<open>
  whatever clocks peers report, starting from the initial state, the applied offset is zero or
  one of the reported offsets, stays within 70 minutes, is zero until five samples are in, and the
  window never grows past 200 samples; the report \<^verbatim>\<open>i64::MIN\<close>, on which \<^verbatim>\<open>abs\<close> overflows, is excluded.
\<close>
theorem time_offset_bounded:
  assumes "I64_MIN \<notin> set xs"
  defines "st \<equiv> fold (\<lambda>x st. add_time_sample st x) xs reset_for_test"
  shows "\<bar>sint (OFFSET_SECS st)\<bar> \<le> MAX_TIME_OFFSET_SECS
    \<and> (OFFSET_SECS st = 0 \<or> OFFSET_SECS st \<in> set xs)
    \<and> (length (SAMPLES st) < MIN_SAMPLES \<longrightarrow> OFFSET_SECS st = 0)
    \<and> length (SAMPLES st) \<le> MAX_SAMPLES"
proof -
  have "time_inv st" "set (SAMPLES st) \<subseteq> set xs"
    unfolding st_def using time_inv_run by blast+
  moreover have "I64_MIN \<noteq> 0" by (simp add: I64_MIN_def)
  ultimately show ?thesis using assms(1) by (auto simp: time_inv_def)
qed

theorem time_offset_bounded_witness:
  "\<bar>sint (OFFSET_SECS (fold (\<lambda>x st. add_time_sample st x) [1, 2, 3, 4, 9000] reset_for_test))\<bar> \<le> 4200"
  using time_offset_bounded [of "[1, 2, 3, 4, 9000]"]
  by (simp add: I64_MIN_def MAX_TIME_OFFSET_SECS_def)

text \<open>
  C29: a minority of lying peers cannot move the clock outside the honest range: when the sample
  that triggers a recomputation leaves more than half of the samples in \<open>[lo, hi]\<close>, and that range
  is inside 70 minutes, the new offset is in the range.
\<close>
theorem time_offset_honest_majority:
  assumes "length (SAMPLES st) < MAX_SAMPLES" and "MIN_SAMPLES \<le> Suc (length (SAMPLES st))"
    and "even (length (SAMPLES st))"
    and "Suc (length (SAMPLES st))
           < 2 * length (filter (\<lambda>y. lo \<le> sint y \<and> sint y \<le> hi) (SAMPLES st @ [x]))"
    and "- MAX_TIME_OFFSET_SECS \<le> lo" and "hi \<le> MAX_TIME_OFFSET_SECS"
  shows "lo \<le> sint (OFFSET_SECS (add_time_sample st x))
       \<and> sint (OFFSET_SECS (add_time_sample st x)) \<le> hi"
proof -
  let ?m = "median_of (SAMPLES st @ [x])"
  have m: "lo \<le> sint ?m \<and> sint ?m \<le> hi"
    using assms(4) by (intro median_majority) simp
  have "sint (i64_abs ?m) \<le> MAX_TIME_OFFSET_SECS"
  proof (cases "sint ?m < 0")
    case True
    have "- (2 ^ 63) < - sint ?m" "- sint ?m < 2 ^ 63"
      using True m assms(5) by (auto simp: MAX_TIME_OFFSET_SECS_def)
    then have "sint (- ?m) = - sint ?m"
      by (simp add: signed_take_bit_int_eq_self sint_word_ariths(4))
    with True m assms(5) show ?thesis by (simp add: i64_abs_def)
  qed (use m assms(6) in \<open>simp add: i64_abs_def\<close>)
  with assms m show ?thesis
    by (simp add: add_time_sample_def Let_def even_iff_mod_2_eq_zero mod_Suc)
qed

theorem time_offset_honest_majority_witness:
  "let st = \<lparr>OFFSET_SECS = 0, SAMPLES = [1, 2, 100000, 3], CLOCK_WARNED = False\<rparr>
   in 1 \<le> sint (OFFSET_SECS (add_time_sample st 100000))
      \<and> sint (OFFSET_SECS (add_time_sample st 100000)) \<le> 3"
  using time_offset_honest_majority
    [of "\<lparr>OFFSET_SECS = 0, SAMPLES = [1, 2, 100000, 3], CLOCK_WARNED = False\<rparr>" 1 3 100000]
  by (simp add: MAX_SAMPLES_def MIN_SAMPLES_def MAX_TIME_OFFSET_SECS_def Let_def)


end
