(* ===== verification/Bitcoin_Types.thy ===== *)
theory Bitcoin_Types
  imports Node_Prelude
begin

text \<open>
  The data the node's code passes around: transactions, headers and blocks with the public fields
  of the \<^verbatim>\<open>bitcoin\<close> crate's structs, and the error values of \<^verbatim>\<open>bitcoinpr-core/src/error.rs\<close>. Hashes are
  32-byte strings, amounts are satoshis in a \<^verbatim>\<open>u64\<close>, signed 32-bit versions are their bit pattern.
  The crate's functions (hashes, consensus encoding, compact targets, signature checks) are
  arguments of the definitions that call them.
\<close>

section \<open>Transactions and blocks\<close>

record out_point =
  op_txid :: bytes
  op_vout :: u32

record tx_in =
  previous_output :: out_point
  script_sig :: bytes
  in_sequence :: u32
  in_witness :: "bytes list"

record tx_out =
  out_value :: u64
  script_pubkey :: bytes

record transaction =
  tx_version :: u32
  tx_lock_time :: u32
  tx_input :: "tx_in list"
  tx_output :: "tx_out list"

record block_header =
  hdr_version :: u32
  prev_blockhash :: bytes
  hdr_merkle_root :: bytes
  hdr_time :: u32
  hdr_bits :: u32
  hdr_nonce :: u32

record block =
  blk_header :: block_header
  txdata :: "transaction list"

section \<open>The functions of the \<^verbatim>\<open>bitcoin\<close> crate\<close>

text \<open>
  One record holds the crate's functions that the consensus code calls. Targets are 32-byte
  big-endian strings, as \<^verbatim>\<open>Target::to_be_bytes\<close> gives them.
\<close>

record bitcoin_crate =
  sha256d :: "bytes \<Rightarrow> bytes"
  compute_txid :: "transaction \<Rightarrow> bytes"
  compute_wtxid :: "transaction \<Rightarrow> bytes"
  is_coinbase :: "transaction \<Rightarrow> bool"
  outpoint_null :: out_point
  block_hash :: "block_header \<Rightarrow> bytes"
  encode_header :: "block_header \<Rightarrow> bytes"
  decode_header :: "bytes \<Rightarrow> string + block_header"
  target_from_compact :: "u32 \<Rightarrow> bytes"
  target_to_work :: "bytes \<Rightarrow> bytes"
  to_compact_lossy :: "bytes \<Rightarrow> u32"
  pow_hash_ok :: "block_header \<Rightarrow> bool"
  block_weight :: "block \<Rightarrow> u64"
  is_op_return :: "bytes \<Rightarrow> bool"

section \<open>Errors\<close>

text \<open>Failures of the disk itself (\<^verbatim>\<open>Io\<close>, \<^verbatim>\<open>RocksDb\<close>) carry no data here: the column families of the
  model are maps, which do not fail.\<close>

datatype storage_error =
  Database string
| Io
| Serialization string
| NotFound string
| RocksDb
| MissingColumnFamily string

datatype core_error =
  BlockNotFound bytes
| InvalidProofOfWork
| InvalidBlockHash bytes bytes
| InvalidMerkleRoot
| InvalidTimestamp string
| InvalidDifficultyTarget string
| InvalidBlock string
| InvalidTransaction string
| InvalidScript string
| MissingUtxo out_point
| DoubleSpend out_point
| InvalidCoinbase string
| BlockWeightExceeded u64 u32
| InvalidSubsidy u64 u64
| UndoMissing bytes u32
| Storage storage_error
| ChainContext string

type_synonym 'a core_result = "core_error + 'a"

end
