(* ===== verification/Versionbits.thy ===== *)
theory Versionbits
  imports Bitcoin_Types
begin

text \<open>
  The BIP 9 deployment tracker of \<^verbatim>\<open>bitcoinpr-core/src/versionbits.rs\<close>: deployment parameters, the
  per-deployment state machine, and the tracker that advances all of them at a retarget boundary.
\<close>

unbundle bit_operations_syntax

section \<open>The code\<close>

datatype deployment_state = Defined | Started | LockedIn | Active | Failed

record deployment =
  d_name :: string
  d_bit :: u8
  d_start_time :: u64
  d_timeout :: u64
  d_min_activation_height :: u32
  d_threshold :: u32

record version_bits_tracker =
  deployments :: "deployment list"
  states :: "deployment_state list"

definition RETARGET_PERIOD :: u32 where "RETARGET_PERIOD = 2016"

definition tracker_new :: "deployment list \<Rightarrow> version_bits_tracker" where
  "tracker_new ds = \<lparr>deployments = ds, states = replicate (length ds) Defined\<rparr>"

definition tracker_mainnet :: version_bits_tracker where
  "tracker_mainnet = tracker_new
     [\<lparr>d_name = ''csv'', d_bit = 0, d_start_time = 1462060800, d_timeout = 1493596800,
       d_min_activation_height = 0, d_threshold = 1916\<rparr>,
      \<lparr>d_name = ''segwit'', d_bit = 1, d_start_time = 1479168000, d_timeout = 1510704000,
       d_min_activation_height = 0, d_threshold = 1916\<rparr>,
      \<lparr>d_name = ''taproot'', d_bit = 2, d_start_time = 1619222400, d_timeout = 1628640000,
       d_min_activation_height = 709632, d_threshold = 1815\<rparr>]"

definition tracker_regtest :: version_bits_tracker where
  "tracker_regtest = (tracker_new [])\<lparr>states := []\<rparr>"

text \<open>\<^verbatim>\<open>state\<close>: the first deployment of that name; an index outside \<^verbatim>\<open>states\<close> would panic, which the
  outer \<open>None\<close> marks.\<close>

fun position :: "('a \<Rightarrow> bool) \<Rightarrow> 'a list \<Rightarrow> nat option" where
  "position P [] = None"
| "position P (x # xs) = (if P x then Some 0 else map_option Suc (position P xs))"

definition tracker_state ::
  "version_bits_tracker \<Rightarrow> string \<Rightarrow> deployment_state option option"
where
  "tracker_state t name =
     (case position (\<lambda>d. d_name d = name) (deployments t) of
        None \<Rightarrow> Some None
      | Some i \<Rightarrow> if i < length (states t) then Some (Some (states t ! i)) else None)"

definition all_states :: "version_bits_tracker \<Rightarrow> (string \<times> deployment_state) list" where
  "all_states t = map (\<lambda>(d, s). (d_name d, s)) (zip (deployments t) (states t))"

definition count_signals :: "block_header list \<Rightarrow> u8 \<Rightarrow> u32" where
  "count_signals headers b =
     (let version_mask = push_bit (unat b mod 32) (1 :: u32); version_top = 0x20000000
      in of_nat (length (filter
           (\<lambda>h. hdr_version h AND version_top = version_top \<and> hdr_version h AND version_mask \<noteq> 0)
           headers)))"

fun next_state ::
  "deployment_state \<Rightarrow> deployment \<Rightarrow> u32 \<Rightarrow> u64 \<Rightarrow> u32 \<Rightarrow> deployment_state"
where
  "next_state Defined d height median_time signal_count =
     (if d_start_time d \<le> median_time then Started else Defined)"
| "next_state Started d height median_time signal_count =
     (if d_threshold d \<le> signal_count then LockedIn
      else if d_timeout d \<le> median_time then Failed
      else Started)"
| "next_state LockedIn d height median_time signal_count =
     (if d_min_activation_height d \<le> height then Active else LockedIn)"
| "next_state Active d height median_time signal_count = Active"
| "next_state Failed d height median_time signal_count = Failed"

definition update_states ::
  "version_bits_tracker \<Rightarrow> u32 \<Rightarrow> u64 \<Rightarrow> u32 list \<Rightarrow> version_bits_tracker"
where
  "update_states t height median_time signal_counts =
     (if height mod RETARGET_PERIOD \<noteq> 0 then t
      else t\<lparr>states := fold
        (\<lambda>(i, d) ss.
           let signal_count = (if i < length signal_counts then signal_counts ! i else 0);
               new_state = next_state (ss ! i) d height median_time signal_count
           in if new_state \<noteq> ss ! i then ss[i := new_state] else ss)
        (enumerate 0 (deployments t)) (states t)\<rparr>)"

section \<open>The machine only moves forward\<close>

fun deployment_rank :: "deployment_state \<Rightarrow> nat" where
  "deployment_rank Defined = 0"
| "deployment_rank Started = 1"
| "deployment_rank LockedIn = 2"
| "deployment_rank Active = 3"
| "deployment_rank Failed = 3"

text \<open>One boundary of one deployment: height, median time and signal count.\<close>

definition boundary_step ::
  "deployment \<Rightarrow> u32 \<times> u64 \<times> u32 \<Rightarrow> deployment_state \<Rightarrow> deployment_state"
where
  "boundary_step d b s = (case b of (height, mtp, count) \<Rightarrow> next_state s d height mtp count)"

definition terminal :: "deployment_state \<Rightarrow> bool" where
  "terminal s \<longleftrightarrow> s = Active \<or> s = Failed"

interpretation bip9: ranked_machine "boundary_step d" deployment_rank terminal for d
proof
  show "deployment_rank s \<le> deployment_rank (boundary_step d i s)" for s i
    by (cases s; cases i) (auto simp: boundary_step_def)
  show "terminal s \<Longrightarrow> boundary_step d i s = s" for s i
    by (cases i) (auto simp: boundary_step_def terminal_def)
qed

lemma boundary_step_Started:
  "boundary_step d b s = Started \<longleftrightarrow>
     (s = Defined \<and> d_start_time d \<le> fst (snd b)) \<or>
     (s = Started \<and> snd (snd b) < d_threshold d \<and> fst (snd b) < d_timeout d)"
  by (cases s; cases b) (auto simp: boundary_step_def not_le)

lemma boundary_step_LockedIn:
  "boundary_step d b s = LockedIn \<longleftrightarrow>
     (s = Started \<and> d_threshold d \<le> snd (snd b)) \<or>
     (s = LockedIn \<and> fst b < d_min_activation_height d)"
  by (cases s; cases b) (auto simp: boundary_step_def not_le)

lemma boundary_step_Active:
  "boundary_step d b s = Active \<longleftrightarrow>
     (s = LockedIn \<and> d_min_activation_height d \<le> fst b) \<or> s = Active"
  by (cases s; cases b) (auto simp: boundary_step_def)

lemma run_Started:
  "fold (boundary_step d) bs Defined = Started \<Longrightarrow>
     \<exists>i<length bs. d_start_time d \<le> fst (snd (bs ! i))"
proof (induction bs rule: rev_induct)
  case (snoc b bs)
  then consider "d_start_time d \<le> fst (snd b)" | "fold (boundary_step d) bs Defined = Started"
    by (auto simp: boundary_step_Started)
  then show ?case
  proof cases
    case 1
    then show ?thesis by (intro exI [of _ "length bs"]) (simp add: nth_append)
  next
    case 2
    with snoc.IH obtain i where "i < length bs" "d_start_time d \<le> fst (snd (bs ! i))" by blast
    then show ?thesis by (intro exI [of _ i]) (simp add: nth_append)
  qed
qed simp

lemma run_LockedIn:
  "fold (boundary_step d) bs Defined = LockedIn \<Longrightarrow>
     \<exists>i j. i < j \<and> j < length bs \<and> d_start_time d \<le> fst (snd (bs ! i)) \<and>
           d_threshold d \<le> snd (snd (bs ! j))"
proof (induction bs rule: rev_induct)
  case (snoc b bs)
  then consider "fold (boundary_step d) bs Defined = Started" "d_threshold d \<le> snd (snd b)"
    | "fold (boundary_step d) bs Defined = LockedIn"
    by (auto simp: boundary_step_LockedIn)
  then show ?case
  proof cases
    case 1
    then obtain i where "i < length bs" "d_start_time d \<le> fst (snd (bs ! i))"
      using run_Started by blast
    with 1 show ?thesis
      by (intro exI [of _ i] exI [of _ "length bs"]) (simp add: nth_append)
  next
    case 2
    with snoc.IH obtain i j where "i < j" "j < length bs" "d_start_time d \<le> fst (snd (bs ! i))"
      "d_threshold d \<le> snd (snd (bs ! j))" by blast
    then show ?thesis by (intro exI [of _ i] exI [of _ j]) (simp add: nth_append)
  qed
qed simp

lemma run_Active:
  "fold (boundary_step d) bs Defined = Active \<Longrightarrow>
     \<exists>i j k. i < j \<and> j < k \<and> k < length bs \<and> d_start_time d \<le> fst (snd (bs ! i)) \<and>
             d_threshold d \<le> snd (snd (bs ! j)) \<and> d_min_activation_height d \<le> fst (bs ! k)"
proof (induction bs rule: rev_induct)
  case (snoc b bs)
  then consider "fold (boundary_step d) bs Defined = LockedIn" "d_min_activation_height d \<le> fst b"
    | "fold (boundary_step d) bs Defined = Active"
    by (auto simp: boundary_step_Active)
  then show ?case
  proof cases
    case 1
    then obtain i j where "i < j" "j < length bs" "d_start_time d \<le> fst (snd (bs ! i))"
      "d_threshold d \<le> snd (snd (bs ! j))" using run_LockedIn by blast
    with 1 show ?thesis
      by (intro exI [of _ i] exI [of _ j] exI [of _ "length bs"]) (simp add: nth_append)
  next
    case 2
    with snoc.IH obtain i j k where "i < j" "j < k" "k < length bs"
      "d_start_time d \<le> fst (snd (bs ! i))" "d_threshold d \<le> snd (snd (bs ! j))"
      "d_min_activation_height d \<le> fst (bs ! k)" by blast
    then show ?thesis
      by (intro exI [of _ i] exI [of _ j] exI [of _ k]) (simp add: nth_append)
  qed
qed simp

section \<open>The tracker runs one machine per deployment\<close>

lemma update_loop:
  assumes "k + length ds \<le> length ss"
  shows "fold (\<lambda>(i, d) ss.
           let signal_count = c i; new_state = next_state (ss ! i) d h m signal_count
           in if new_state \<noteq> ss ! i then ss[i := new_state] else ss) (enumerate k ds) ss
         = take k ss @ map (\<lambda>i. next_state (ss ! (k + i)) (ds ! i) h m (c (k + i))) [0..<length ds]
           @ drop (k + length ds) ss" (is "fold ?f _ _ = _")
  using assms
proof (induction ds arbitrary: k ss)
  case (Cons d ds)
  let ?ss = "ss[k := next_state (ss ! k) d h m (c k)]"
  have "?f (k, d) ss = ?ss" by (simp add: Let_def)
  then have "fold ?f (enumerate k (d # ds)) ss = fold ?f (enumerate (Suc k) ds) ?ss"
    by (simp only: enumerate_simps fold_simps)
  also have "\<dots> = take (Suc k) ?ss
      @ map (\<lambda>i. next_state (?ss ! (Suc k + i)) (ds ! i) h m (c (Suc k + i))) [0..<length ds]
      @ drop (Suc k + length ds) ?ss"
    using Cons.prems by (intro Cons.IH) simp
  also have "take (Suc k) ?ss = take k ss @ [next_state (ss ! k) d h m (c k)]"
    using Cons.prems by (simp add: take_Suc_conv_app_nth)
  also have "map (\<lambda>i. next_state (?ss ! (Suc k + i)) (ds ! i) h m (c (Suc k + i))) [0..<length ds]
      = map (\<lambda>i. next_state (ss ! (Suc k + i)) (ds ! i) h m (c (Suc k + i))) [0..<length ds]"
    by (simp add: nth_list_update)
  finally show ?case
    by (simp add: upt_conv_Cons map_Suc_upt [symmetric] del: upt_Suc)
qed simp

lemma update_states_nth:
  assumes "length (states t) = length (deployments t)" and "i < length (deployments t)"
    and "height mod RETARGET_PERIOD = 0"
  shows "states (update_states t height mtp counts) ! i =
           boundary_step (deployments t ! i)
             (height, mtp, if i < length counts then counts ! i else 0) (states t ! i)"
  using assms update_loop [of 0 "deployments t" "states t"
      "\<lambda>i. if i < length counts then counts ! i else 0" height mtp]
  by (simp add: update_states_def boundary_step_def)

lemma update_states_frame:
  assumes "length (states t) = length (deployments t)"
  shows "deployments (update_states t height mtp counts) = deployments t"
    and "length (states (update_states t height mtp counts)) = length (deployments t)"
  using assms update_loop [of 0 "deployments t" "states t"
      "\<lambda>i. if i < length counts then counts ! i else 0" height mtp]
  by (auto simp: update_states_def)

text \<open>The calls of a run, reduced to the boundaries that one deployment sees.\<close>

definition boundaries :: "nat \<Rightarrow> (u32 \<times> u64 \<times> u32 list) list \<Rightarrow> (u32 \<times> u64 \<times> u32) list" where
  "boundaries i calls = map (\<lambda>(h, m, cs). (h, m, if i < length cs then cs ! i else 0))
     (filter (\<lambda>(h, m, cs). h mod RETARGET_PERIOD = 0) calls)"

definition run_tracker :: "version_bits_tracker \<Rightarrow> (u32 \<times> u64 \<times> u32 list) list \<Rightarrow> version_bits_tracker" where
  "run_tracker t calls = fold (\<lambda>(h, m, cs) t. update_states t h m cs) calls t"

lemma run_tracker_frame:
  assumes "length (states t) = length (deployments t)"
  shows "deployments (run_tracker t calls) = deployments t
       \<and> length (states (run_tracker t calls)) = length (deployments t)"
proof (induction calls rule: rev_induct)
  case (snoc c calls)
  then show ?case
    using update_states_frame [of "run_tracker t calls"] by (cases c) (simp add: run_tracker_def)
qed (simp add: run_tracker_def assms)

lemma run_tracker_nth:
  assumes "length (states t) = length (deployments t)" and "i < length (deployments t)"
  shows "states (run_tracker t calls) ! i =
           fold (boundary_step (deployments t ! i)) (boundaries i calls) (states t ! i)"
proof (induction calls rule: rev_induct)
  case (snoc c calls)
  obtain h m cs where c: "c = (h, m, cs)" by (cases c)
  have step: "run_tracker t (calls @ [c]) = update_states (run_tracker t calls) h m cs"
    by (simp add: run_tracker_def c)
  show ?case
  proof (cases "h mod RETARGET_PERIOD = 0")
    case True
    with snoc assms show ?thesis
      unfolding step using run_tracker_frame [OF assms(1), of calls]
      by (simp add: update_states_nth boundaries_def c)
  next
    case False
    with snoc show ?thesis unfolding step by (simp add: update_states_def boundaries_def c)
  qed
qed (simp add: run_tracker_def boundaries_def)

section \<open>Properties\<close>

text \<open>
  C28: a deployment that a fresh tracker reports \<^verbatim>\<open>Active\<close> went through the whole of BIP 9: at one
  retarget boundary the median time had reached its start, at a later one its signal count had
  reached the threshold, and at a still later one the height had reached the minimum.
\<close>
theorem tracker_active_justified:
  assumes "i < length ds" and "states (run_tracker (tracker_new ds) calls) ! i = Active"
  shows "\<exists>a b c. a < b \<and> b < c \<and> c < length (boundaries i calls) \<and>
           d_start_time (ds ! i) \<le> fst (snd (boundaries i calls ! a)) \<and>
           d_threshold (ds ! i) \<le> snd (snd (boundaries i calls ! b)) \<and>
           d_min_activation_height (ds ! i) \<le> fst (boundaries i calls ! c)"
  using assms run_tracker_nth [of "tracker_new ds" i calls]
  by (intro run_Active) (simp add: tracker_new_def)

theorem tracker_active_justified_witness:
  "let ds = deployments tracker_mainnet;
       calls = [(2016, 1700000000, [0, 0, 0]), (4032, 1700000000, [2000, 0, 0]), (6048, 1700000000, [])]
   in states (run_tracker (tracker_new ds) calls) ! 0 = Active \<and>
      (\<exists>a b c. a < b \<and> b < c \<and> c < length (boundaries 0 calls) \<and>
         d_start_time (ds ! 0) \<le> fst (snd (boundaries 0 calls ! a)) \<and>
         d_threshold (ds ! 0) \<le> snd (snd (boundaries 0 calls ! b)) \<and>
         d_min_activation_height (ds ! 0) \<le> fst (boundaries 0 calls ! c))"
proof -
  let ?ds = "deployments tracker_mainnet"
  let ?calls = "[(2016, 1700000000, [0, 0, 0]), (4032, 1700000000, [2000, 0, 0]), (6048, 1700000000, [])]"
  have l: "0 < length ?ds" by (simp add: tracker_mainnet_def tracker_new_def)
  have a: "states (run_tracker (tracker_new ?ds) ?calls) ! 0 = Active" by code_simp
  from a tracker_active_justified [OF l a] show ?thesis unfolding Let_def by blast
qed

text \<open>
  a tracker never moves a deployment backward and never leaves \<^verbatim>\<open>Active\<close> or \<^verbatim>\<open>Failed\<close>, however
  its calls continue.
\<close>
theorem tracker_monotone:
  assumes "i < length ds"
  defines "s \<equiv> \<lambda>cs. states (run_tracker (tracker_new ds) cs) ! i"
  shows "deployment_rank (s calls) \<le> deployment_rank (s (calls @ later))
       \<and> (terminal (s calls) \<longrightarrow> s (calls @ later) = s calls)"
proof -
  have split: "boundaries i (calls @ later) = boundaries i calls @ boundaries i later"
    by (simp add: boundaries_def)
  have nth: "s cs = fold (boundary_step (ds ! i)) (boundaries i cs) Defined" for cs
    using run_tracker_nth [of "tracker_new ds" i cs] assms(1) by (simp add: s_def tracker_new_def)
  show ?thesis unfolding nth split using bip9.run_split_rank bip9.run_final by auto
qed

theorem tracker_monotone_witness:
  "let ds = deployments tracker_mainnet;
       s = (\<lambda>cs. states (run_tracker (tracker_new ds) cs) ! 1);
       calls = [(2016, 1700000000, [])]; later = [(4032, 1700000001, [])]
   in deployment_rank (s calls) \<le> deployment_rank (s (calls @ later))
      \<and> (terminal (s calls) \<longrightarrow> s (calls @ later) = s calls)"
  unfolding Let_def
  by (rule tracker_monotone) (simp add: tracker_mainnet_def tracker_new_def)

end
