(* ===== verification/Consensus_Params.thy ===== *)
theory Consensus_Params
  imports Bitcoin_Types
begin

text \<open>
  Consensus parameters of the five networks, \<^verbatim>\<open>bitcoinpr-core/src/consensus.rs\<close>, with the BIP-110
  deployment record of \<^verbatim>\<open>bip110.rs\<close> that they hold. The genesis blocks come from the \<^verbatim>\<open>bitcoin\<close>
  crate and are a parameter. Hex literals are HOL numerals laid out by \<open>to_be\<close> and \<open>to_le\<close>
  (a displayed block hash is byte-reversed).
\<close>

section \<open>The code\<close>

datatype network = Bitcoin | Testnet | Testnet4 | Signet | Regtest

record bip110_deployment =
  dep_period :: u32
  dep_bit :: u8
  dep_start_time :: u64
  dep_threshold :: u32
  lock_in_floor_height :: u32
  mandatory_window :: "u32 \<times> u32"
  active_duration :: u32

definition bip110_deployment_mainnet :: bip110_deployment where
  "bip110_deployment_mainnet =
     \<lparr>dep_period = 2016, dep_bit = 4, dep_start_time = 1764547200, dep_threshold = 1109,
      lock_in_floor_height = 963648, mandatory_window = (961632, 963647), active_duration = 52416\<rparr>"

record consensus_params =
  cp_network :: network
  magic :: bytes
  default_port :: u16
  genesis_block :: block
  dns_seeds :: "string list"
  pow_limit :: bytes
  pow_target_timespan :: u64
  pow_target_spacing :: u64
  subsidy_halving_interval :: u32
  bip16_time :: u32
  bip34_height :: u32
  bip65_height :: u32
  csv_height :: u32
  bip66_height :: u32
  segwit_height :: u32
  taproot_height :: u32
  assume_valid :: "bytes option"
  min_chain_work :: bytes
  pow_no_retargeting :: bool
  pow_allow_min_difficulty_blocks :: bool
  coinbase_maturity :: u32
  max_block_weight :: u32
  max_datacarrier_size :: nat
  datacarrier :: bool
  permit_bare_multisig :: bool
  reject_parasites :: bool
  reject_tokens :: bool
  bip110_activation_height :: "u32 option"
  cp_bip110_deployment :: "bip110_deployment option"
  signet_challenge :: "bytes option"

definition chain_work_from_hex :: "nat \<Rightarrow> bytes" where
  "chain_work_from_hex hex = to_be 32 hex"

definition pow_limit_mainnet :: bytes where
  "pow_limit_mainnet = (replicate 32 0)[4 := 0xff, 5 := 0xff]"

definition pow_limit_testnet :: bytes where
  "pow_limit_testnet = pow_limit_mainnet"

definition pow_limit_signet :: bytes where
  "pow_limit_signet = (replicate 32 0)[0 := 0, 1 := 0, 2 := 3, 3 := 0x77, 4 := 0xae]"

definition pow_limit_regtest :: bytes where
  "pow_limit_regtest = (replicate 32 0xff)[0 := 0x7f]"

definition mainnet :: "(network \<Rightarrow> block) \<Rightarrow> consensus_params" where
  "mainnet genesis =
     \<lparr>cp_network = Bitcoin,
      magic = [0xf9, 0xbe, 0xb4, 0xd9],
      default_port = 8333,
      genesis_block = genesis Bitcoin,
      dns_seeds = [''seed.bitcoin.sipa.be'',
        ''dnsseed.bluematt.me'',
        ''dnsseed.bitcoin.dashjr.org'',
        ''seed.bitcoinstats.com'',
        ''seed.bitcoin.jonasschnelli.ch'',
        ''seed.btc.petertodd.net'',
        ''seed.bitcoin.sprovoost.nl'',
        ''dnsseed.emzy.de'',
        ''seed.bitcoin.wiz.biz''],
      pow_limit = pow_limit_mainnet,
      pow_target_timespan = 14 * 24 * 60 * 60,
      pow_target_spacing = 10 * 60,
      subsidy_halving_interval = 210000,
      bip16_time = 1333238400,
      bip34_height = 227931,
      bip65_height = 388381,
      csv_height = 419328,
      bip66_height = 363725,
      segwit_height = 481824,
      taproot_height = 709632,
      assume_valid = Some (to_le 32 0x0000000000000000000320283a032748cef8227873ff4872689bf23f1cda83a5),
      min_chain_work = chain_work_from_hex 0x1128750f82f4c366153a3a030,
      pow_no_retargeting = False,
      pow_allow_min_difficulty_blocks = False,
      coinbase_maturity = 100,
      max_block_weight = 4000000,
      max_datacarrier_size = 83,
      datacarrier = True,
      permit_bare_multisig = False,
      reject_parasites = True,
      reject_tokens = True,
      bip110_activation_height = None,
      cp_bip110_deployment = Some bip110_deployment_mainnet,
      signet_challenge = None\<rparr>"

definition testnet :: "(network \<Rightarrow> block) \<Rightarrow> consensus_params" where
  "testnet genesis =
     \<lparr>cp_network = Testnet,
      magic = [0x0b, 0x11, 0x09, 0x07],
      default_port = 18333,
      genesis_block = genesis Testnet,
      dns_seeds = [''testnet-seed.bitcoin.jonasschnelli.ch'',
        ''seed.tbtc.petertodd.net'',
        ''seed.testnet.bitcoin.sprovoost.nl'',
        ''testnet-seed.bluematt.me''],
      pow_limit = pow_limit_testnet,
      pow_target_timespan = 14 * 24 * 60 * 60,
      pow_target_spacing = 10 * 60,
      subsidy_halving_interval = 210000,
      bip16_time = 1333238400,
      bip34_height = 21111,
      bip65_height = 581885,
      csv_height = 770112,
      bip66_height = 330776,
      segwit_height = 834624,
      taproot_height = 2011000,
      assume_valid = None,
      min_chain_work = chain_work_from_hex 0x17dde1c649f3708d14b6,
      pow_no_retargeting = False,
      pow_allow_min_difficulty_blocks = True,
      coinbase_maturity = 100,
      max_block_weight = 4000000,
      max_datacarrier_size = 83,
      datacarrier = True,
      permit_bare_multisig = False,
      reject_parasites = True,
      reject_tokens = True,
      bip110_activation_height = None,
      cp_bip110_deployment = None,
      signet_challenge = None\<rparr>"

definition testnet4 :: "(network \<Rightarrow> block) \<Rightarrow> consensus_params" where
  "testnet4 genesis =
     \<lparr>cp_network = Testnet4,
      magic = [0x1c, 0x16, 0x3f, 0x28],
      default_port = 48333,
      genesis_block = genesis Testnet4,
      dns_seeds = [''seed.testnet4.bitcoin.sprovoost.nl'',
        ''seed.testnet4.wiz.biz''],
      pow_limit = pow_limit_testnet,
      pow_target_timespan = 14 * 24 * 60 * 60,
      pow_target_spacing = 10 * 60,
      subsidy_halving_interval = 210000,
      bip16_time = 1333238400,
      bip34_height = 1,
      bip65_height = 1,
      csv_height = 1,
      bip66_height = 1,
      segwit_height = 1,
      taproot_height = 1,
      assume_valid = None,
      min_chain_work = chain_work_from_hex 0x9a0fe15d0177d086304,
      pow_no_retargeting = False,
      pow_allow_min_difficulty_blocks = True,
      coinbase_maturity = 100,
      max_block_weight = 4000000,
      max_datacarrier_size = 83,
      datacarrier = True,
      permit_bare_multisig = False,
      reject_parasites = True,
      reject_tokens = True,
      bip110_activation_height = None,
      cp_bip110_deployment = None,
      signet_challenge = None\<rparr>"

definition regtest :: "(network \<Rightarrow> block) \<Rightarrow> consensus_params" where
  "regtest genesis =
     \<lparr>cp_network = Regtest,
      magic = [0xfa, 0xbf, 0xb5, 0xda],
      default_port = 18444,
      genesis_block = genesis Regtest,
      dns_seeds = [],
      pow_limit = pow_limit_regtest,
      pow_target_timespan = 14 * 24 * 60 * 60,
      pow_target_spacing = 10 * 60,
      subsidy_halving_interval = 150,
      bip16_time = 0,
      bip34_height = 1,
      bip65_height = 1,
      csv_height = 1,
      bip66_height = 1,
      segwit_height = 0,
      taproot_height = 0,
      assume_valid = None,
      min_chain_work = replicate 32 0,
      pow_no_retargeting = True,
      pow_allow_min_difficulty_blocks = True,
      coinbase_maturity = 100,
      max_block_weight = 4000000,
      max_datacarrier_size = 83,
      datacarrier = True,
      permit_bare_multisig = False,
      reject_parasites = True,
      reject_tokens = True,
      bip110_activation_height = None,
      cp_bip110_deployment = None,
      signet_challenge = None\<rparr>"

definition signet :: "(network \<Rightarrow> block) \<Rightarrow> consensus_params" where
  "signet genesis =
     \<lparr>cp_network = Signet,
      magic = [0x0a, 0x03, 0xcf, 0x40],
      default_port = 38333,
      genesis_block = genesis Signet,
      dns_seeds = [''seed.signet.bitcoin.sprovoost.nl'',
        ''seed.signet.achow101.com''],
      pow_limit = pow_limit_signet,
      pow_target_timespan = 14 * 24 * 60 * 60,
      pow_target_spacing = 10 * 60,
      subsidy_halving_interval = 210000,
      bip16_time = 0,
      bip34_height = 1,
      bip65_height = 1,
      csv_height = 1,
      bip66_height = 1,
      segwit_height = 1,
      taproot_height = 1,
      assume_valid = None,
      min_chain_work = replicate 32 0,
      pow_no_retargeting = False,
      pow_allow_min_difficulty_blocks = True,
      coinbase_maturity = 100,
      max_block_weight = 4000000,
      max_datacarrier_size = 83,
      datacarrier = True,
      permit_bare_multisig = False,
      reject_parasites = True,
      reject_tokens = True,
      bip110_activation_height = None,
      cp_bip110_deployment = None,
      signet_challenge = Some (to_be 71
        0x512103ad5e0edad18cb1f0fc0d28a3d4f1f3e445640337489abb10404f2d1e086be430210359ef5021964fe22d6f8e05b2463c9540ce96883fe3b278760f048f5189f2e6c452ae)\<rparr>"

definition for_network :: "(network \<Rightarrow> block) \<Rightarrow> network \<Rightarrow> consensus_params" where
  "for_network genesis n =
     (case n of Bitcoin \<Rightarrow> mainnet genesis | Testnet \<Rightarrow> testnet genesis
      | Testnet4 \<Rightarrow> testnet4 genesis | Regtest \<Rightarrow> regtest genesis | Signet \<Rightarrow> signet genesis)"

definition deployment_active :: "consensus_params \<Rightarrow> string \<Rightarrow> u32 \<Rightarrow> bool" where
  "deployment_active p name height =
     (if name = ''bip34'' then bip34_height p \<le> height
      else if name = ''bip66'' then bip66_height p \<le> height
      else if name = ''bip65'' \<or> name = ''cltv'' then bip65_height p \<le> height
      else if name = ''csv'' then csv_height p \<le> height
      else if name = ''segwit'' then segwit_height p \<le> height
      else if name = ''taproot'' then taproot_height p \<le> height
      else False)"

text \<open>The divisors of the two functions below are non-zero constants of every network.\<close>

definition difficulty_adjustment_interval :: "consensus_params \<Rightarrow> u32" where
  "difficulty_adjustment_interval p = ucast (pow_target_timespan p div pow_target_spacing p)"

definition block_subsidy :: "consensus_params \<Rightarrow> u32 \<Rightarrow> u64" where
  "block_subsidy p height =
     (let halvings = height div subsidy_halving_interval p
      in if 64 \<le> halvings then 0 else drop_bit (unat halvings) 5000000000)"

section \<open>The subsidy\<close>

lemma unat_block_subsidy:
  "unat (block_subsidy p height) =
     5000000000 div 2 ^ (unat height div unat (subsidy_halving_interval p))"
proof (cases "64 \<le> height div subsidy_halving_interval p")
  case True
  then have k: "64 \<le> unat height div unat (subsidy_halving_interval p)"
    by (simp add: word_le_nat_alt unat_div)
  then have "(2::nat) ^ 64 \<le> 2 ^ (unat height div unat (subsidy_halving_interval p))"
    by (intro power_increasing) auto
  then have "5000000000 div 2 ^ (unat height div unat (subsidy_halving_interval p)) = (0::nat)"
    by (intro div_less) simp
  with True show ?thesis by (simp add: block_subsidy_def)
next
  case False
  then show ?thesis
    by (simp add: block_subsidy_def Let_def unsigned_drop_bit_eq
        drop_bit_eq_div [where 'a = nat] unat_div)
qed

text \<open>The coins created up to a height.\<close>

definition total_subsidy :: "consensus_params \<Rightarrow> nat \<Rightarrow> nat" where
  "total_subsidy p n = (\<Sum>h<n. unat (block_subsidy p (of_nat h)))"

lemma sum_div_blocks:
  fixes f :: "nat \<Rightarrow> nat"
  shows "(\<Sum>h<k * I. f (h div I)) = I * (\<Sum>i<k. f i)"
proof (induction k)
  case (Suc k)
  have "(\<Sum>h<Suc k * I. f (h div I)) = (\<Sum>h<k * I. f (h div I)) + (\<Sum>h=k*I..<k*I+I. f (h div I))"
    by (simp add: lessThan_atLeast0 sum.atLeastLessThan_concat add.commute)
  also have "(\<Sum>h=k*I..<k*I+I. f (h div I)) = (\<Sum>h=k*I..<k*I+I. f k)"
  proof (rule sum.cong)
    fix h assume "h \<in> {k * I..<k * I + I}"
    then have "h div I = k" by (intro div_nat_eqI) (auto simp: mult.commute)
    then show "f (h div I) = f k" by simp
  qed simp
  finally show ?case using Suc by (simp add: algebra_simps)
qed simp

lemma halvings_sum: "(\<Sum>i<64. 5000000000 div 2 ^ i) = (9999999989 :: nat)"
  by (simp add: lessThan_nat_numeral)

lemma total_subsidy_bound:
  assumes I: "0 < unat (subsidy_halving_interval p)" and n: "n \<le> 2 ^ 32"
  shows "total_subsidy p n \<le> unat (subsidy_halving_interval p) * 9999999989"
proof -
  let ?I = "unat (subsidy_halving_interval p)" and ?f = "\<lambda>i. 5000000000 div 2 ^ i :: nat"
  have "total_subsidy p n = (\<Sum>h<n. ?f (h div ?I))"
    unfolding total_subsidy_def using n
    by (intro sum.cong) (auto simp: unat_block_subsidy unsigned_of_nat take_bit_nat_eq_self)
  also have "\<dots> \<le> (\<Sum>h<(64 + n) * ?I. ?f (h div ?I))"
  proof (intro sum_mono2)
    have "n \<le> n * ?I" using I by (cases ?I) auto
    then have "n \<le> (64 + n) * ?I" unfolding add_mult_distrib by linarith
    then show "{..<n} \<subseteq> {..<(64 + n) * ?I}" by auto
  qed auto
  also have "\<dots> = ?I * (\<Sum>i<64 + n. ?f i)" by (rule sum_div_blocks)
  also have "(\<Sum>i<64 + n. ?f i) = (\<Sum>i<64. ?f i)"
  proof (rule sum.mono_neutral_right)
    show "\<forall>i\<in>{..<64 + n} - {..<64}. ?f i = 0"
    proof
      fix i assume "i \<in> {..<64 + n} - {..<(64::nat)}"
      then have "(2::nat) ^ 64 \<le> 2 ^ i" by (intro power_increasing) auto
      then show "?f i = 0" by (intro div_less) simp
    qed
  qed auto
  finally show ?thesis by (simp only: halvings_sum)
qed

section \<open>Properties\<close>

text \<open>
  C27: on every network the subsidies of all blocks that a 32-bit height can number sum to at most
  the halving interval times 9,999,999,989 satoshis; on the networks with the 210,000-block
  interval that is 2,099,999,997,690,000, below the 21 million coins of \<^verbatim>\<open>MAX_MONEY\<close>.
\<close>
theorem issuance_bounded:
  assumes "n \<le> 2 ^ 32"
  shows "total_subsidy (for_network genesis net) n
           \<le> unat (subsidy_halving_interval (for_network genesis net)) * 9999999989
       \<and> total_subsidy (for_network genesis net) n \<le> 2099999997690000"
proof -
  have I: "unat (subsidy_halving_interval (for_network genesis net)) \<in> {210000, 150}"
    by (cases net) (simp_all add: for_network_def mainnet_def testnet_def testnet4_def
        regtest_def signet_def)
  then have "total_subsidy (for_network genesis net) n
      \<le> unat (subsidy_halving_interval (for_network genesis net)) * 9999999989"
    using assms by (intro total_subsidy_bound) auto
  with I show ?thesis by auto
qed

theorem issuance_bounded_witness:
  "total_subsidy (mainnet (\<lambda>_. undefined)) 4294967296 \<le> 2099999997690000"
  using issuance_bounded [of 4294967296 "\<lambda>_. undefined" Bitcoin]
  by (simp add: for_network_def)

text \<open>
  the subsidy of a block is 50 coins halved once per completed interval, exactly as integer
  division, at every 32-bit height; the shift by 64 and more that Rust would not allow is cut off
  where the quotient is zero anyway.
\<close>
theorem block_subsidy_halving:
  "unat (block_subsidy (for_network genesis net) height) =
     5000000000 div 2 ^ (unat height div unat (subsidy_halving_interval (for_network genesis net)))"
  by (rule unat_block_subsidy)

end
