(* ===== verification/Chain_Work.thy ===== *)
theory Chain_Work
  imports Bitcoin_Types
begin

text \<open>
  256-bit big-endian arithmetic on byte arrays: block work and chain work of
  \<^verbatim>\<open>bitcoinpr-core/src/validation.rs\<close> and the copies of \<^verbatim>\<open>bitcoinpr-storage/src/header_index.rs\<close>. The
  source's loops run from the last byte to the first; here they recurse over the reversed array.
\<close>

unbundle bit_operations_syntax

section \<open>The code\<close>

definition u256_one :: bytes where
  "u256_one = (replicate 32 0)[31 := 1]"

fun add_one_loop :: "bytes \<Rightarrow> u16 \<Rightarrow> bytes \<times> u16" where
  "add_one_loop [] carry = ([], carry)"
| "add_one_loop (x # xs) carry =
     (let sum = ucast x + carry; carry' = drop_bit 8 sum
      in if carry' = 0 then (ucast sum # xs, carry')
         else (let (r, c) = add_one_loop xs carry' in (ucast sum # r, c)))"

definition u256_add_one :: "bytes \<Rightarrow> bytes \<times> bool" where
  "u256_add_one a = (let (r, carry) = add_one_loop (rev a) 1 in (rev r, carry \<noteq> 0))"

fun sub_loop :: "bytes \<Rightarrow> bytes \<Rightarrow> int \<Rightarrow> bytes \<times> int" where
  "sub_loop (x # xs) (y # ys) borrow =
     (let diff = uint x - uint y - borrow
      in if diff < 0
         then (let (r, b) = sub_loop xs ys 1 in (word_of_int (diff + 256) # r, b))
         else (let (r, b) = sub_loop xs ys 0 in (word_of_int diff # r, b)))"
| "sub_loop _ _ borrow = ([], borrow)"

definition u256_sub :: "bytes \<Rightarrow> bytes \<Rightarrow> bytes" where
  "u256_sub a b = rev (fst (sub_loop (rev a) (rev b) 0))"

definition u256_cmp :: "bytes \<Rightarrow> bytes \<Rightarrow> ordering" where
  "u256_cmp a b = bytes_cmp a b"

fun shl_loop :: "bytes \<Rightarrow> u8 \<Rightarrow> bytes" where
  "shl_loop [] carry = []"
| "shl_loop (x # xs) carry = (push_bit 1 x OR carry) # shl_loop xs (drop_bit 7 x)"

text \<open>One round of the long division, for numerator bit \<open>i\<close>.\<close>

definition div_step :: "bytes \<Rightarrow> bytes \<Rightarrow> nat \<Rightarrow> bytes \<times> bytes \<Rightarrow> bytes \<times> bytes" where
  "div_step num den i = (\<lambda>(quotient, rem).
     let shifted = rev (shl_loop (rev rem) 0);
         nbit = drop_bit (i mod 8) (num ! (31 - i div 8)) AND 1;
         rem' = shifted[31 := shifted ! 31 OR nbit]
     in if u256_cmp rem' den \<noteq> Less
        then (quotient[31 - i div 8 := quotient ! (31 - i div 8) OR push_bit (i mod 8) 1],
              u256_sub rem' den)
        else (quotient, rem'))"

definition u256_div :: "bytes \<Rightarrow> bytes \<Rightarrow> bytes" where
  "u256_div num den =
     (if den = replicate 32 0 then replicate 32 0xff
      else fst (fold (div_step num den) (rev [0..<256]) (replicate 32 0, replicate 32 0)))"

definition calculate_work :: "bytes \<Rightarrow> bytes" where
  "calculate_work t =
     (if t = replicate 32 0 then replicate 32 0xff
      else
        (let (t_plus_one, overflow) = u256_add_one t
         in if overflow then u256_one
            else
              (let not_t = map NOT t; quotient = u256_div not_t t_plus_one
               in fst (u256_add_one quotient))))"

fun add_loop :: "bytes \<Rightarrow> bytes \<Rightarrow> u16 \<Rightarrow> bytes" where
  "add_loop (x # xs) (y # ys) carry =
     (let sum = ucast x + ucast y + carry in ucast sum # add_loop xs ys (drop_bit 8 sum))"
| "add_loop _ _ carry = []"

definition add_chain_work :: "bytes \<Rightarrow> bytes \<Rightarrow> bytes" where
  "add_chain_work a b = rev (add_loop (rev a) (rev b) 0)"

text \<open>The header index has its own copy of the addition, a saturating subtraction and the
  comparison.\<close>

definition add_work :: "bytes \<Rightarrow> bytes \<Rightarrow> bytes" where
  "add_work a b = rev (add_loop (rev a) (rev b) 0)"

definition sub_work :: "bytes \<Rightarrow> bytes \<Rightarrow> bytes" where
  "sub_work a b =
     (let (r, borrow) = sub_loop (rev a) (rev b) 0
      in if borrow \<noteq> 0 then replicate 32 0 else rev r)"

definition cmp_work :: "bytes \<Rightarrow> bytes \<Rightarrow> ordering" where
  "cmp_work a b = bytes_cmp a b"

section \<open>Values of the loops\<close>

lemma be_val_le: "be_val xs = le_val (rev xs)"
  by (simp add: be_val_def)

lemma unat_ucast16: "unat (ucast (x :: u8) :: u16) = unat x"
  using unat_u8_lt [of x] by (simp add: unsigned_ucast_eq take_bit_nat_eq_self order_less_trans
      [OF unat_u8_lt])

lemma unat_ucast8: "unat (ucast (s :: u16) :: u8) = unat s mod 256"
  by (simp add: unsigned_ucast_eq take_bit_eq_mod)

lemma unat_drop8: "unat (drop_bit 8 (s :: u16)) = unat s div 256"
  using unsigned_less [of s, where ?'a = nat]
  by (simp add: unsigned_drop_bit_eq drop_bit_eq_div [where 'a = nat] take_bit_nat_eq_self)

lemma unat_sum16:
  assumes "unat (c :: u16) \<le> 1"
  shows "unat (ucast (x :: u8) + ucast (y :: u8) + c) = unat x + unat y + unat c"
proof -
  have "unat x + unat y + unat c < 65536"
    using unat_u8_lt [of x] unat_u8_lt [of y] assms by linarith
  then have "unat (of_nat (unat x + unat y + unat c) :: u16) = unat x + unat y + unat c"
    by (simp add: unsigned_of_nat take_bit_nat_eq_self del: of_nat_add)
  moreover have "(of_nat (unat x + unat y + unat c) :: u16) = ucast x + ucast y + c"
    by simp
  ultimately show ?thesis by simp
qed

lemma add_one_loop_value:
  assumes "unat c \<le> 1"
  shows "le_val (fst (add_one_loop xs c)) + 256 ^ length xs * unat (snd (add_one_loop xs c))
           = le_val xs + unat c
       \<and> length (fst (add_one_loop xs c)) = length xs \<and> unat (snd (add_one_loop xs c)) \<le> 1"
  using assms
proof (induction xs arbitrary: c)
  case (Cons x xs)
  define s where "s = ucast x + c"
  have s: "unat s = unat x + unat c"
    using unat_sum16 [OF Cons.prems, of x 0] by (simp add: s_def)
  have "unat x + unat c < 2 * 256" using unat_u8_lt [of x] Cons.prems by linarith
  then have "(unat x + unat c) div 256 < 2" by (rule less_mult_imp_div_less)
  then have d: "unat (drop_bit 8 s) = (unat x + unat c) div 256" "unat (drop_bit 8 s) \<le> 1"
    by (auto simp: unat_drop8 s)
  have m: "unat (ucast s :: u8) = (unat x + unat c) mod 256" by (simp add: unat_ucast8 s)
  have split: "(unat x + unat c) mod 256 + 256 * ((unat x + unat c) div 256) = unat x + unat c"
    by (simp add: mult.commute)
  show ?case
  proof (cases "drop_bit 8 s = 0")
    case True
    with d have "(unat x + unat c) div 256 = 0" by simp
    with True m split show ?thesis by (simp add: Let_def flip: s_def)
  next
    case False
    obtain r k where rk: "add_one_loop xs (drop_bit 8 s) = (r, k)" by fastforce
    then have "add_one_loop (x # xs) c = (ucast s # r, k)"
      using False by (simp add: Let_def flip: s_def)
    note step = this
    have IH: "le_val r + 256 ^ length xs * unat k = le_val xs + (unat x + unat c) div 256"
      "length r = length xs" "unat k \<le> 1"
      using Cons.IH [OF d(2)] rk d(1) by auto
    have "(unat x + unat c) mod 256 + 256 * (le_val r + 256 ^ length xs * unat k)
        = unat x + 256 * le_val xs + unat c"
      unfolding IH(1) using split by (simp add: distrib_left)
    with IH(2,3) m step show ?thesis
      by (simp add: distrib_left mult.assoc del: add_one_loop.simps)
  qed
qed simp

lemma add_loop_value:
  assumes "length xs = length ys" and "unat c \<le> 1"
  shows "le_val (add_loop xs ys c) = (le_val xs + le_val ys + unat c) mod 256 ^ length xs
       \<and> length (add_loop xs ys c) = length xs"
  using assms
proof (induction xs ys c rule: add_loop.induct)
  case (1 x xs y ys c)
  define s where "s = ucast x + ucast y + c"
  have s: "unat s = unat x + unat y + unat c" using 1(3) by (simp add: s_def unat_sum16)
  have "unat s < 2 * 256" using unat_u8_lt [of x] unat_u8_lt [of y] 1(3) s by linarith
  then have "unat s div 256 < 2" by (rule less_mult_imp_div_less)
  then have d: "unat (drop_bit 8 s) = unat s div 256" "unat (drop_bit 8 s) \<le> 1"
    by (auto simp: unat_drop8)
  have IH: "le_val (add_loop xs ys (drop_bit 8 s))
      = (le_val xs + le_val ys + unat s div 256) mod 256 ^ length xs"
    "length (add_loop xs ys (drop_bit 8 s)) = length xs"
    using 1(1) [of s] 1(2) d by (simp_all add: s_def)
  define v where "v = le_val xs + le_val ys + unat s div 256"
  have "(unat s mod 256 + 256 * v) div 256 = v" "(unat s mod 256 + 256 * v) mod 256 = unat s mod 256"
    by simp_all
  then have "(unat s mod 256 + 256 * v) mod (256 * 256 ^ length xs)
      = unat s mod 256 + 256 * (v mod 256 ^ length xs)"
    by (simp only: mod_mult2_eq add.commute)
  moreover have "le_val (x # xs) + le_val (y # ys) + unat c = unat s mod 256 + 256 * v"
    using s by (simp add: v_def algebra_simps)
  moreover have "le_val (add_loop (x # xs) (y # ys) c) = unat s mod 256 + 256 * (v mod 256 ^ length xs)"
    using IH(1) by (simp add: Let_def unat_ucast8 v_def flip: s_def)
  ultimately show ?case using IH(2) by (simp add: Let_def flip: s_def)
qed auto

lemma sub_loop_value:
  assumes "length xs = length ys" and "b = 0 \<or> b = 1"
  shows "int (le_val (fst (sub_loop xs ys b))) - 256 ^ length xs * snd (sub_loop xs ys b)
           = int (le_val xs) - int (le_val ys) - b
       \<and> length (fst (sub_loop xs ys b)) = length xs
       \<and> (snd (sub_loop xs ys b) = 0 \<or> snd (sub_loop xs ys b) = 1)"
  using assms
proof (induction xs ys b rule: sub_loop.induct)
  case (1 x xs y ys b)
  define d where "d = uint x - uint y - b"
  have "0 \<le> uint x" "uint x < 256" "0 \<le> uint y" "uint y < 256"
    using uint_lt2p [of x] uint_lt2p [of y] by simp_all
  then have r: "-256 \<le> d" "d < 256"
    using 1(4) unfolding d_def by (elim disjE; linarith)+
  define b' where "b' = (if d < 0 then 1 else 0 :: int)"
  define e where "e = d + 256 * b'"
  have e: "int (unat (word_of_int e :: u8)) = e"
  proof -
    have "0 \<le> e" "e < 256" using r by (auto simp: e_def b'_def)
    then show ?thesis by (simp add: uint_word_of_int)
  qed
  obtain q k where qk: "sub_loop xs ys b' = (q, k)" by fastforce
  then have step: "sub_loop (x # xs) (y # ys) b = (word_of_int e # q, k)"
    by (simp add: Let_def b'_def e_def d_def split: if_splits)
  have IH: "int (le_val q) - 256 ^ length xs * k = int (le_val xs) - int (le_val ys) - b'"
    "length q = length xs" "k = 0 \<or> k = 1"
    using 1(1) [OF d_def] 1(2) [OF d_def] 1(3) qk by (cases "d < 0"; simp add: b'_def)+
  have "e + 256 * (int (le_val q) - 256 ^ length xs * k)
      = uint x + 256 * int (le_val xs) - (uint y + 256 * int (le_val ys)) - b"
    unfolding IH(1) by (simp add: e_def d_def algebra_simps)
  with e IH(2,3) show ?case
    by (simp add: step right_diff_distrib mult.assoc del: sub_loop.simps)
qed auto

lemma small_carry: "unat (c :: 'a :: len word) \<le> 1 \<longleftrightarrow> c = 0 \<or> c = 1"
proof -
  have "unat c \<le> 1 \<longleftrightarrow> unat c = 0 \<or> unat c = 1" by linarith
  moreover have "unat c = 0 \<longleftrightarrow> c = 0" by (rule unat_eq_zero)
  moreover have "unat c = 1 \<longleftrightarrow> c = 1" by (metis unsigned_1 unsigned_word_eqI)
  ultimately show ?thesis by blast
qed

lemma double_mod:
  "(2 * a) mod 256 = 2 * (a mod 128)" "(2 * a + 1) mod 256 = 2 * (a mod 128) + (1 :: nat)"
proof -
  show "(2 * a) mod 256 = 2 * (a mod 128)" using mod_mult_mult1 [of 2 a 128] by simp
  show "(2 * a + 1) mod 256 = 2 * (a mod 128) + 1" using mod_mult2_eq [of "2 * a + 1" 2 128] by simp
qed

lemma unat_shl_or:
  assumes "unat (c :: u8) \<le> 1"
  shows "unat (push_bit 1 x OR c) = (2 * unat x) mod 256 + unat c"
proof -
  have e: "unat (x * 2) = (2 * unat x) mod 256"
    by (subst unat_word_ariths(2)) (simp add: mult.commute)
  have "unat (x * 2 + 1) = (2 * unat x + 1) mod 256"
    by (subst unat_word_ariths(1), subst unat_word_ariths(2)) (simp add: mod_simps mult.commute)
  also have "\<dots> = (2 * unat x) mod 256 + 1" by (simp only: double_mod)
  finally have o: "unat (x * 2 + 1) = (2 * unat x) mod 256 + 1" .
  have "x * 2 OR 1 = x * 2 + 1" by (simp add: or_one_eq)
  moreover from assms have "c = 0 \<or> c = 1" by (simp only: small_carry)
  ultimately show ?thesis using e o by (elim disjE) (simp_all add: push_bit_eq_mult)
qed

lemma shl_loop_value:
  assumes "unat c \<le> 1"
  shows "le_val (shl_loop xs c) = (2 * le_val xs + unat c) mod 256 ^ length xs
       \<and> length (shl_loop xs c) = length xs"
  using assms
proof (induction xs arbitrary: c)
  case (Cons x xs)
  have hi: "unat (drop_bit 7 x) = unat x div 128"
    using unsigned_less [of x, where ?'a = nat]
    by (simp add: unsigned_drop_bit_eq drop_bit_eq_div [where 'a = nat] take_bit_nat_eq_self)
  have "unat x < 2 * 128" using unat_u8_lt [of x] by linarith
  then have "unat x div 128 < 2" by (rule less_mult_imp_div_less)
  with Cons.IH [of "drop_bit 7 x"] hi have IH:
    "le_val (shl_loop xs (drop_bit 7 x)) = (2 * le_val xs + unat x div 128) mod 256 ^ length xs"
    "length (shl_loop xs (drop_bit 7 x)) = length xs" by auto
  define v where "v = 2 * le_val xs + unat x div 128"
  define w where "w = (2 * unat x) mod 256 + unat c"
  have "unat x mod 128 < 128" by simp
  then have w: "w < 256" using Cons.prems unfolding w_def double_mod by linarith
  then have "(w + 256 * v) div 256 = v" "(w + 256 * v) mod 256 = w" by simp_all
  then have "(w + 256 * v) mod (256 * 256 ^ length xs) = w + 256 * (v mod 256 ^ length xs)"
    by (simp only: mod_mult2_eq add.commute)
  moreover have "(2 * unat x) mod 256 + 256 * (unat x div 128) = 2 * unat x"
    using mod_mult_div_eq [of "unat x" 128] unfolding double_mod by linarith
  then have "2 * le_val (x # xs) + unat c = w + 256 * v"
    unfolding w_def v_def le_val.simps by (simp add: algebra_simps)
  moreover have "le_val (shl_loop (x # xs) c) = w + 256 * (v mod 256 ^ length xs)"
    using IH(1) unat_shl_or [OF Cons.prems, of x] by (simp add: w_def v_def)
  ultimately show ?case using IH(2) by simp
qed simp

section \<open>Bits of a byte string\<close>

lemma le_val_nth: "i < length xs \<Longrightarrow> le_val xs div 256 ^ i mod 256 = unat (xs ! i)"
proof (induction xs arbitrary: i)
  case (Cons x xs)
  show ?case
  proof (cases i)
    case 0
    then show ?thesis using unat_u8_lt [of x] by (simp add: mod_less)
  next
    case (Suc j)
    have "le_val (x # xs) div 256 ^ Suc j = le_val (x # xs) div 256 div 256 ^ j"
      by (simp only: power_Suc div_mult2_eq)
    also have "le_val (x # xs) div 256 = le_val xs"
      using unat_u8_lt [of x] by simp
    finally show ?thesis using Cons Suc by simp
  qed
qed simp

lemma bit_le_val:
  assumes "i < length xs" and "j < 8"
  shows "bit (le_val xs) (8 * i + j) = bit (unat (xs ! i)) j"
proof -
  have "unat (xs ! i) = take_bit 8 (drop_bit (8 * i) (le_val xs))"
    using le_val_nth [OF assms(1)]
    by (simp add: take_bit_eq_mod drop_bit_eq_div power_mult)
  with assms(2) show ?thesis by (simp add: bit_take_bit_iff bit_drop_bit_eq)
qed

lemma le_val_update:
  "i < length xs \<Longrightarrow> le_val (xs[i := y]) + 256 ^ i * unat (xs ! i) = le_val xs + 256 ^ i * unat y"
proof (induction xs arbitrary: i)
  case (Cons x xs)
  show ?case
  proof (cases i)
    case (Suc j)
    have "256 * (le_val (xs[j := y]) + 256 ^ j * unat (xs ! j)) = 256 * (le_val xs + 256 ^ j * unat y)"
      using Cons Suc by simp
    then show ?thesis by (simp add: Suc distrib_left mult.assoc)
  qed simp
qed simp

lemma unat_set_bit:
  assumes "\<not> bit (unat x) j" and "j < 8"
  shows "unat ((x :: u8) OR push_bit j 1) = unat x + 2 ^ j"
proof -
  have "(2 :: nat) ^ j < 2 ^ 8" using assms(2) by (intro power_strict_increasing) auto
  then have p: "unat (push_bit j 1 :: u8) = 2 ^ j"
    by (simp only: unsigned_push_bit_eq) (use assms(2) in \<open>simp add: take_bit_nat_eq_self\<close>)
  have "unat (x OR push_bit j 1) = unat x OR 2 ^ j"
    by (simp only: unsigned_or_eq p)
  also have "\<dots> = unat x + 2 ^ j"
    using assms(1) by (intro disjunctive_add_eq_or [symmetric] bit_eqI) (auto simp: bit_simps)
  finally show ?thesis .
qed

lemma unat_low_bit: "unat (drop_bit j (x :: u8) AND 1) = of_bool (bit (unat x) j)"
proof -
  have "bit x j = bit (unat x) j" by (simp add: bit_unsigned_iff)
  then show ?thesis by (simp add: and_one_eq bit_iff_odd_drop_bit [symmetric] odd_iff_mod_2_eq_one
        mod2_eq_if bit_iff_odd_drop_bit)
qed

section \<open>The arithmetic is exact\<close>

lemma be_val_bound32: "length a = 32 \<Longrightarrow> be_val a < 2 ^ 256"
  using be_val_bound [of a] by simp

lemma pow256_32: "(256 :: nat) ^ 32 = 2 ^ 256" by simp

lemma u256_add_one_value:
  assumes "length a = 32"
  shows "be_val (fst (u256_add_one a)) + 2 ^ 256 * of_bool (snd (u256_add_one a)) = be_val a + 1
       \<and> length (fst (u256_add_one a)) = 32"
proof -
  obtain r k where rk: "add_one_loop (rev a) 1 = (r, k)" by fastforce
  have v: "le_val r + 256 ^ 32 * unat k = le_val (rev a) + 1" "length r = 32" "unat k \<le> 1"
    using add_one_loop_value [of 1 "rev a"] assms rk by auto
  have "unat k = of_bool (k \<noteq> 0)" using v(3) [unfolded small_carry] by auto
  with v rk show ?thesis by (simp add: u256_add_one_def be_val_le)
qed

lemma add_chain_work_value:
  assumes "length a = 32" and "length b = 32"
  shows "be_val (add_chain_work a b) = (be_val a + be_val b) mod 2 ^ 256
       \<and> length (add_chain_work a b) = 32"
  using add_loop_value [of "rev a" "rev b" 0] assms
  by (simp add: add_chain_work_def be_val_le)

lemma u256_sub_value:
  assumes "length a = 32" and "length b = 32" and "be_val b \<le> be_val a"
  shows "be_val (u256_sub a b) = be_val a - be_val b \<and> length (u256_sub a b) = 32"
proof -
  obtain r k where rk: "sub_loop (rev a) (rev b) 0 = (r, k)" by fastforce
  have v: "int (le_val r) - 256 ^ 32 * k = int (be_val a) - int (be_val b)" "length r = 32"
    "k = 0 \<or> k = 1"
    using sub_loop_value [of "rev a" "rev b" 0] assms rk by (auto simp: be_val_le)
  have "k = 0"
  proof (rule ccontr)
    assume "k \<noteq> 0"
    then have "int (le_val r) = int (be_val a) - int (be_val b) + 256 ^ 32" using v by simp
    moreover have "int (le_val r) < 256 ^ 32" using le_val_bound [of r] v(2) by simp
    ultimately show False using assms(3) by simp
  qed
  with v rk assms(3) show ?thesis by (simp add: u256_sub_def be_val_le)
qed

lemma sub_work_value:
  assumes "length a = 32" and "length b = 32"
  shows "be_val (sub_work a b) = be_val a - be_val b \<and> length (sub_work a b) = 32"
proof -
  obtain r k where rk: "sub_loop (rev a) (rev b) 0 = (r, k)" by fastforce
  have v: "int (le_val r) - 256 ^ 32 * k = int (be_val a) - int (be_val b)" "length r = 32"
    "k = 0 \<or> k = 1"
    using sub_loop_value [of "rev a" "rev b" 0] assms rk by (auto simp: be_val_le)
  show ?thesis
  proof (cases "k = 0")
    case True
    with v(1) have "be_val a - be_val b = le_val r" by simp
    with True v rk show ?thesis by (simp add: sub_work_def be_val_le)
  next
    case False
    moreover have "int (le_val r) < 256 ^ 32" using le_val_bound [of r] v(2) by simp
    ultimately have "be_val a < be_val b" using v by simp
    with False rk show ?thesis by (simp add: sub_work_def)
  qed
qed

lemma u256_cmp_value:
  assumes "length a = 32" and "length b = 32"
  shows "u256_cmp a b = nat_cmp (be_val a) (be_val b)"
  using assms by (simp add: u256_cmp_def bytes_cmp_numeric)

lemma last_byte_even:
  assumes "length xs = 32"
  shows "odd (unat (xs ! 31)) = odd (be_val xs)"
  using assms bit_le_val [of 0 "rev xs" 0] by (simp add: be_val_le rev_nth bit_0)

lemma set_rev_bit:
  assumes "length q = 32" and "i < 256" and "\<not> bit (be_val q) i"
  shows "be_val (q[31 - i div 8 := q ! (31 - i div 8) OR push_bit (i mod 8) 1]) = be_val q + 2 ^ i"
proof -
  let ?j = "i div 8" and ?x = "q ! (31 - i div 8)"
  have j: "?j < 32" using assms(2) by (simp add: less_mult_imp_div_less)
  have x: "rev q ! ?j = ?x" using j assms(1) by (simp add: rev_nth)
  have rev: "rev (q[31 - ?j := y]) = (rev q)[?j := y]" for y
    using j assms(1) by (simp add: rev_update)
  have i: "8 * ?j + i mod 8 = i" by simp
  have "\<not> bit (unat ?x) (i mod 8)"
    using bit_le_val [of ?j "rev q" "i mod 8"] j assms x i by (simp add: be_val_le)
  then have u: "unat (?x OR push_bit (i mod 8) 1) = unat ?x + 2 ^ (i mod 8)"
    by (intro unat_set_bit) simp_all
  have p: "(256 :: nat) ^ ?j * 2 ^ (i mod 8) = 2 ^ i"
  proof -
    have "(256 :: nat) ^ ?j = (2 ^ 8) ^ ?j" by simp
    then have "(256 :: nat) ^ ?j = 2 ^ (8 * ?j)" by (simp only: power_mult)
    then have "(256 :: nat) ^ ?j * 2 ^ (i mod 8) = 2 ^ (8 * ?j + i mod 8)" by (simp only: power_add)
    then show ?thesis by (simp only: i)
  qed
  have "le_val ((rev q)[?j := ?x OR push_bit (i mod 8) 1]) + 256 ^ ?j * unat ?x
      = le_val (rev q) + 256 ^ ?j * (unat ?x + 2 ^ (i mod 8))"
    using le_val_update [of ?j "rev q"] j assms(1) x u by simp
  then show ?thesis using p by (simp add: be_val_le rev distrib_left)
qed

lemma div_mod_unique: "a = d * q + r \<Longrightarrow> r < d \<Longrightarrow> a div d = q \<and> a mod d = (r :: nat)"
  by simp

definition div_inv :: "bytes \<Rightarrow> bytes \<Rightarrow> nat \<Rightarrow> bytes \<times> bytes \<Rightarrow> bool" where
  "div_inv num den k s \<longleftrightarrow>
     length (fst s) = 32 \<and> length (snd s) = 32 \<and>
     be_val (snd s) = (be_val num div 2 ^ k) mod be_val den \<and>
     be_val (fst s) = (be_val num div 2 ^ k) div be_val den * 2 ^ k"

lemma numerator_bit:
  assumes "length num = 32" and "k < 256"
  shows "unat (drop_bit (k mod 8) (num ! (31 - k div 8)) AND 1) = of_bool (bit (be_val num) k)"
proof -
  have j: "k div 8 < 32" using assms(2) by (simp add: less_mult_imp_div_less)
  then have "rev num ! (k div 8) = num ! (31 - k div 8)" using assms(1) by (simp add: rev_nth)
  then show ?thesis
    using bit_le_val [of "k div 8" "rev num" "k mod 8"] j assms(1)
    by (simp add: unat_low_bit be_val_le)
qed

lemma shifted_remainder:
  assumes "length rem = 32" and "2 * be_val rem + 1 < 2 ^ 256" and "unat b \<le> 1"
  defines "shifted \<equiv> rev (shl_loop (rev rem) 0)"
  shows "be_val (shifted[31 := shifted ! 31 OR b]) = 2 * be_val rem + unat b"
    and "length (shifted[31 := shifted ! 31 OR b]) = 32"
proof -
  have s: "be_val shifted = 2 * be_val rem" "length shifted = 32"
    using shl_loop_value [of 0 "rev rem"] assms by (simp_all add: shifted_def be_val_le)
  show "length (shifted[31 := shifted ! 31 OR b]) = 32" using s by simp
  from assms(3) consider "b = 0" | "b = 1" by (auto simp only: small_carry)
  then show "be_val (shifted[31 := shifted ! 31 OR b]) = 2 * be_val rem + unat b"
  proof cases
    case 2
    have "\<not> bit (be_val shifted) 0" using s by (simp add: bit_0)
    from set_rev_bit [OF s(2) _ this] s 2 show ?thesis by simp
  qed (use s in simp)
qed

lemma div_step_inv:
  assumes num: "length num = 32" and den: "length den = 32" "0 < be_val den" and k: "k < 256"
    and inv: "div_inv num den (Suc k) s"
  shows "div_inv num den k (div_step num den k s)"
proof -
  obtain q r where s: "s = (q, r)" by fastforce
  let ?D = "be_val den"
  define M where "M = be_val num div 2 ^ Suc k"
  define b where "b = drop_bit (k mod 8) (num ! (31 - k div 8)) AND 1"
  have q: "length q = 32" "be_val q = M div ?D * 2 ^ Suc k"
    and r: "length r = 32" "be_val r = M mod ?D"
    using inv by (auto simp: div_inv_def s M_def)
  have b: "unat b = of_bool (bit (be_val num) k)" unfolding b_def using num k by (rule numerator_bit)
  then have b1: "unat b \<le> 1" by simp
  have N: "be_val num div 2 ^ k = 2 * M + unat b"
  proof -
    have "be_val num div 2 ^ k div 2 = M"
      unfolding M_def by (simp add: div_mult2_eq [symmetric] mult.commute)
    then show ?thesis using b by (auto simp: bit_iff_odd odd_iff_mod_2_eq_one split: if_splits)
  qed
  have "M < 2 ^ 255"
  proof -
    have "M * 2 ^ Suc k \<le> be_val num" unfolding M_def by simp
    moreover have "M * 2 \<le> M * 2 ^ Suc k" by simp
    ultimately have "M * 2 \<le> be_val num" by (rule order_trans [rotated])
    with be_val_bound32 [OF num] show ?thesis by simp
  qed
  then have "be_val r < 2 ^ 255" unfolding r(2) by (rule le_less_trans [rotated]) simp
  then have small: "2 * be_val r + 1 < 2 ^ 256" by simp
  define shifted where "shifted = rev (shl_loop (rev r) 0)"
  define r' where "r' = shifted[31 := shifted ! 31 OR b]"
  have r': "be_val r' = 2 * be_val r + unat b" "length r' = 32"
    unfolding r'_def shifted_def using shifted_remainder [OF r(1) small b1] by simp_all
  have D: "2 * M + unat b = ?D * (2 * (M div ?D)) + be_val r'"
  proof -
    have "2 * M = 2 * (M mod ?D + ?D * (M div ?D))" by (simp only: mod_mult_div_eq)
    then show ?thesis unfolding r' r by (simp only: distrib_left mult.left_commute add_ac)
  qed
  have r2: "be_val r' < 2 * ?D"
    using mod_less_divisor [OF den(2), of M] b1 unfolding r'(1) r(2) by linarith
  have step: "div_step num den k s = (if u256_cmp r' den \<noteq> Less
      then (q[31 - k div 8 := q ! (31 - k div 8) OR push_bit (k mod 8) 1], u256_sub r' den)
      else (q, r'))"
    by (simp add: div_step_def s Let_def r'_def shifted_def b_def)
  show ?thesis
  proof (cases "be_val r' < ?D")
    case True
    then have "(2 * M + unat b) div ?D = 2 * (M div ?D)" "(2 * M + unat b) mod ?D = be_val r'"
      using den(2) unfolding D by simp_all
    with True q r' den show ?thesis
      unfolding step div_inv_def N by (simp add: u256_cmp_value)
  next
    case False
    have "\<not> bit (be_val q) k" unfolding q(2) by (simp add: bit_iff_odd)
    from set_rev_bit [OF q(1) k this] have
      q': "be_val (q[31 - k div 8 := q ! (31 - k div 8) OR push_bit (k mod 8) 1]) = be_val q + 2 ^ k" .
    have "2 * M + unat b = ?D * (2 * (M div ?D) + 1) + (be_val r' - ?D)"
      using D False by (simp add: distrib_left)
    moreover have "be_val r' - ?D < ?D" using r2 False by simp
    ultimately have dm: "(2 * M + unat b) div ?D = 2 * (M div ?D) + 1"
        "(2 * M + unat b) mod ?D = be_val r' - ?D"
      using div_mod_unique by blast+
    have "be_val (u256_sub r' den) = be_val r' - ?D" "length (u256_sub r' den) = 32"
      using u256_sub_value [OF r'(2) den(1)] False by simp_all
    with False q q' r' dm den show ?thesis
      unfolding step div_inv_def N by (simp add: u256_cmp_value distrib_right)
  qed
qed

lemma u256_div_value:
  assumes num: "length num = 32" and den: "length den = 32" "0 < be_val den"
  shows "be_val (u256_div num den) = be_val num div be_val den \<and> length (u256_div num den) = 32"
proof -
  let ?z = "(replicate 32 0, replicate 32 0) :: bytes \<times> bytes"
  have "k \<le> 256 \<Longrightarrow> div_inv num den k (fold (div_step num den) (rev [k..<256]) ?z)" for k
  proof (induction "256 - k" arbitrary: k)
    case 0
    then have "be_val num div 2 ^ k = 0" using be_val_bound32 [OF num] by simp
    with 0 show ?case by (simp add: div_inv_def)
  next
    case (Suc m)
    then have k: "k < 256" "Suc k \<le> 256" "m = 256 - Suc k" by simp_all
    have "rev [k..<256] = rev [Suc k..<256] @ [k]" using k(1) by (simp add: upt_conv_Cons)
    with div_step_inv [OF num den k(1) Suc.hyps(1) [OF k(3,2)]] show ?case by simp
  qed
  from this [of 0] have "div_inv num den 0 (fold (div_step num den) (rev [0..<256]) ?z)" by simp
  moreover have "den \<noteq> replicate 32 0" using den(2) by auto
  ultimately show ?thesis by (simp add: u256_div_def div_inv_def)
qed

lemma unat_not8: "unat (NOT (x :: u8)) = 255 - unat x"
proof -
  have "NOT x = -1 - x" by (simp add: not_eq_complement)
  moreover have "unat (-1 - x) = unat (-1 :: u8) - unat x" by (rule unat_sub) simp
  moreover have "unat (-1 :: u8) = 255" by (simp add: unsigned_minus_1_eq_mask mask_eq_exp_minus_1)
  ultimately show ?thesis by simp
qed

lemma be_val_not: "be_val (map NOT t) + be_val t + 1 = 256 ^ length t"
proof (induction t)
  case (Cons x t)
  have "unat (NOT x) + unat x = 255"
    using unat_u8_lt [of x] unfolding unat_not8 by linarith
  then have "unat (NOT x) * 256 ^ length t + unat x * 256 ^ length t = 255 * 256 ^ length t"
    by (simp only: add_mult_distrib [symmetric])
  with Cons show ?case by (simp add: be_val_Cons)
qed simp

lemma calculate_work_value:
  assumes t: "length t = 32" "0 < be_val t"
  shows "be_val (calculate_work t) = 2 ^ 256 div (be_val t + 1) \<and> length (calculate_work t) = 32"
proof -
  have nz: "t \<noteq> replicate 32 0" using t by auto
  obtain p ov where p: "u256_add_one t = (p, ov)" by fastforce
  have pv: "be_val p + 2 ^ 256 * of_bool ov = be_val t + 1" "length p = 32"
    using u256_add_one_value [OF t(1)] p by simp_all
  show ?thesis
  proof (cases ov)
    case True
    with pv be_val_bound32 [OF t(1)] have "be_val t + 1 = 2 ^ 256" by simp
    moreover have "be_val u256_one = 1" by (simp add: u256_one_def be_val_def) code_simp
    ultimately show ?thesis using nz p True by (simp add: calculate_work_def u256_one_def)
  next
    case False
    then have P: "be_val p = be_val t + 1" using pv by simp
    let ?q = "u256_div (map NOT t) p"
    have N: "be_val (map NOT t) + be_val t + 1 = 2 ^ 256"
      using be_val_not [of t] t by simp
    have q: "be_val ?q = be_val (map NOT t) div be_val p" "length ?q = 32"
      using u256_div_value [of "map NOT t" p] t pv(2) P by simp_all
    have "2 ^ 256 = be_val (map NOT t) + be_val p" using N P by linarith
    then have "2 ^ 256 div be_val p = (be_val (map NOT t) + be_val p) div be_val p" by (rule arg_cong)
    also have "\<dots> = be_val ?q + 1" unfolding q(1) using P by (intro div_add_self2) linarith
    finally have Q: "2 ^ 256 div (be_val t + 1) = be_val ?q + 1" by (simp only: P)
    have "2 ^ 256 div (be_val t + 1) \<le> 2 ^ 256 div 2"
      using t(2) by (intro div_le_mono2) auto
    then have "be_val ?q + 1 < 2 ^ 256" using Q by simp
    moreover have "be_val (fst (u256_add_one ?q)) + 2 ^ 256 * of_bool (snd (u256_add_one ?q))
        = be_val ?q + 1" "length (fst (u256_add_one ?q)) = 32"
      using u256_add_one_value [OF q(2)] by simp_all
    ultimately have "be_val (fst (u256_add_one ?q)) = be_val ?q + 1"
      by (cases "snd (u256_add_one ?q)") simp_all
    with Q False nz p \<open>length (fst (u256_add_one ?q)) = 32\<close> show ?thesis
      by (simp add: calculate_work_def)
  qed
qed

section \<open>Properties\<close>

text \<open>
  C12: the byte-array routine for the work of a block is exact: for every non-zero 256-bit target it
  returns the big-endian bytes of \<open>2 ^ 256 div (target + 1)\<close>, with no lost limb and no overflow.
\<close>
theorem calculate_work_exact:
  assumes "length t = 32" and "0 < be_val t"
  shows "calculate_work t = to_be 32 (2 ^ 256 div (be_val t + 1))"
  using calculate_work_value [OF assms] to_be_be_val [of "calculate_work t"] by metis

theorem calculate_work_exact_witness:
  "calculate_work (to_be 32 (0xffff * 2 ^ 208)) = to_be 32 0x100010001"
proof -
  have v: "be_val (to_be 32 (0xffff * 2 ^ 208)) = 0xffff * 2 ^ 208" by (simp add: be_val_to_be)
  then have "calculate_work (to_be 32 (0xffff * 2 ^ 208))
      = to_be 32 (2 ^ 256 div (0xffff * 2 ^ 208 + 1))"
    using calculate_work_exact [of "to_be 32 (0xffff * 2 ^ 208)"] by simp
  then show ?thesis by simp
qed

text \<open>
  C13: chain work is a 256-bit number: adding a block's work is addition modulo \<open>2 ^ 256\<close> in both
  copies of the routine, subtraction saturates at zero, comparison is the numeric order, and the
  work taken off a sum that did not overflow is the work that was added to it.
\<close>
theorem chain_work_arithmetic:
  assumes "length a = 32" and "length b = 32"
  shows "be_val (add_chain_work a b) = (be_val a + be_val b) mod 2 ^ 256
       \<and> add_work a b = add_chain_work a b
       \<and> be_val (sub_work a b) = be_val a - be_val b
       \<and> cmp_work a b = nat_cmp (be_val a) (be_val b)
       \<and> (be_val a + be_val b < 2 ^ 256 \<longrightarrow> sub_work (add_chain_work a b) b = a)"
proof -
  have s: "be_val (sub_work (add_chain_work a b) b) = be_val (add_chain_work a b) - be_val b"
    "length (sub_work (add_chain_work a b) b) = length a"
    using sub_work_value [of "add_chain_work a b" b] add_chain_work_value [OF assms] assms by simp_all
  have "be_val a + be_val b < 2 ^ 256 \<Longrightarrow> sub_work (add_chain_work a b) b = a"
    using s add_chain_work_value [OF assms] by (intro be_val_inject) simp_all
  moreover have "add_work a b = add_chain_work a b" by (simp add: add_work_def add_chain_work_def)
  ultimately show ?thesis
    using add_chain_work_value [OF assms] sub_work_value [OF assms] u256_cmp_value [OF assms]
    by (simp add: cmp_work_def u256_cmp_def)
qed

theorem chain_work_arithmetic_witness:
  "sub_work (add_chain_work (replicate 31 0 @ [200]) (replicate 31 0 @ [100])) (replicate 31 0 @ [100])
     = replicate 31 0 @ [200]"
  using chain_work_arithmetic [of "replicate 31 0 @ [200]" "replicate 31 0 @ [100]"]
  by (simp add: be_val_append be_val_Cons)

end
