(* ===== verification/Header_Index.thy ===== *)
theory Header_Index
  imports Chain_Work
begin

text \<open>
  The block header index of \<^verbatim>\<open>bitcoinpr-storage/src/header_index.rs\<close>: column families as maps from
  encoded keys to encoded values, with the code's own codecs. The header encoding itself is the
  \<^verbatim>\<open>bitcoin\<close> crate's. Opening the database, WAL flushes and logging have no effect on the model's
  state; the number written in an error message is left out of it.
\<close>

section \<open>Stored headers\<close>

record stored_header =
  sh_header :: block_header
  sh_height :: u32
  sh_chain_work :: bytes

definition stored_serialize :: "bitcoin_crate \<Rightarrow> stored_header \<Rightarrow> bytes" where
  "stored_serialize L s =
     encode_header L (sh_header s) @ u32_to_le (sh_height s) @ sh_chain_work s"

definition stored_deserialize :: "bitcoin_crate \<Rightarrow> bytes \<Rightarrow> storage_error + stored_header" where
  "stored_deserialize L data =
     (if length data < 80 + 4 + 32 then Inl (Serialization ''stored header too short'')
      else
        case decode_header L (take 80 data) of
          Inl e \<Rightarrow> Inl (Serialization e)
        | Inr header \<Rightarrow>
            Inr \<lparr>sh_header = header,
                 sh_height = u32_from_le (take 4 (drop 80 data)),
                 sh_chain_work = take 32 (drop 84 data)\<rparr>)"

record block_pos =
  file_num :: u32
  pos_offset :: u64
  pos_size :: u32

definition block_pos_serialize :: "block_pos \<Rightarrow> bytes" where
  "block_pos_serialize p =
     u32_to_le (file_num p) @ u64_to_le (pos_offset p) @ u32_to_le (pos_size p)"

definition block_pos_deserialize :: "bytes \<Rightarrow> block_pos" where
  "block_pos_deserialize data =
     \<lparr>file_num = u32_from_le (take 4 data),
      pos_offset = u64_from_le (take 8 (drop 4 data)),
      pos_size = u32_from_le (take 4 (drop 12 data))\<rparr>"

section \<open>The index\<close>

record header_index =
  cf_headers :: cf
  cf_height_index :: cf
  cf_meta :: cf
  cf_block_pos :: cf
  cf_invalid :: cf_list
  invalid_set :: "bytes list"
  invalid_generation :: u64

definition META_BEST_HASH :: bytes where "META_BEST_HASH = byte_str ''best_hash''"
definition META_BEST_HEIGHT :: bytes where "META_BEST_HEIGHT = byte_str ''best_height''"
definition META_VALIDATED_HEIGHT :: bytes where
  "META_VALIDATED_HEIGHT = byte_str ''validated_height''"
definition META_HEADER_TIP_HASH :: bytes where
  "META_HEADER_TIP_HASH = byte_str ''header_tip_hash''"
definition META_HEADER_TIP_HEIGHT :: bytes where
  "META_HEADER_TIP_HEIGHT = byte_str ''header_tip_height''"
definition META_PRUNED_HEIGHT :: bytes where "META_PRUNED_HEIGHT = byte_str ''pruned_height''"
definition META_BIP110_ABANDONED :: bytes where
  "META_BIP110_ABANDONED = byte_str ''bip110_abandoned''"
definition META_BIP110_CONFIG :: bytes where "META_BIP110_CONFIG = byte_str ''bip110_config''"
definition META_SPLIT_RIVAL_TIPS :: bytes where
  "META_SPLIT_RIVAL_TIPS = byte_str ''split_rival_tips''"

definition INVALID_REASON_BIP110 :: u8 where "INVALID_REASON_BIP110 = 1"
definition INVALID_REASON_CONSENSUS :: u8 where "INVALID_REASON_CONSENSUS = 2"
definition INVALID_REASON_SIGNALING :: u8 where "INVALID_REASON_SIGNALING = 3"
definition INVALID_REASON_MANUAL :: u8 where "INVALID_REASON_MANUAL = 4"

definition hash_from_bytes :: "bytes \<Rightarrow> storage_error + bytes" where
  "hash_from_bytes data =
     (if length data = 32 then Inr data else Inl (Serialization ''bad slice length''))"

definition parse_u32 :: "string \<Rightarrow> bytes \<Rightarrow> storage_error + u32" where
  "parse_u32 msg data = (if length data = 4 then Inr (u32_from_le data) else Inl (Serialization msg))"

text \<open>A read that decodes what it finds.\<close>

definition read_cf :: "(bytes \<Rightarrow> storage_error + 'a) \<Rightarrow> cf \<Rightarrow> bytes \<Rightarrow> storage_error + 'a option" where
  "read_cf decode m k =
     (case m k of None \<Rightarrow> Inr None | Some data \<Rightarrow> bindE (decode data) (\<lambda>x. Inr (Some x)))"

definition load_invalid_set :: "header_index \<Rightarrow> storage_error + header_index" where
  "load_invalid_set hi =
     bindE (foldE (\<lambda>set (key, _). bindE (hash_from_bytes key) (\<lambda>h. Inr (List.insert h set)))
              [] (cf_invalid hi))
       (\<lambda>set. Inr (hi\<lparr>invalid_set := set\<rparr>))"

definition insert_header :: "bitcoin_crate \<Rightarrow> bytes \<Rightarrow> stored_header \<Rightarrow> header_index \<Rightarrow> header_index" where
  "insert_header L hash stored hi =
     hi\<lparr>cf_headers := put_cf hash (stored_serialize L stored) (cf_headers hi),
        cf_height_index := put_cf (u32_to_be (sh_height stored)) hash (cf_height_index hi)\<rparr>"

definition insert_headers_batch ::
  "bitcoin_crate \<Rightarrow> (bytes \<times> stored_header) list \<Rightarrow> header_index \<Rightarrow> header_index"
where
  "insert_headers_batch L headers hi = fold (\<lambda>(hash, stored). insert_header L hash stored) headers hi"

definition insert_headers_hash_only ::
  "bitcoin_crate \<Rightarrow> (bytes \<times> stored_header) list \<Rightarrow> header_index \<Rightarrow> header_index"
where
  "insert_headers_hash_only L headers hi =
     hi\<lparr>cf_headers := fold (\<lambda>(hash, stored). put_cf hash (stored_serialize L stored)) headers
          (cf_headers hi)\<rparr>"

definition update_height_index_batch ::
  "(bytes \<times> stored_header) list \<Rightarrow> header_index \<Rightarrow> header_index"
where
  "update_height_index_batch headers hi =
     hi\<lparr>cf_height_index := fold (\<lambda>(hash, stored). put_cf (u32_to_be (sh_height stored)) hash) headers
          (cf_height_index hi)\<rparr>"

definition set_height_hash :: "u32 \<Rightarrow> bytes \<Rightarrow> header_index \<Rightarrow> header_index" where
  "set_height_hash height hash hi =
     hi\<lparr>cf_height_index := put_cf (u32_to_be height) hash (cf_height_index hi)\<rparr>"

definition get_header ::
  "bitcoin_crate \<Rightarrow> header_index \<Rightarrow> bytes \<Rightarrow> storage_error + stored_header option"
where
  "get_header L hi hash = read_cf (stored_deserialize L) (cf_headers hi) hash"

text \<open>The loop of \<^verbatim>\<open>get_ancestor\<close>: heights strictly decrease, so it ends.\<close>

function get_ancestor_loop ::
  "bitcoin_crate \<Rightarrow> header_index \<Rightarrow> stored_header \<Rightarrow> u32 \<Rightarrow> storage_error + stored_header option"
where
  "get_ancestor_loop L hi current target_height =
     (if target_height < sh_height current then
        (case get_header L hi (prev_blockhash (sh_header current)) of
           Inl e \<Rightarrow> Inl e
         | Inr None \<Rightarrow> Inr None
         | Inr (Some parent) \<Rightarrow>
             if sh_height parent < sh_height current
             then get_ancestor_loop L hi parent target_height else Inr None)
      else Inr (Some current))"
  by pat_completeness auto
termination
  by (relation "measure (\<lambda>(L, hi, current, t). unat (sh_height current))")
    (auto simp: word_less_nat_alt)

declare get_ancestor_loop.simps [simp del]

definition get_ancestor ::
  "bitcoin_crate \<Rightarrow> header_index \<Rightarrow> bytes \<Rightarrow> u32 \<Rightarrow> storage_error + stored_header option"
where
  "get_ancestor L hi from_hash target_height =
     (case get_header L hi from_hash of
        Inl e \<Rightarrow> Inl e
      | Inr None \<Rightarrow> Inr None
      | Inr (Some current) \<Rightarrow>
          if sh_height current < target_height then Inr None
          else get_ancestor_loop L hi current target_height)"

definition get_hash_at_height :: "header_index \<Rightarrow> u32 \<Rightarrow> storage_error + bytes option" where
  "get_hash_at_height hi height = read_cf hash_from_bytes (cf_height_index hi) (u32_to_be height)"

definition delete_height_entry :: "u32 \<Rightarrow> header_index \<Rightarrow> header_index" where
  "delete_height_entry height hi =
     hi\<lparr>cf_height_index := delete_cf (u32_to_be height) (cf_height_index hi)\<rparr>"

section \<open>Tips, markers and positions\<close>

definition get_best_tip :: "header_index \<Rightarrow> storage_error + bytes option" where
  "get_best_tip hi = read_cf hash_from_bytes (cf_meta hi) META_BEST_HASH"

definition set_best_tip :: "bytes \<Rightarrow> u32 \<Rightarrow> header_index \<Rightarrow> header_index" where
  "set_best_tip hash height hi =
     hi\<lparr>cf_meta := put_cf META_BEST_HEIGHT (u32_to_le height)
          (put_cf META_BEST_HASH hash (cf_meta hi))\<rparr>"

definition get_best_height :: "header_index \<Rightarrow> storage_error + u32 option" where
  "get_best_height hi = read_cf (parse_u32 ''invalid height bytes'') (cf_meta hi) META_BEST_HEIGHT"

definition get_header_tip :: "header_index \<Rightarrow> storage_error + bytes option" where
  "get_header_tip hi =
     (case cf_meta hi META_HEADER_TIP_HASH of
        Some data \<Rightarrow> bindE (hash_from_bytes data) (\<lambda>h. Inr (Some h))
      | None \<Rightarrow> get_best_tip hi)"

definition get_header_tip_height :: "header_index \<Rightarrow> storage_error + u32 option" where
  "get_header_tip_height hi =
     (case cf_meta hi META_HEADER_TIP_HEIGHT of
        Some data \<Rightarrow> bindE (parse_u32 ''invalid height bytes'' data) (\<lambda>h. Inr (Some h))
      | None \<Rightarrow> get_best_height hi)"

definition set_header_tip :: "bytes \<Rightarrow> u32 \<Rightarrow> header_index \<Rightarrow> header_index" where
  "set_header_tip hash height hi =
     hi\<lparr>cf_meta := put_cf META_HEADER_TIP_HEIGHT (u32_to_le height)
          (put_cf META_HEADER_TIP_HASH hash (cf_meta hi))\<rparr>"

definition set_block_pos :: "bytes \<Rightarrow> block_pos \<Rightarrow> header_index \<Rightarrow> header_index" where
  "set_block_pos hash pos hi =
     hi\<lparr>cf_block_pos := put_cf hash (block_pos_serialize pos) (cf_block_pos hi)\<rparr>"

definition remove_block_pos :: "bytes \<Rightarrow> header_index \<Rightarrow> header_index" where
  "remove_block_pos hash hi = hi\<lparr>cf_block_pos := delete_cf hash (cf_block_pos hi)\<rparr>"

definition get_block_pos :: "header_index \<Rightarrow> bytes \<Rightarrow> storage_error + block_pos option" where
  "get_block_pos hi hash =
     read_cf (\<lambda>data. if length data \<noteq> 16 then Inl (Serialization ''invalid block pos data length'')
                      else Inr (block_pos_deserialize data)) (cf_block_pos hi) hash"

definition set_validated_height :: "u32 \<Rightarrow> header_index \<Rightarrow> header_index" where
  "set_validated_height height hi =
     hi\<lparr>cf_meta := put_cf META_VALIDATED_HEIGHT (u32_to_le height) (cf_meta hi)\<rparr>"

definition get_validated_height :: "header_index \<Rightarrow> storage_error + u32 option" where
  "get_validated_height hi =
     read_cf (parse_u32 ''invalid validated_height bytes'') (cf_meta hi) META_VALIDATED_HEIGHT"

definition clear_validated_height :: "header_index \<Rightarrow> header_index" where
  "clear_validated_height hi = hi\<lparr>cf_meta := delete_cf META_VALIDATED_HEIGHT (cf_meta hi)\<rparr>"

definition set_pruned_height :: "u32 \<Rightarrow> header_index \<Rightarrow> header_index" where
  "set_pruned_height height hi =
     hi\<lparr>cf_meta := put_cf META_PRUNED_HEIGHT (u32_to_le height) (cf_meta hi)\<rparr>"

definition get_pruned_height :: "header_index \<Rightarrow> storage_error + u32 option" where
  "get_pruned_height hi =
     read_cf (parse_u32 ''invalid pruned_height bytes'') (cf_meta hi) META_PRUNED_HEIGHT"

definition set_bip110_abandoned :: "u64 \<Rightarrow> header_index \<Rightarrow> header_index" where
  "set_bip110_abandoned unix_ts hi =
     hi\<lparr>cf_meta := put_cf META_BIP110_ABANDONED (u64_to_le unix_ts) (cf_meta hi)\<rparr>"

definition get_bip110_abandoned :: "header_index \<Rightarrow> storage_error + u64 option" where
  "get_bip110_abandoned hi =
     read_cf (\<lambda>data. if length data = 8 then Inr (u64_from_le data)
                      else Inl (Serialization ''invalid bip110_abandoned bytes''))
       (cf_meta hi) META_BIP110_ABANDONED"

text \<open>The fingerprint is UTF-8 text; \<open>utf8_ok\<close> stands for the check of \<^verbatim>\<open>String::from_utf8\<close>.\<close>

definition set_bip110_config_fingerprint :: "bytes \<Rightarrow> u32 \<Rightarrow> header_index \<Rightarrow> header_index" where
  "set_bip110_config_fingerprint fingerprint covered_from hi =
     hi\<lparr>cf_meta := put_cf META_BIP110_CONFIG (u32_to_le covered_from @ fingerprint) (cf_meta hi)\<rparr>"

definition get_bip110_config_fingerprint ::
  "(bytes \<Rightarrow> bool) \<Rightarrow> header_index \<Rightarrow> storage_error + (bytes \<times> u32) option"
where
  "get_bip110_config_fingerprint utf8_ok hi =
     read_cf (\<lambda>data. if 4 \<le> length data then
                        (if utf8_ok (drop 4 data) then Inr (drop 4 data, u32_from_le (take 4 data))
                         else Inl (Serialization ''invalid bip110_config fingerprint''))
                      else Inl (Serialization ''bip110_config record too short''))
       (cf_meta hi) META_BIP110_CONFIG"

definition set_split_rival_tips :: "bytes \<Rightarrow> header_index \<Rightarrow> header_index" where
  "set_split_rival_tips blob hi = hi\<lparr>cf_meta := put_cf META_SPLIT_RIVAL_TIPS blob (cf_meta hi)\<rparr>"

definition get_split_rival_tips :: "header_index \<Rightarrow> bytes option" where
  "get_split_rival_tips hi = cf_meta hi META_SPLIT_RIVAL_TIPS"

definition clear_split_rival_tips :: "header_index \<Rightarrow> header_index" where
  "clear_split_rival_tips hi = hi\<lparr>cf_meta := delete_cf META_SPLIT_RIVAL_TIPS (cf_meta hi)\<rparr>"

section \<open>Invalid markers\<close>

definition mark_invalid :: "bytes \<Rightarrow> u32 \<Rightarrow> u8 \<Rightarrow> header_index \<Rightarrow> header_index" where
  "mark_invalid hash height reason hi =
     hi\<lparr>cf_invalid := put_sorted hash (reason # u32_to_le height) (cf_invalid hi),
        invalid_set := List.insert hash (invalid_set hi),
        invalid_generation := invalid_generation hi + 1\<rparr>"

definition clear_invalid :: "bytes \<Rightarrow> header_index \<Rightarrow> header_index" where
  "clear_invalid hash hi =
     (let removed = hash \<in> set (invalid_set hi);
          hi' = hi\<lparr>cf_invalid := delete_sorted hash (cf_invalid hi),
                   invalid_set := removeAll hash (invalid_set hi)\<rparr>
      in if removed then hi'\<lparr>invalid_generation := invalid_generation hi + 1\<rparr> else hi')"

definition is_invalid :: "header_index \<Rightarrow> bytes \<Rightarrow> bool" where
  "is_invalid hi hash \<longleftrightarrow> hash \<in> set (invalid_set hi)"

definition decode_marker :: "bytes \<Rightarrow> storage_error + (u32 \<times> u8)" where
  "decode_marker data =
     (if length data \<noteq> 5 then Inl (Serialization ''invalid marker data length'')
      else Inr (u32_from_le (take 4 (drop 1 data)), data ! 0))"

definition get_invalid :: "header_index \<Rightarrow> bytes \<Rightarrow> storage_error + (u32 \<times> u8) option" where
  "get_invalid hi hash = read_cf decode_marker (map_of (cf_invalid hi)) hash"

definition iter_invalid :: "header_index \<Rightarrow> storage_error + (bytes \<times> u32 \<times> u8) list" where
  "iter_invalid hi =
     foldE (\<lambda>out (key, value). bindE (decode_marker value) (\<lambda>(height, reason).
              bindE (hash_from_bytes key) (\<lambda>h. Inr (out @ [(h, height, reason)]))))
       [] (cf_invalid hi)"

definition invalid_count :: "header_index \<Rightarrow> nat" where
  "invalid_count hi = length (invalid_set hi)"

definition clear_all_invalid :: "header_index \<Rightarrow> header_index" where
  "clear_all_invalid hi =
     hi\<lparr>cf_invalid := fold (\<lambda>(key, _). delete_sorted key) (cf_invalid hi) (cf_invalid hi),
        invalid_set := [],
        invalid_generation := invalid_generation hi + 1\<rparr>"

fun first_invalid_walk ::
  "bitcoin_crate \<Rightarrow> header_index \<Rightarrow> u32 \<Rightarrow> nat \<Rightarrow> bytes \<Rightarrow> (bytes \<times> u32) option
     \<Rightarrow> storage_error + (bytes \<times> u32) option"
where
  "first_invalid_walk L hi validated_height 0 current_hash found = Inr found"
| "first_invalid_walk L hi validated_height (Suc n) current_hash found =
     (case get_header L hi current_hash of
        Inl e \<Rightarrow> Inl e
      | Inr None \<Rightarrow> Inr found
      | Inr (Some stored) \<Rightarrow>
          (let found' = (if is_invalid hi current_hash then Some (current_hash, sh_height stored)
                         else found);
               continue = (if sh_height stored = 0 then Inr found'
                 else first_invalid_walk L hi validated_height n
                        (prev_blockhash (sh_header stored)) found')
           in if sh_height stored \<le> validated_height then
                (case get_hash_at_height hi (sh_height stored) of
                   Inl e \<Rightarrow> Inl e
                 | Inr (Some canonical) \<Rightarrow> if canonical = current_hash then Inr found' else continue
                 | Inr None \<Rightarrow> continue)
              else continue))"

definition first_invalid_ancestor ::
  "bitcoin_crate \<Rightarrow> header_index \<Rightarrow> bytes \<Rightarrow> u32 \<Rightarrow> u32 \<Rightarrow> storage_error + (bytes \<times> u32) option"
where
  "first_invalid_ancestor L hi tip validated_height max_walk =
     (if invalid_set hi = [] then Inr None
      else first_invalid_walk L hi validated_height (unat max_walk) tip None)"

section \<open>Re-pointing and truncating the height index\<close>

text \<open>The loop of \<^verbatim>\<open>restore_branch_height_index\<close>. The write batch is the list of its puts; reads see
  the index as it was before the batch.\<close>

function restore_branch_loop ::
  "bitcoin_crate \<Rightarrow> header_index \<Rightarrow> bytes \<Rightarrow> stored_header \<Rightarrow> (u32 \<times> bytes) list
     \<Rightarrow> storage_error + (u32 \<times> bytes) list"
where
  "restore_branch_loop L hi current_hash current batch =
     (case get_hash_at_height hi (sh_height current) of
        Inl e \<Rightarrow> Inl e
      | Inr indexed \<Rightarrow>
          if indexed = Some current_hash then Inr batch
          else
            (let batch' = batch @ [(sh_height current, current_hash)];
                 parent_hash = prev_blockhash (sh_header current)
             in if sh_height current = 0 then Inr batch'
                else
                  (case get_header L hi parent_hash of
                     Inl e \<Rightarrow> Inl e
                   | Inr None \<Rightarrow> Inl (Serialization ''restore_branch_height_index: broken prev link'')
                   | Inr (Some parent) \<Rightarrow>
                       if sh_height parent < sh_height current
                       then restore_branch_loop L hi parent_hash parent batch'
                       else Inl (Serialization ''restore_branch_height_index: broken prev link''))))"
  by pat_completeness auto
termination
  by (relation "measure (\<lambda>(L, hi, h, current, b). unat (sh_height current))")
    (auto simp: word_less_nat_alt)

declare restore_branch_loop.simps [simp del]

definition write_heights :: "(u32 \<times> bytes) list \<Rightarrow> header_index \<Rightarrow> header_index" where
  "write_heights batch hi =
     hi\<lparr>cf_height_index := fold (\<lambda>(k, v). put_cf k v) (map (\<lambda>(h, x). (u32_to_be h, x)) batch)
          (cf_height_index hi)\<rparr>"

definition restore_branch_height_index ::
  "bitcoin_crate \<Rightarrow> header_index \<Rightarrow> bytes \<Rightarrow> storage_error + (u32 \<times> u32) \<times> header_index"
where
  "restore_branch_height_index L hi tip_hash =
     (case get_header L hi tip_hash of
        Inl e \<Rightarrow> Inl e
      | Inr None \<Rightarrow> Inl (Serialization ''restore_branch_height_index: unknown tip'')
      | Inr (Some tip) \<Rightarrow>
          bindE (restore_branch_loop L hi tip_hash tip [])
            (\<lambda>batch. Inr ((sh_height tip, of_nat (length batch)), write_heights batch hi)))"

text \<open>\<open>heights_between a b\<close> is the range \<^verbatim>\<open>a..=b\<close>.\<close>

definition heights_between :: "u32 \<Rightarrow> u32 \<Rightarrow> u32 list" where
  "heights_between a b = map of_nat [unat a..<Suc (unat b)]"

definition delete_heights :: "u32 list \<Rightarrow> header_index \<Rightarrow> header_index" where
  "delete_heights hs hi =
     hi\<lparr>cf_height_index := fold delete_cf (map u32_to_be hs) (cf_height_index hi)\<rparr>"

definition truncate_to :: "u32 \<Rightarrow> header_index \<Rightarrow> storage_error + header_index" where
  "truncate_to keep_height hi =
     bindE (get_best_height hi) (\<lambda>best.
       let best_height = (case best of Some h \<Rightarrow> h | None \<Rightarrow> 0)
       in if best_height \<le> keep_height then Inr hi
          else
            (let hi' = delete_heights (heights_between (keep_height + 1) best_height) hi
             in bindE (get_hash_at_height hi' keep_height) (\<lambda>r.
                  case r of
                    Some hash \<Rightarrow> Inr (set_best_tip hash keep_height hi')
                  | None \<Rightarrow> Inr hi')))"

definition reset_fork_header_tip :: "u32 \<Rightarrow> bytes \<Rightarrow> header_index \<Rightarrow> storage_error + header_index" where
  "reset_fork_header_tip canonical_height canonical_hash hi =
     bindE (get_header_tip_height hi) (\<lambda>tip.
       let current_tip = (case tip of Some h \<Rightarrow> h | None \<Rightarrow> 0);
           purged = (if canonical_height < current_tip
             then delete_heights (heights_between (canonical_height + 1) current_tip) hi else hi)
       in Inr (set_header_tip canonical_hash canonical_height
                 (set_height_hash canonical_height canonical_hash purged)))"

section \<open>Integrity check at startup\<close>

definition apply_work_repairs ::
  "bitcoin_crate \<Rightarrow> (bytes \<times> stored_header) list \<Rightarrow> header_index \<Rightarrow> header_index"
where
  "apply_work_repairs L repairs hi =
     (if repairs = [] then hi else insert_headers_hash_only L repairs hi)"

text \<open>The state that both scans of \<^verbatim>\<open>verify_chain_integrity\<close> thread, and the chain-work check they
  share.\<close>

record scan_state =
  ss_prev_hash :: "bytes option"
  ss_prev_work :: "bytes option"
  ss_work_repairs :: "(bytes \<times> stored_header) list"
  ss_checked :: u32

definition scan_work ::
  "bitcoin_crate \<Rightarrow> bytes \<Rightarrow> stored_header \<Rightarrow> scan_state \<Rightarrow> scan_state"
where
  "scan_work L hash stored st =
     (case ss_prev_work st of
        Some pw \<Rightarrow>
          (let block_work = target_to_work L (target_from_compact L (hdr_bits (sh_header stored)));
               expected = add_work pw block_work
           in st\<lparr>ss_work_repairs := (if sh_chain_work stored \<noteq> expected
                    then ss_work_repairs st @ [(hash, stored\<lparr>sh_chain_work := expected\<rparr>)]
                    else ss_work_repairs st),
                 ss_prev_work := Some expected, ss_prev_hash := Some hash\<rparr>)
      | None \<Rightarrow> st\<lparr>ss_prev_work := Some (sh_chain_work stored), ss_prev_hash := Some hash\<rparr>)"

text \<open>What a scan finds at a height: the indexed hash and its header, if they fit the chain so far.
  The inner \<open>None\<close> is a structural problem.\<close>

definition scan_lookup ::
  "bitcoin_crate \<Rightarrow> header_index \<Rightarrow> scan_state \<Rightarrow> u32 \<Rightarrow> storage_error + (bytes \<times> stored_header) option"
where
  "scan_lookup L hi st height =
     bindE (get_hash_at_height hi height) (\<lambda>r. case r of
       None \<Rightarrow> Inr None
     | Some hash \<Rightarrow>
         bindE (get_header L hi hash) (\<lambda>r'. case r' of
           None \<Rightarrow> Inr None
         | Some stored \<Rightarrow>
             if sh_height stored \<noteq> height then Inr None
             else if (case ss_prev_hash st of
                        Some expected_prev \<Rightarrow> prev_blockhash (sh_header stored) \<noteq> expected_prev
                      | None \<Rightarrow> False) then Inr None
             else Inr (Some (hash, stored))))"

text \<open>The scan of the validated window: a problem at \<open>height\<close> ends it with \<^verbatim>\<open>height.saturating_sub(1)\<close>.
  (On a broken link the source writes \<^verbatim>\<open>height - 1\<close>; a link is ss_checked only above height 0.)\<close>

fun scan_validated ::
  "bitcoin_crate \<Rightarrow> header_index \<Rightarrow> u32 list \<Rightarrow> scan_state \<Rightarrow> storage_error + (scan_state \<times> u32 option)"
where
  "scan_validated L hi [] st = Inr (st, None)"
| "scan_validated L hi (height # hs) st =
     bindE (scan_lookup L hi st height) (\<lambda>r. case r of
       None \<Rightarrow> Inr (st, Some (if height = 0 then 0 else height - 1))
     | Some (hash, stored) \<Rightarrow>
         scan_validated L hi hs ((scan_work L hash stored st)\<lparr>ss_checked := height\<rparr>))"

fun scan_header_tip ::
  "bitcoin_crate \<Rightarrow> header_index \<Rightarrow> u32 list \<Rightarrow> scan_state \<Rightarrow> storage_error + scan_state"
where
  "scan_header_tip L hi [] st = Inr st"
| "scan_header_tip L hi (height # hs) st =
     bindE (scan_lookup L hi st height) (\<lambda>r. case r of
       None \<Rightarrow> Inr st
     | Some (hash, stored) \<Rightarrow> scan_header_tip L hi hs (scan_work L hash stored st))"

definition CHECK_DEPTH :: u32 where "CHECK_DEPTH = 1000"

definition verify_chain_integrity ::
  "bitcoin_crate \<Rightarrow> header_index \<Rightarrow> storage_error + (u32 \<times> u32) \<times> header_index"
where
  "verify_chain_integrity L hi =
     bindE (get_best_height hi) (\<lambda>best. case best of
       None \<Rightarrow> Inr ((0, 0), hi)
     | Some best_height \<Rightarrow>
         (let start_height = (if best_height < CHECK_DEPTH then 0 else best_height - CHECK_DEPTH)
          in bindE (if 0 < start_height then get_hash_at_height hi (start_height - 1) else Inr None)
             (\<lambda>seed. bindE (case seed of
                              Some h \<Rightarrow> bindE (get_header L hi h) (\<lambda>s. Inr (map_option sh_chain_work s))
                            | None \<Rightarrow> Inr None)
             (\<lambda>seed_work.
                bindE (scan_validated L hi (heights_between start_height best_height)
                         \<lparr>ss_prev_hash = seed, ss_prev_work = seed_work, ss_work_repairs = [],
                          ss_checked = (if 0 < start_height then start_height - 1 else 0)\<rparr>)
                (\<lambda>(st, broken). case broken of
                   Some h \<Rightarrow> Inr ((h, best_height), apply_work_repairs L (ss_work_repairs st) hi)
                 | None \<Rightarrow>
                     bindE (get_header_tip_height hi) (\<lambda>ht.
                       let header_tip_height = (case ht of Some h \<Rightarrow> h | None \<Rightarrow> best_height)
                       in bindE (scan_header_tip L hi
                                   (heights_between (best_height + 1) header_tip_height) st)
                            (\<lambda>st'. Inr ((ss_checked st', best_height),
                                        apply_work_repairs L (ss_work_repairs st') hi))))))))"

end
