(* ===== verification/Demo_Crate.thy ===== *)
theory Demo_Crate
  imports Bitcoin_Types
begin

text \<open>
  What the development relies on of the \<^verbatim>\<open>bitcoin\<close> crate, as named predicates, and one concrete
  instance of the crate's functions on which the witnesses of the properties evaluate. The header
  encoding of the instance is the 80-byte consensus encoding; its ids are taken from the version
  and nonce fields.
\<close>

section \<open>Laws of the crate\<close>

text \<open>Consensus encoding of a header: 80 bytes, and decoding inverts it.\<close>

definition header_codec_ok :: "bitcoin_crate \<Rightarrow> bool" where
  "header_codec_ok L \<longleftrightarrow>
     (\<forall>h. length (prev_blockhash h) = 32 \<and> length (hdr_merkle_root h) = 32 \<longrightarrow>
          length (encode_header L h) = 80 \<and> decode_header L (encode_header L h) = Inr h)"

definition header_ok :: "block_header \<Rightarrow> bool" where
  "header_ok h \<longleftrightarrow> length (prev_blockhash h) = 32 \<and> length (hdr_merkle_root h) = 32"

section \<open>An instance\<close>

definition demo_encode_header :: "block_header \<Rightarrow> bytes" where
  "demo_encode_header h =
     u32_to_le (hdr_version h) @ prev_blockhash h @ hdr_merkle_root h @ u32_to_le (hdr_time h)
       @ u32_to_le (hdr_bits h) @ u32_to_le (hdr_nonce h)"

definition demo_decode_header :: "bytes \<Rightarrow> string + block_header" where
  "demo_decode_header d =
     (if length d \<noteq> 80 then Inl ''unexpected end of file''
      else Inr \<lparr>hdr_version = u32_from_le (take 4 d), prev_blockhash = take 32 (drop 4 d),
                hdr_merkle_root = take 32 (drop 36 d), hdr_time = u32_from_le (take 4 (drop 68 d)),
                hdr_bits = u32_from_le (take 4 (drop 72 d)),
                hdr_nonce = u32_from_le (take 4 (drop 76 d))\<rparr>)"

definition demo_crate :: bitcoin_crate where
  "demo_crate =
     \<lparr>sha256d = (\<lambda>bs. take 32 (bs @ replicate 32 0)),
      compute_txid = (\<lambda>tx. to_le 32 (unat (tx_version tx) + 1)),
      compute_wtxid = (\<lambda>tx. to_le 32 (unat (tx_version tx) + 1)),
      is_coinbase = (\<lambda>tx. case tx_input tx of
         [i] \<Rightarrow> previous_output i = \<lparr>op_txid = replicate 32 0, op_vout = 0xffffffff\<rparr> | _ \<Rightarrow> False),
      outpoint_null = \<lparr>op_txid = replicate 32 0, op_vout = 0xffffffff\<rparr>,
      block_hash = (\<lambda>h. to_le 32 (unat (hdr_nonce h) + 10)),
      encode_header = demo_encode_header,
      decode_header = demo_decode_header,
      target_from_compact = (\<lambda>bits. to_be 32 (unat bits * 2 ^ 208)),
      target_to_work = (\<lambda>t. to_be 32 (2 ^ 256 div (be_val t + 1))),
      to_compact_lossy = (\<lambda>t. of_nat (be_val t div 2 ^ 208)),
      pow_hash_ok = (\<lambda>h. True),
      block_weight = (\<lambda>b. 4 * of_nat (length (txdata b))),
      is_op_return = (\<lambda>s. s \<noteq> [] \<and> hd s = 0x6a)\<rparr>"

lemma demo_crate_sel:
  "sha256d demo_crate = (\<lambda>bs. take 32 (bs @ replicate 32 0))"
  "compute_txid demo_crate = (\<lambda>tx. to_le 32 (unat (tx_version tx) + 1))"
  "compute_wtxid demo_crate = (\<lambda>tx. to_le 32 (unat (tx_version tx) + 1))"
  "is_coinbase demo_crate = (\<lambda>tx. case tx_input tx of
     [i] \<Rightarrow> previous_output i = \<lparr>op_txid = replicate 32 0, op_vout = 0xffffffff\<rparr> | _ \<Rightarrow> False)"
  "outpoint_null demo_crate = \<lparr>op_txid = replicate 32 0, op_vout = 0xffffffff\<rparr>"
  "block_hash demo_crate = (\<lambda>h. to_le 32 (unat (hdr_nonce h) + 10))"
  "target_from_compact demo_crate = (\<lambda>bits. to_be 32 (unat bits * 2 ^ 208))"
  "to_compact_lossy demo_crate = (\<lambda>t. of_nat (be_val t div 2 ^ 208))"
  "pow_hash_ok demo_crate = (\<lambda>h. True)"
  "block_weight demo_crate = (\<lambda>b. 4 * of_nat (length (txdata b)))"
  "is_op_return demo_crate = (\<lambda>s. s \<noteq> [] \<and> hd s = 0x6a)"
  by (simp_all add: demo_crate_def)

lemma demo_header_codec: "header_codec_ok demo_crate"
  by (auto simp: header_codec_ok_def demo_crate_def demo_encode_header_def demo_decode_header_def)

end
