(* ===== verification/Header_Chain.thy ===== *)
theory Header_Chain
  imports Header_Index Demo_Crate
begin

text \<open>
  Properties of the header index: what is stored is read back, ancestors are found on the branch
  that is asked for, restoring a branch re-points exactly its heights, and the in-memory set of
  invalid hashes mirrors the markers on disk.
\<close>

section \<open>Codecs\<close>

interpretation pos_codec: byte_codec block_pos_serialize "\<lambda>d. Inr (block_pos_deserialize d)" "\<lambda>_. True"
  by unfold_locales (simp add: block_pos_serialize_def block_pos_deserialize_def)

definition stored_ok :: "stored_header \<Rightarrow> bool" where
  "stored_ok s \<longleftrightarrow> header_ok (sh_header s) \<and> length (sh_chain_work s) = 32"

lemma stored_codec:
  assumes "header_codec_ok L"
  shows "byte_codec (stored_serialize L) (stored_deserialize L) stored_ok"
  using assms
  by unfold_locales
    (simp add: stored_ok_def header_ok_def header_codec_ok_def stored_serialize_def
      stored_deserialize_def)

lemma stored_roundtrip:
  assumes "header_codec_ok L" and "stored_ok s"
  shows "stored_deserialize L (stored_serialize L s) = Inr s"
  using byte_codec.dec_enc [OF stored_codec [OF assms(1)] assms(2)] .

lemma u32_to_be_inject [simp]: "u32_to_be a = u32_to_be b \<longleftrightarrow> a = b"
proof
  assume "u32_to_be a = u32_to_be b"
  then have "be_val (u32_to_be a) = be_val (u32_to_be b)" by simp
  then have "unat a mod 256 ^ 4 = unat b mod 256 ^ 4" by (simp only: u32_to_be_def be_val_to_be)
  moreover have "unat a < 256 ^ 4" "unat b < 256 ^ 4"
    using unsigned_less [of a, where ?'a = nat] unsigned_less [of b, where ?'a = nat] by simp_all
  ultimately have "unat a = unat b" by simp
  then show "a = b" by (rule unsigned_word_eqI)
qed simp

section \<open>Reads after writes\<close>

lemma get_header_insert:
  assumes "header_codec_ok L" and "stored_ok s"
  shows "get_header L (insert_header L h s hi) h' = (if h' = h then Inr (Some s) else get_header L hi h')"
  using assms by (simp add: get_header_def insert_header_def read_cf_def put_cf_def stored_roundtrip)

lemma get_hash_insert:
  assumes "length h = 32"
  shows "get_hash_at_height (insert_header L h s hi) n =
     (if n = sh_height s then Inr (Some h) else get_hash_at_height hi n)"
  using assms
  by (simp add: get_hash_at_height_def insert_header_def read_cf_def put_cf_def hash_from_bytes_def)

lemma get_hash_set_height:
  assumes "length h = 32"
  shows "get_hash_at_height (set_height_hash m h hi) n =
     (if n = m then Inr (Some h) else get_hash_at_height hi n)"
  using assms
  by (simp add: get_hash_at_height_def set_height_hash_def read_cf_def put_cf_def hash_from_bytes_def)

lemma get_hash_delete_height:
  "get_hash_at_height (delete_height_entry m hi) n =
     (if n = m then Inr None else get_hash_at_height hi n)"
  by (simp add: get_hash_at_height_def delete_height_entry_def read_cf_def delete_cf_def)

lemma get_header_cong: "cf_headers hi = cf_headers hi' \<Longrightarrow> get_header L hi = get_header L hi'"
  by (intro ext) (simp add: get_header_def)

section \<open>The ancestor walk\<close>

text \<open>The \<open>n\<close>-th ancestor of a stored header along \<^verbatim>\<open>prev_blockhash\<close>.\<close>

fun nth_ancestor :: "bitcoin_crate \<Rightarrow> header_index \<Rightarrow> nat \<Rightarrow> stored_header \<Rightarrow> stored_header option" where
  "nth_ancestor L hi 0 s = Some s"
| "nth_ancestor L hi (Suc n) s =
     (case get_header L hi (prev_blockhash (sh_header s)) of
        Inr (Some p) \<Rightarrow> nth_ancestor L hi n p | _ \<Rightarrow> None)"

text \<open>A linked index: every stored header above height 0 has its parent stored one height below.\<close>

definition linked_at :: "bitcoin_crate \<Rightarrow> header_index \<Rightarrow> stored_header \<Rightarrow> bool" where
  "linked_at L hi s \<longleftrightarrow> sh_height s = 0 \<or>
     (\<exists>p. get_header L hi (prev_blockhash (sh_header s)) = Inr (Some p) \<and>
          sh_height s = sh_height p + 1 \<and> sh_height p < sh_height s)"

definition linked :: "bitcoin_crate \<Rightarrow> header_index \<Rightarrow> bool" where
  "linked L hi \<longleftrightarrow> (\<forall>h s. get_header L hi h = Inr (Some s) \<longrightarrow> linked_at L hi s)"

lemma linked_insert:
  assumes "header_codec_ok L" and "stored_ok s" and "linked L hi"
    and "get_header L hi h = Inr None" and "linked_at L hi s"
  shows "linked L (insert_header L h s hi)"
proof -
  have keep: "linked_at L (insert_header L h s hi) t" if "linked_at L hi t" for t
  proof -
    have "get_header L hi (prev_blockhash (sh_header t)) = Inr (Some p) \<Longrightarrow>
        prev_blockhash (sh_header t) \<noteq> h" for p
      using assms(4) by auto
    with that assms(1,2) show ?thesis by (auto simp: linked_at_def get_header_insert)
  qed
  show ?thesis unfolding linked_def
  proof (intro allI impI)
    fix h' t assume "get_header L (insert_header L h s hi) h' = Inr (Some t)"
    then have "t = s \<or> get_header L hi h' = Inr (Some t)"
      using assms(1,2) by (auto simp: get_header_insert split: if_splits)
    then show "linked_at L (insert_header L h s hi) t"
      using keep assms(3,5) by (auto simp: linked_def)
  qed
qed

lemma linked_parent:
  assumes "linked_at L hi s" and "sh_height s \<noteq> 0"
  obtains p where "get_header L hi (prev_blockhash (sh_header s)) = Inr (Some p)"
    and "sh_height p < sh_height s" and "unat (sh_height s) = Suc (unat (sh_height p))"
proof -
  from assms obtain p where p: "get_header L hi (prev_blockhash (sh_header s)) = Inr (Some p)"
    "sh_height s = sh_height p + 1" "sh_height p < sh_height s"
    unfolding linked_at_def by blast
  have "unat (sh_height p + 1) = Suc (unat (sh_height p))"
    using p(2) assms(2) by (metis add.commute unatSuc)
  with p that show thesis by simp
qed

lemma get_ancestor_loop_exact:
  assumes "linked L hi" and "linked_at L hi s" and "t \<le> sh_height s"
  shows "\<exists>a. get_ancestor_loop L hi s t = Inr (Some a) \<and> sh_height a = t \<and>
           nth_ancestor L hi (unat (sh_height s) - unat t) s = Some a"
  using assms(2,3)
proof (induction "unat (sh_height s)" arbitrary: s rule: less_induct)
  case less
  show ?case
  proof (cases "t < sh_height s")
    case False
    with less.prems(2) have "sh_height s = t" by simp
    with False show ?thesis by (simp add: get_ancestor_loop.simps)
  next
    case True
    then have "sh_height s \<noteq> 0" by auto
    from linked_parent [OF less.prems(1) this] obtain p where
      p: "get_header L hi (prev_blockhash (sh_header s)) = Inr (Some p)" "sh_height p < sh_height s"
        "unat (sh_height s) = Suc (unat (sh_height p))" .
    have tp: "t \<le> sh_height p" using True p(3) by (simp add: word_le_nat_alt word_less_nat_alt)
    have "linked_at L hi p" using assms(1) p(1) by (auto simp: linked_def)
    with less.hyps [of p] p(3) tp obtain a where
      a: "get_ancestor_loop L hi p t = Inr (Some a)" "sh_height a = t"
        "nth_ancestor L hi (unat (sh_height p) - unat t) p = Some a" by auto
    have "unat (sh_height s) - unat t = Suc (unat (sh_height p) - unat t)"
      using tp p(3) by (simp add: word_le_nat_alt Suc_diff_le)
    with a p True show ?thesis by (simp add: get_ancestor_loop.simps [of L hi s])
  qed
qed

section \<open>Restoring a branch\<close>

text \<open>The hash of the \<open>k\<close>-th ancestor of the block \<open>h\<close>.\<close>

fun branch_hash :: "bitcoin_crate \<Rightarrow> header_index \<Rightarrow> nat \<Rightarrow> bytes \<Rightarrow> bytes" where
  "branch_hash L hi 0 h = h"
| "branch_hash L hi (Suc k) h =
     (case get_header L hi h of
        Inr (Some s) \<Rightarrow> branch_hash L hi k (prev_blockhash (sh_header s)) | _ \<Rightarrow> h)"

text \<open>Below a matching entry the height index follows the branch of that entry, and every entry
  reads back.\<close>

definition index_follows :: "bitcoin_crate \<Rightarrow> header_index \<Rightarrow> bool" where
  "index_follows L hi \<longleftrightarrow>
     (\<forall>n. is_ok (get_hash_at_height hi n)) \<and>
     (\<forall>h s. get_header L hi h = Inr (Some s) \<and> get_hash_at_height hi (sh_height s) = Inr (Some h) \<and>
        sh_height s \<noteq> 0 \<longrightarrow>
        get_hash_at_height hi (sh_height s - 1) = Inr (Some (prev_blockhash (sh_header s))))"

definition hashes_ok :: "bitcoin_crate \<Rightarrow> header_index \<Rightarrow> bool" where
  "hashes_ok L hi \<longleftrightarrow> (\<forall>h s. get_header L hi h = Inr (Some s) \<longrightarrow> length h = 32)"

lemma height_pred:
  assumes "unat (n :: u32) = Suc m"
  shows "n - 1 = of_nat m" and "n \<noteq> 0"
proof -
  have "n = of_nat (unat n)" by simp
  then have "n = of_nat (Suc m)" using assms by simp
  then show "n - 1 = of_nat m" by simp
  show "n \<noteq> 0" using assms by auto
qed

lemma of_nat_below:
  assumes "m < unat (n :: u32)"
  shows "(of_nat m :: u32) \<noteq> n"
proof -
  have "m < 2 ^ 32" using assms unsigned_less [of n, where ?'a = nat] by simp
  then have "unat (of_nat m :: u32) = m" by (simp add: unsigned_of_nat take_bit_nat_eq_self)
  with assms show ?thesis by auto
qed

lemma index_follows_branch:
  assumes "linked L hi" and "index_follows L hi" and "get_header L hi h = Inr (Some s)"
    and "get_hash_at_height hi (sh_height s) = Inr (Some h)" and "k \<le> unat (sh_height s)"
  shows "get_hash_at_height hi (of_nat (unat (sh_height s) - k)) = Inr (Some (branch_hash L hi k h))"
  using assms(3-5)
proof (induction k arbitrary: h s)
  case 0
  then show ?case by simp
next
  case (Suc k)
  then have nz: "sh_height s \<noteq> 0" by auto
  have "linked_at L hi s" using assms(1) Suc.prems(1) by (auto simp: linked_def)
  from linked_parent [OF this nz] obtain p where
    p: "get_header L hi (prev_blockhash (sh_header s)) = Inr (Some p)"
      "unat (sh_height s) = Suc (unat (sh_height p))" by metis
  have "sh_height s - 1 = sh_height p" using height_pred(1) [OF p(2)] by simp
  moreover have "get_hash_at_height hi (sh_height s - 1) = Inr (Some (prev_blockhash (sh_header s)))"
    using assms(2) Suc.prems(1,2) nz unfolding index_follows_def by blast
  ultimately have "get_hash_at_height hi (of_nat (unat (sh_height p) - k))
      = Inr (Some (branch_hash L hi k (prev_blockhash (sh_header s))))"
    using p Suc.prems(3) by (intro Suc.IH) auto
  with p(2) Suc.prems(1) show ?case by simp
qed

text \<open>What a batch of height writes reads as.\<close>

definition batch_read :: "(u32 \<times> bytes) list \<Rightarrow> header_index \<Rightarrow> u32 \<Rightarrow> storage_error + bytes option" where
  "batch_read batch hi n =
     (case map_of (rev batch) n of Some x \<Rightarrow> bindE (hash_from_bytes x) (\<lambda>h. Inr (Some h))
      | None \<Rightarrow> get_hash_at_height hi n)"

lemma get_hash_write_heights: "get_hash_at_height (write_heights batch hi) n = batch_read batch hi n"
proof -
  have "map_of (rev (map (\<lambda>(h, x). (u32_to_be h, x)) batch)) (u32_to_be n) = map_of (rev batch) n"
    by (induction batch rule: rev_induct) (auto simp: rev_map)
  then show ?thesis
    by (simp add: get_hash_at_height_def write_heights_def read_cf_def batch_read_def
        cf_map.get_put_batch split: option.split)
qed

lemma restore_branch_loop_correct:
  assumes "linked L hi" and "index_follows L hi" and "hashes_ok L hi"
    and "get_header L hi h = Inr (Some s)"
  shows "\<exists>bs. restore_branch_loop L hi h s batch = Inr (batch @ bs) \<and>
           (\<forall>e\<in>set bs. fst e \<le> sh_height s) \<and>
           (\<forall>k\<le>unat (sh_height s). batch_read bs hi (of_nat (unat (sh_height s) - k))
               = Inr (Some (branch_hash L hi k h)))"
  using assms(4)
proof (induction "unat (sh_height s)" arbitrary: h s batch rule: less_induct)
  case less
  have l32: "length h = 32" using assms(3) less.prems by (auto simp: hashes_ok_def)
  obtain r where r: "get_hash_at_height hi (sh_height s) = Inr r"
    using assms(2) unfolding index_follows_def by (metis is_ok_simps(2) obj_sumE)
  show ?case
  proof (cases "r = Some h")
    case True
    then show ?thesis
      using index_follows_branch [OF assms(1,2) less.prems] r
      by (intro exI [of _ "[]"]) (simp add: restore_branch_loop.simps [of L hi h s] batch_read_def)
  next
    case False
    show ?thesis
    proof (cases "sh_height s = 0")
      case True
      with r False l32 show ?thesis
        by (intro exI [of _ "[(sh_height s, h)]"])
          (simp add: restore_branch_loop.simps [of L hi h s] batch_read_def hash_from_bytes_def)
    next
      case nz: False
      have "linked_at L hi s" using assms(1) less.prems by (auto simp: linked_def)
      from linked_parent [OF this nz] obtain p where
        p: "get_header L hi (prev_blockhash (sh_header s)) = Inr (Some p)"
          "sh_height p < sh_height s" "unat (sh_height s) = Suc (unat (sh_height p))" .
      let ?b = "batch @ [(sh_height s, h)]" and ?ph = "prev_blockhash (sh_header s)"
      from less.hyps [of p ?ph ?b] p obtain bs where
        bs: "restore_branch_loop L hi ?ph p ?b = Inr (?b @ bs)" "\<forall>e\<in>set bs. fst e \<le> sh_height p"
          "\<forall>k\<le>unat (sh_height p). batch_read bs hi (of_nat (unat (sh_height p) - k))
             = Inr (Some (branch_hash L hi k ?ph))" by auto
      have step: "restore_branch_loop L hi h s batch = restore_branch_loop L hi ?ph p ?b"
        using r False nz p by (simp add: restore_branch_loop.simps [of L hi h s] Let_def)
      have ub: "map_of (rev bs) (sh_height s) = None"
        using bs(2) p(2) by (auto simp: map_of_eq_None_iff)
      have other: "x \<noteq> sh_height s \<Longrightarrow> batch_read ((sh_height s, h) # bs) hi x = batch_read bs hi x" for x
        by (simp add: batch_read_def map_add_def split: option.split)
      have "batch_read ((sh_height s, h) # bs) hi (of_nat (unat (sh_height s) - k))
          = Inr (Some (branch_hash L hi k h))" if k: "k \<le> unat (sh_height s)" for k
      proof (cases k)
        case 0
        with ub l32 show ?thesis
          by (simp add: batch_read_def map_add_def hash_from_bytes_def)
      next
        case (Suc j)
        have lt: "unat (sh_height s) - k < unat (sh_height s)" using Suc p(3) by simp
        then have ne: "(of_nat (unat (sh_height s) - k) :: u32) \<noteq> sh_height s"
          by (rule of_nat_below)
        have "j \<le> unat (sh_height p)" using k Suc p(3) by simp
        with bs(3) have "batch_read bs hi (of_nat (unat (sh_height p) - j))
            = Inr (Some (branch_hash L hi j ?ph))" by blast
        moreover have "unat (sh_height p) - j = unat (sh_height s) - k" using Suc p(3) by simp
        ultimately show ?thesis using other [OF ne] Suc less.prems by simp
      qed
      moreover have "\<forall>e\<in>set ((sh_height s, h) # bs). fst e \<le> sh_height s"
        using bs(2) p(2) by auto
      ultimately show ?thesis
        using bs(1) by (intro exI [of _ "(sh_height s, h) # bs"]) (simp add: step)
    qed
  qed
qed

section \<open>Invalid markers\<close>

text \<open>The set in memory is the key set of the markers on disk, whose entries are well-formed.\<close>

definition markers_ok :: "header_index \<Rightarrow> bool" where
  "markers_ok hi \<longleftrightarrow>
     set (invalid_set hi) = fst ` set (cf_invalid hi) \<and> distinct (invalid_set hi) \<and>
     (\<forall>e\<in>set (cf_invalid hi). length (fst e) = 32 \<and> length (snd e) = 5)"

lemma set_put_sorted: "set (put_sorted k v m) \<subseteq> insert (k, v) (set m)"
  by (induction m) (auto split: ordering.splits)

lemma mark_invalid_ok: "markers_ok hi \<Longrightarrow> length h = 32 \<Longrightarrow> markers_ok (mark_invalid h n r hi)"
  using set_put_sorted [of h "r # u32_to_le n" "cf_invalid hi"]
  by (auto simp: markers_ok_def mark_invalid_def distinct_insert)

lemma clear_invalid_ok: "markers_ok hi \<Longrightarrow> markers_ok (clear_invalid h hi)"
  by (auto simp: markers_ok_def clear_invalid_def Let_def distinct_removeAll delete_sorted_def)

lemma delete_all_sorted:
  "set (fold (\<lambda>(k, _). delete_sorted k) es m) = {e \<in> set m. fst e \<notin> fst ` set es}"
  by (induction es arbitrary: m) (auto simp: delete_sorted_def)

lemma clear_all_invalid_empty: "cf_invalid (clear_all_invalid hi) = []"
proof -
  have "set (cf_invalid (clear_all_invalid hi)) = {}"
    unfolding clear_all_invalid_def by (simp add: delete_all_sorted)
  then show ?thesis by simp
qed

lemma clear_all_invalid_ok: "markers_ok (clear_all_invalid hi)"
  by (simp add: markers_ok_def clear_all_invalid_empty) (simp add: clear_all_invalid_def)

lemma load_invalid_loop:
  assumes "\<forall>e\<in>set es. length (fst e) = 32"
  shows "\<exists>xs. foldE (\<lambda>set (key, _). bindE (hash_from_bytes key) (\<lambda>h. Inr (List.insert h set))) acc es
           = Inr xs \<and> set xs = set acc \<union> fst ` set es \<and> (distinct acc \<longrightarrow> distinct xs)"
  using assms
proof (induction es arbitrary: acc)
  case (Cons e es)
  obtain k v where e: "e = (k, v)" by (cases e)
  with Cons.prems have "hash_from_bytes k = Inr k" by (simp add: hash_from_bytes_def)
  with Cons.IH [of "List.insert k acc"] Cons.prems show ?case
    by (auto simp: e distinct_insert)
qed simp

lemma get_invalid_mark:
  "get_invalid (mark_invalid h n r hi) h' =
     (if h' = h then Inr (Some (n, r)) else get_invalid hi h')"
  by (simp add: get_invalid_def mark_invalid_def read_cf_def decode_marker_def)

section \<open>Finding an invalid ancestor\<close>

text \<open>The invalid blocks among the first \<open>n\<close> blocks of a branch, the lowest last.\<close>

fun invalid_on_branch :: "bitcoin_crate \<Rightarrow> header_index \<Rightarrow> nat \<Rightarrow> bytes \<Rightarrow> (bytes \<times> u32) list" where
  "invalid_on_branch L hi 0 h = []"
| "invalid_on_branch L hi (Suc n) h =
     (case get_header L hi h of
        Inr (Some s) \<Rightarrow>
          (if is_invalid hi h then [(h, sh_height s)] else []) @
          (if sh_height s = 0 then [] else invalid_on_branch L hi n (prev_blockhash (sh_header s)))
      | _ \<Rightarrow> [])"

text \<open>A canonical block at or below the validated height has no invalid ancestor.\<close>

definition canonical_clean :: "bitcoin_crate \<Rightarrow> header_index \<Rightarrow> u32 \<Rightarrow> bool" where
  "canonical_clean L hi v \<longleftrightarrow>
     (\<forall>h s n. get_header L hi h = Inr (Some s) \<and> sh_height s \<le> v \<and>
        get_hash_at_height hi (sh_height s) = Inr (Some h) \<longrightarrow> invalid_on_branch L hi n h = [])"

lemma first_invalid_walk_correct:
  assumes "\<forall>n. is_ok (get_hash_at_height hi n)" and "canonical_clean L hi v" and "linked L hi"
    and "get_header L hi h = Inr (Some s)" and "unat (sh_height s) < n"
  shows "first_invalid_walk L hi v n h found =
     Inr (if invalid_on_branch L hi n h = [] then found else Some (last (invalid_on_branch L hi n h)))"
  using assms(4,5)
proof (induction n arbitrary: h s found)
  case (Suc n)
  define found' where
    "found' = (if is_invalid hi h then Some (h, sh_height s) else found)"
  define cont where "cont = (if sh_height s = 0 then Inr found'
     else first_invalid_walk L hi v n (prev_blockhash (sh_header s)) found')"
  have cont: "cont = Inr (if invalid_on_branch L hi (Suc n) h = [] then found
      else Some (last (invalid_on_branch L hi (Suc n) h)))"
  proof (cases "sh_height s = 0")
    case True
    then show ?thesis using Suc.prems by (simp add: cont_def found'_def)
  next
    case False
    have "linked_at L hi s" using assms(3) Suc.prems(1) by (auto simp: linked_def)
    from linked_parent [OF this False] obtain p where
      "get_header L hi (prev_blockhash (sh_header s)) = Inr (Some p)"
      "unat (sh_height s) = Suc (unat (sh_height p))" by metis
    with Suc.IH [of "prev_blockhash (sh_header s)" p found'] Suc.prems False show ?thesis
      by (simp add: cont_def found'_def)
  qed
  obtain r where r: "get_hash_at_height hi (sh_height s) = Inr r"
    using assms(1) by (metis is_ok_simps(2) obj_sumE)
  show ?case
  proof (cases "sh_height s \<le> v \<and> r = Some h")
    case True
    then have clean: "invalid_on_branch L hi (Suc n) h = []"
      using assms(2) Suc.prems(1) r unfolding canonical_clean_def by blast
    then have "\<not> is_invalid hi h" using Suc.prems(1) by (auto split: if_splits)
    with True r Suc.prems(1) clean show ?thesis by (simp add: found'_def)
  next
    case False
    then have "first_invalid_walk L hi v (Suc n) h found = cont"
      using Suc.prems(1) r by (auto simp: cont_def found'_def Let_def split: option.split)
    with cont show ?thesis by simp
  qed
qed simp

text \<open>The operations on markers that the node performs, as a run over the index.\<close>

datatype marker_op = Mark bytes u32 u8 | Clear bytes | ClearAll

fun marker_step :: "marker_op \<Rightarrow> header_index \<Rightarrow> header_index" where
  "marker_step (Mark h n r) hi = mark_invalid h n r hi"
| "marker_step (Clear h) hi = clear_invalid h hi"
| "marker_step ClearAll hi = clear_all_invalid hi"

fun marker_op_ok :: "marker_op \<Rightarrow> bool" where
  "marker_op_ok (Mark h n r) = (length h = 32)"
| "marker_op_ok _ = True"

lemma marker_run_ok:
  "markers_ok hi \<Longrightarrow> list_all marker_op_ok ops \<Longrightarrow> markers_ok (fold marker_step ops hi)"
proof (induction ops arbitrary: hi)
  case (Cons op ops)
  then have "markers_ok (marker_step op hi)"
    by (cases op) (auto simp: mark_invalid_ok clear_invalid_ok clear_all_invalid_ok)
  with Cons show ?case by simp
qed simp

section \<open>A small index\<close>

definition demo_stored :: "nat \<Rightarrow> stored_header" where
  "demo_stored n =
     \<lparr>sh_header = \<lparr>hdr_version = 1, prev_blockhash = to_le 32 (n + 9), hdr_merkle_root = replicate 32 0,
                  hdr_time = of_nat (1000 + 600 * n), hdr_bits = 1, hdr_nonce = of_nat n\<rparr>,
      sh_height = of_nat n, sh_chain_work = to_be 32 (n + 1)\<rparr>"

definition empty_index :: header_index where
  "empty_index = \<lparr>cf_headers = Map.empty, cf_height_index = Map.empty, cf_meta = Map.empty,
     cf_block_pos = Map.empty, cf_invalid = [], invalid_set = [], invalid_generation = 0\<rparr>"

definition demo_index :: header_index where
  "demo_index = insert_header demo_crate (to_le 32 12) (demo_stored 2)
     (insert_header demo_crate (to_le 32 11) (demo_stored 1)
       (insert_header demo_crate (to_le 32 10) (demo_stored 0) empty_index))"

lemma demo_stored_ok [simp]: "stored_ok (demo_stored n)"
  by (simp add: demo_stored_def stored_ok_def header_ok_def)

lemma demo_stored_sel [simp]:
  "sh_height (demo_stored n) = of_nat n"
  "prev_blockhash (sh_header (demo_stored n)) = to_le 32 (n + 9)"
  by (simp_all add: demo_stored_def)

lemma get_header_empty [simp]: "get_header L empty_index h = Inr None"
  by (simp add: get_header_def empty_index_def read_cf_def)

lemma get_hash_empty [simp]: "get_hash_at_height empty_index n = Inr None"
  by (simp add: get_hash_at_height_def empty_index_def read_cf_def)

lemma demo_get_header:
  "get_header demo_crate demo_index h =
     (if h = to_le 32 12 then Inr (Some (demo_stored 2))
      else if h = to_le 32 11 then Inr (Some (demo_stored 1))
      else if h = to_le 32 10 then Inr (Some (demo_stored 0)) else Inr None)"
  by (simp add: demo_index_def get_header_insert demo_header_codec)

lemma demo_get_hash:
  "get_hash_at_height demo_index n =
     (if n = 2 then Inr (Some (to_le 32 12)) else if n = 1 then Inr (Some (to_le 32 11))
      else if n = 0 then Inr (Some (to_le 32 10)) else Inr None)"
  by (simp add: demo_index_def get_hash_insert)

lemma demo_linked: "linked demo_crate demo_index"
  by (auto simp: linked_def linked_at_def demo_get_header to_le_inject split: if_splits)

lemma demo_follows: "index_follows demo_crate demo_index"
  by (auto simp: index_follows_def demo_get_header demo_get_hash to_le_inject split: if_splits)

lemma demo_hashes: "hashes_ok demo_crate demo_index"
  by (auto simp: hashes_ok_def demo_get_header split: if_splits)

section \<open>Properties\<close>

text \<open>
  a header that is inserted is read back exactly, by its hash and through the height index, and
  the insertion changes nothing else; this relies on the crate's header encoding being an 80-byte
  code that decoding inverts.
\<close>
theorem header_store_roundtrip:
  assumes "header_codec_ok L" and "stored_ok s" and "length h = 32"
  shows "get_header L (insert_header L h s hi) h' =
           (if h' = h then Inr (Some s) else get_header L hi h')
       \<and> get_hash_at_height (insert_header L h s hi) n =
           (if n = sh_height s then Inr (Some h) else get_hash_at_height hi n)"
  using assms by (simp add: get_header_insert get_hash_insert)

theorem header_store_roundtrip_witness:
  "get_header demo_crate (insert_header demo_crate (to_le 32 10) (demo_stored 0) empty_index) (to_le 32 10)
     = Inr (Some (demo_stored 0))"
  using header_store_roundtrip [of demo_crate "demo_stored 0" "to_le 32 10" empty_index "to_le 32 10"]
    demo_header_codec by simp

text \<open>
  C37: \<^verbatim>\<open>get_ancestor\<close> terminates on every index; on a linked one it returns, for every height up to the
  starting block's, the header at exactly that height that is reached from the starting block by its
  own parent links, whatever the height index says.
\<close>
theorem get_ancestor_exact:
  assumes "linked L hi" and "get_header L hi h = Inr (Some s)" and "t \<le> sh_height s"
  shows "\<exists>a. get_ancestor L hi h t = Inr (Some a) \<and> sh_height a = t \<and>
           nth_ancestor L hi (unat (sh_height s) - unat t) s = Some a"
proof -
  have "linked_at L hi s" using assms(1,2) by (auto simp: linked_def)
  from get_ancestor_loop_exact [OF assms(1) this assms(3)] assms(2,3) show ?thesis
    by (auto simp: get_ancestor_def)
qed

theorem get_ancestor_exact_witness:
  "\<exists>a. get_ancestor demo_crate demo_index (to_le 32 12) 0 = Inr (Some a) \<and> sh_height a = 0"
  using get_ancestor_exact [OF demo_linked, of "to_le 32 12" "demo_stored 2" 0]
  by (auto simp: demo_get_header)

text \<open>
  C38: after \<^verbatim>\<open>restore_branch_height_index\<close> on a known tip the height index maps every height from
  the tip down to genesis to the block of the tip's own branch, and heights above the tip are as
  before; the operation does not fail.
\<close>
theorem restore_branch_canonical:
  assumes "linked L hi" and "index_follows L hi" and "hashes_ok L hi"
    and "get_header L hi tip = Inr (Some s)"
  shows "\<exists>n hi'. restore_branch_height_index L hi tip = Inr ((sh_height s, n), hi') \<and>
     (\<forall>k\<le>unat (sh_height s). get_hash_at_height hi' (of_nat (unat (sh_height s) - k))
        = Inr (Some (branch_hash L hi k tip))) \<and>
     (\<forall>m>sh_height s. get_hash_at_height hi' m = get_hash_at_height hi m)"
proof -
  from restore_branch_loop_correct [OF assms, of "[]"] obtain bs where
    bs: "restore_branch_loop L hi tip s [] = Inr bs" "\<forall>e\<in>set bs. fst e \<le> sh_height s"
      "\<forall>k\<le>unat (sh_height s). batch_read bs hi (of_nat (unat (sh_height s) - k))
         = Inr (Some (branch_hash L hi k tip))" by auto
  have "batch_read bs hi m = get_hash_at_height hi m" if "sh_height s < m" for m
  proof -
    have "map_of (rev bs) m = None" using bs(2) that by (auto simp: map_of_eq_None_iff)
    then show ?thesis by (simp add: batch_read_def)
  qed
  with bs assms(4) show ?thesis
    by (simp add: restore_branch_height_index_def get_hash_write_heights)
qed

theorem restore_branch_canonical_witness:
  "\<exists>n hi'. restore_branch_height_index demo_crate demo_index (to_le 32 12) = Inr ((2, n), hi') \<and>
     get_hash_at_height hi' 2 = Inr (Some (to_le 32 12))"
  using restore_branch_canonical [OF demo_linked demo_follows demo_hashes, of "to_le 32 12" "demo_stored 2"]
  by (force simp: demo_get_header)

text \<open>
  C40: however blocks are marked and cleared, the set of invalid hashes in memory is exactly the set of
  hashes marked on disk, and reloading it from disk after a restart gives the same set; a mark is
  read back with its height and reason.
\<close>
theorem invalid_markers_mirror_disk:
  assumes "list_all marker_op_ok ops"
  defines "hi \<equiv> fold marker_step ops empty_index"
  shows "(is_invalid hi h \<longleftrightarrow> h \<in> fst ` set (cf_invalid hi))
       \<and> (\<exists>hi'. load_invalid_set (hi\<lparr>invalid_set := []\<rparr>) = Inr hi' \<and>
               set (invalid_set hi') = set (invalid_set hi))
       \<and> get_invalid (mark_invalid h n r hi) h = Inr (Some (n, r))"
proof -
  have "markers_ok empty_index" by (simp add: markers_ok_def empty_index_def)
  then have ok: "markers_ok hi" unfolding hi_def using assms(1) by (rule marker_run_ok)
  then have "\<forall>e\<in>set (cf_invalid hi). length (fst e) = 32" by (simp add: markers_ok_def)
  from load_invalid_loop [OF this, of "[]"] ok show ?thesis
    by (auto simp: is_invalid_def markers_ok_def load_invalid_set_def get_invalid_mark)
qed

theorem invalid_markers_mirror_disk_witness:
  "\<exists>hi'. load_invalid_set ((fold marker_step [Mark (to_le 32 7) 5 2, Mark (to_le 32 3) 6 1, Clear (to_le 32 7)]
       empty_index)\<lparr>invalid_set := []\<rparr>) = Inr hi' \<and> set (invalid_set hi') = {to_le 32 3}"
  using invalid_markers_mirror_disk
    [of "[Mark (to_le 32 7) 5 2, Mark (to_le 32 3) 6 1, Clear (to_le 32 7)]"]
  by (simp add: mark_invalid_def clear_invalid_def empty_index_def to_le_inject insert_Diff_if)



end
