(* ===== verification/Difficulty.thy ===== *)
theory Difficulty
  imports Header_Chain Consensus_Params
begin

text \<open>
  Difficulty adjustment of \<^verbatim>\<open>bitcoinpr-core/src/validation.rs\<close>: the 256-bit multiply-and-divide on
  64-bit limbs, the retarget computation, and the choice of the required \<^verbatim>\<open>nBits\<close> of the next block.
  Timestamps are subtracted in signed 64-bit arithmetic, which \<open>int\<close> covers without overflow.
\<close>

section \<open>The code\<close>

type_synonym u128 = "128 word"

definition target_limbs :: "bytes \<Rightarrow> u64 list" where
  "target_limbs target =
     map (\<lambda>i. of_nat (be_val (take 8 (drop (32 - (i + 1) * 8) target)))) [0..<4]"

fun mul_limbs :: "u64 list \<Rightarrow> u64 \<Rightarrow> u128 \<Rightarrow> u64 list" where
  "mul_limbs [] numerator carry = []"
| "mul_limbs (limb # limbs) numerator carry =
     (let product = ucast limb * ucast numerator + carry
      in ucast product # mul_limbs limbs numerator (drop_bit 64 product))"

text \<open>The division runs from the most significant limb.\<close>

fun div_limbs :: "u64 list \<Rightarrow> u64 \<Rightarrow> u128 \<Rightarrow> u64 list" where
  "div_limbs [] denominator remainder = []"
| "div_limbs (limb # limbs) denominator remainder =
     (let dividend = or (push_bit 64 remainder) (ucast limb)
      in ucast (dividend div ucast denominator)
           # div_limbs limbs denominator (dividend mod ucast denominator))"

definition multiply_target_by_ratio :: "bytes \<Rightarrow> u64 \<Rightarrow> u64 \<Rightarrow> bytes" where
  "multiply_target_by_ratio target numerator denominator =
     (let limbs = mul_limbs (target_limbs target) numerator 0;
          limbs' = rev (div_limbs (rev limbs) denominator 0)
      in concat (map (\<lambda>limb. to_be 8 (unat limb)) (rev limbs')))"

definition clamp :: "int \<Rightarrow> int \<Rightarrow> int \<Rightarrow> int" where
  "clamp x lo hi = (if x < lo then lo else if hi < x then hi else x)"

definition calculate_next_work_required ::
  "bitcoin_crate \<Rightarrow> block_header \<Rightarrow> block_header \<Rightarrow> consensus_params \<Rightarrow> u32"
where
  "calculate_next_work_required L last_retarget_header current_header p =
     (if pow_no_retargeting p then hdr_bits current_header
      else
        (let min_timespan = pow_target_timespan p div 4;
             max_timespan = pow_target_timespan p * 4;
             actual_timespan = word_of_int
               (clamp (uint (hdr_time current_header) - uint (hdr_time last_retarget_header))
                  (sint min_timespan) (sint max_timespan));
             new_target = multiply_target_by_ratio (target_from_compact L (hdr_bits current_header))
               actual_timespan (pow_target_timespan p);
             final_target = (if bytes_cmp new_target (pow_limit p) = Greater then pow_limit p
                             else new_target)
         in to_compact_lossy L final_target))"

text \<open>The scan of the testnet rule has no guard on heights: on a corrupt index it may run forever,
  which is the value \<open>None\<close>.\<close>

partial_function (option) min_difficulty_scan ::
  "(bytes \<Rightarrow> stored_header option) \<Rightarrow> u32 \<Rightarrow> u32 \<Rightarrow> stored_header \<Rightarrow> stored_header option"
where
  "min_difficulty_scan lookup interval pow_limit_bits scan =
     (if sh_height scan mod interval \<noteq> 0 \<and> hdr_bits (sh_header scan) = pow_limit_bits
      then (case lookup (prev_blockhash (sh_header scan)) of
              Some h \<Rightarrow> min_difficulty_scan lookup interval pow_limit_bits h
            | None \<Rightarrow> Some scan)
      else Some scan)"

function period_start_walk ::
  "(bytes \<Rightarrow> stored_header option) \<Rightarrow> u32 \<Rightarrow> stored_header \<Rightarrow> stored_header option"
where
  "period_start_walk lookup period_start_height start =
     (if period_start_height < sh_height start then
        (case lookup (prev_blockhash (sh_header start)) of
           Some parent \<Rightarrow>
             if sh_height parent < sh_height start
             then period_start_walk lookup period_start_height parent else None
         | None \<Rightarrow> None)
      else Some start)"
  by pat_completeness auto
termination
  by (relation "measure (\<lambda>(lookup, h, start). unat (sh_height start))")
    (auto simp: word_less_nat_alt)

declare period_start_walk.simps [simp del]

text \<open>The outer \<open>None\<close> is non-termination, the inner one the missing-ancestor result of the code.\<close>

definition get_next_work_required_with ::
  "bitcoin_crate \<Rightarrow> (bytes \<Rightarrow> stored_header option) \<Rightarrow> consensus_params \<Rightarrow> bytes \<Rightarrow> u32 \<Rightarrow> u32
     \<Rightarrow> u32 option option"
where
  "get_next_work_required_with L lookup p prev_hash prev_height candidate_time =
     (case lookup prev_hash of
        None \<Rightarrow> Some None
      | Some prev \<Rightarrow>
          (let next_height = prev_height + 1; interval = difficulty_adjustment_interval p
           in if pow_no_retargeting p then Some (Some (hdr_bits (sh_header prev)))
              else if next_height mod interval \<noteq> 0 then
                (if pow_allow_min_difficulty_blocks p then
                   (let pow_limit_bits = to_compact_lossy L (pow_limit p)
                    in if hdr_time (sh_header prev) + ucast (pow_target_spacing p) * 2 < candidate_time
                       then Some (Some pow_limit_bits)
                       else map_option (\<lambda>scan. Some (hdr_bits (sh_header scan)))
                              (min_difficulty_scan lookup interval pow_limit_bits prev))
                 else Some (Some (hdr_bits (sh_header prev))))
              else
                (let period_start_height = next_height - interval
                 in case period_start_walk lookup period_start_height prev of
                      None \<Rightarrow> Some None
                    | Some start \<Rightarrow>
                        if sh_height start \<noteq> period_start_height then Some None
                        else Some (Some (calculate_next_work_required L (sh_header start)
                                           (sh_header prev) p)))))"

definition get_next_work_required ::
  "bitcoin_crate \<Rightarrow> header_index \<Rightarrow> consensus_params \<Rightarrow> bytes \<Rightarrow> u32 \<Rightarrow> u32 \<Rightarrow> u32 option option"
where
  "get_next_work_required L hi p prev_hash prev_height candidate_time =
     get_next_work_required_with L (\<lambda>h. ok_flatten (get_header L hi h)) p prev_hash prev_height
       candidate_time"

section \<open>The limb arithmetic is exact\<close>

fun limbs_val :: "u64 list \<Rightarrow> nat" where
  "limbs_val [] = 0"
| "limbs_val (l # ls) = unat l + 2 ^ 64 * limbs_val ls"

lemma unat_u64_lt: "unat (w :: u64) < 2 ^ 64"
  using unsigned_less [of w, where ?'a = nat] by simp

lemma unat_ucast128: "unat (ucast (w :: u64) :: u128) = unat w"
proof -
  have "(2 :: nat) ^ 64 \<le> 2 ^ 128" by (intro power_increasing) auto
  then have "unat w < 2 ^ 128" using unat_u64_lt [of w] by linarith
  then show ?thesis by (simp add: unsigned_ucast_eq take_bit_nat_eq_self)
qed

lemma unat_ucast64: "unat (ucast (w :: u128) :: u64) = unat w mod 2 ^ 64"
  by (simp add: unsigned_ucast_eq take_bit_eq_mod)

lemma unat_drop64: "unat (drop_bit 64 (w :: u128)) = unat w div 2 ^ 64"
  using unsigned_less [of w, where ?'a = nat]
  by (simp add: unsigned_drop_bit_eq drop_bit_eq_div [where 'a = nat] take_bit_nat_eq_self)

lemma unat_product:
  assumes "unat (carry :: u128) < 2 ^ 64"
  shows "unat (ucast (limb :: u64) * ucast (n :: u64) + carry) = unat limb * unat n + unat carry"
proof -
  have "unat limb * unat n \<le> (2 ^ 64 - 1) * (2 ^ 64 - 1)"
    using unat_u64_lt [of limb] unat_u64_lt [of n] by (intro mult_le_mono) linarith+
  then have b: "unat limb * unat n + unat carry < 2 ^ 128" using assms by simp
  have "unat (ucast limb * ucast n :: u128) = unat limb * unat n"
    using b by (subst unat_word_ariths(2)) (simp add: unat_ucast128)
  then show ?thesis using b by (subst unat_word_ariths(1)) simp
qed

lemma mul_limbs_value:
  assumes "unat c < 2 ^ 64"
  shows "limbs_val (mul_limbs ls n c) = (limbs_val ls * unat n + unat c) mod 2 ^ (64 * length ls)
       \<and> length (mul_limbs ls n c) = length ls"
  using assms
proof (induction ls arbitrary: c)
  case (Cons l ls)
  define x where "x = ucast l * ucast n + c"
  have x: "unat x = unat l * unat n + unat c" unfolding x_def by (rule unat_product [OF Cons.prems])
  have "unat x < 2 ^ 64 * 2 ^ 64" using unsigned_less [of x, where ?'a = nat] by simp
  then have c': "unat (drop_bit 64 x) < 2 ^ 64"
    unfolding unat_drop64 by (rule less_mult_imp_div_less)
  define v where "v = limbs_val ls * unat n + unat x div 2 ^ 64"
  have IH: "limbs_val (mul_limbs ls n (drop_bit 64 x)) = v mod 2 ^ (64 * length ls)"
    "length (mul_limbs ls n (drop_bit 64 x)) = length ls"
    using Cons.IH [OF c'] by (simp_all add: v_def unat_drop64)
  have p: "(2 :: nat) ^ (64 * length (l # ls)) = 2 ^ 64 * 2 ^ (64 * length ls)"
    by (simp add: power_add)
  have "limbs_val (l # ls) * unat n + unat c = unat x mod 2 ^ 64 + 2 ^ 64 * v"
  proof -
    have "unat x mod 2 ^ 64 + 2 ^ 64 * (unat x div 2 ^ 64) = unat x" by (rule mod_mult_div_eq)
    then show ?thesis using x by (simp add: v_def algebra_simps)
  qed
  moreover have "(unat x mod 2 ^ 64 + 2 ^ 64 * v) mod (2 ^ 64 * 2 ^ (64 * length ls))
      = unat x mod 2 ^ 64 + 2 ^ 64 * (v mod 2 ^ (64 * length ls))"
  proof -
    have "(unat x mod 2 ^ 64 + 2 ^ 64 * v) div 2 ^ 64 = v"
      "(unat x mod 2 ^ 64 + 2 ^ 64 * v) mod 2 ^ 64 = unat x mod 2 ^ 64" by simp_all
    then show ?thesis by (simp only: mod_mult2_eq add.commute)
  qed
  moreover have "limbs_val (mul_limbs (l # ls) n c)
      = unat x mod 2 ^ 64 + 2 ^ 64 * (v mod 2 ^ (64 * length ls))"
    using IH(1) by (simp add: Let_def unat_ucast64 flip: x_def)
  ultimately show ?case using IH(2) p by (simp add: Let_def flip: x_def)
qed simp

fun msb_val :: "u64 list \<Rightarrow> nat" where
  "msb_val [] = 0"
| "msb_val (l # ls) = unat l * 2 ^ (64 * length ls) + msb_val ls"

lemma limbs_val_append: "limbs_val (xs @ ys) = limbs_val xs + 2 ^ (64 * length xs) * limbs_val ys"
  by (induction xs) (simp_all add: power_add algebra_simps)

lemma limbs_val_rev: "limbs_val (rev ls) = msb_val ls"
  by (induction ls) (simp_all add: limbs_val_append)

lemma nat_or_shift: "l < 2 ^ n \<Longrightarrow> or (push_bit n r) l = r * 2 ^ n + (l :: nat)"
proof -
  assume "l < 2 ^ n"
  then have "l = take_bit n l" by (simp add: take_bit_nat_eq_self)
  then have "bit l i \<Longrightarrow> i < n" for i by (metis bit_take_bit_iff)
  note low = this
  have "and (push_bit n r) l = 0"
    by (intro bit_eqI) (auto simp: bit_and_iff bit_push_bit_iff dest: low)
  then have "push_bit n r + l = or (push_bit n r) l" by (rule disjunctive_add_eq_or)
  then show ?thesis by (simp add: push_bit_eq_mult)
qed

lemma unat_dividend:
  assumes "unat (r :: u128) < 2 ^ 64"
  shows "unat (or (push_bit 64 r) (ucast (l :: u64))) = unat r * 2 ^ 64 + unat l"
proof -
  have "unat r * 2 ^ 64 < 2 ^ 64 * 2 ^ 64" using assms by simp
  then have "push_bit 64 (unat r) < 2 ^ 128" by (simp add: push_bit_eq_mult)
  then have "unat (push_bit 64 r) = push_bit 64 (unat r)"
    by (simp only: unsigned_push_bit_eq) (simp add: take_bit_nat_eq_self)
  then show ?thesis by (simp only: unsigned_or_eq unat_ucast128 nat_or_shift [OF unat_u64_lt])
qed

lemma div_limbs_value:
  assumes "unat r < unat d"
  shows "msb_val (div_limbs ls d r) = (unat r * 2 ^ (64 * length ls) + msb_val ls) div unat d
       \<and> length (div_limbs ls d r) = length ls"
  using assms
proof (induction ls arbitrary: r)
  case (Cons l ls)
  let ?d = "unat d" and ?B = "2 ^ (64 * length ls) :: nat"
  define x where "x = or (push_bit 64 r) (ucast l)"
  have r: "unat r < 2 ^ 64" using Cons.prems unat_u64_lt [of d] by linarith
  have x: "unat x = unat r * 2 ^ 64 + unat l" unfolding x_def by (rule unat_dividend [OF r])
  have dm: "unat (x div ucast d) = unat x div ?d" "unat (x mod ucast d) = unat x mod ?d"
    by (simp_all add: unat_div unat_mod unat_ucast128)
  have "unat x < ?d * 2 ^ 64"
  proof -
    have "(unat r + 1) * 2 ^ 64 \<le> ?d * 2 ^ 64" using Cons.prems by (intro mult_le_mono1) simp
    then show ?thesis using x unat_u64_lt [of l] by (simp add: distrib_right)
  qed
  then have "unat x div ?d < 2 ^ 64"
    by (intro less_mult_imp_div_less) (simp add: mult.commute)
  then have q: "unat (ucast (x div ucast d) :: u64) = unat x div ?d"
    by (simp add: unat_ucast64 dm)
  have pos: "0 < ?d" using Cons.prems by simp
  have IH: "msb_val (div_limbs ls d (x mod ucast d)) = (unat x mod ?d * ?B + msb_val ls) div ?d"
    "length (div_limbs ls d (x mod ucast d)) = length ls"
    using Cons.IH [of "x mod ucast d"] pos by (simp_all add: dm)
  have "unat r * 2 ^ (64 * length (l # ls)) + msb_val (l # ls) = unat x * ?B + msb_val ls"
    by (simp add: x power_add algebra_simps)
  also have "\<dots> = (unat x div ?d * ?d + unat x mod ?d) * ?B + msb_val ls"
    by (simp only: div_mult_mod_eq)
  also have "\<dots> = (unat x mod ?d * ?B + msb_val ls) + unat x div ?d * ?B * ?d"
    by (simp only: algebra_simps)
  finally have "(unat r * 2 ^ (64 * length (l # ls)) + msb_val (l # ls)) div ?d
      = unat x div ?d * ?B + (unat x mod ?d * ?B + msb_val ls) div ?d"
    using pos by (simp only: div_mult_self1 [of ?d] neq0_conv add.commute)
  then show ?case using IH q by (simp add: Let_def flip: x_def)
qed simp

lemma length4E:
  assumes "length xs = 4"
  obtains a b c d where "xs = [a, b, c, d]"
  using assms by (auto simp: numeral_eq_Suc length_Suc_conv)

lemma target_limbs_value:
  assumes "length t = 32"
  shows "limbs_val (target_limbs t) = be_val t"
proof -
  define f where "f i = take 8 (drop (8 * i) t)" for i
  have u: "unat (of_nat (be_val (f i)) :: u64) = be_val (f i)" for i
  proof -
    have "length (f i) \<le> 8" by (simp add: f_def)
    then have "be_val (f i) < 2 ^ 64"
      using be_val_bound [of "f i"] power_increasing [of "length (f i)" 8 "256 :: nat"] by simp
    then show ?thesis by (simp add: unsigned_of_nat take_bit_nat_eq_self)
  qed
  have len: "i < 4 \<Longrightarrow> length (f i) = 8" for i using assms by (simp add: f_def)
  have "t = f 0 @ f 1 @ f 2 @ f 3"
  proof -
    have "t = take 8 t @ drop 8 t" "drop 8 t = take 8 (drop 8 t) @ drop 16 t"
      "drop 16 t = take 8 (drop 16 t) @ drop 24 t"
      using append_take_drop_id [of 8 "drop 8 t"] append_take_drop_id [of 8 "drop 16 t"]
      by (simp_all del: append_take_drop_id) (simp add: append_take_drop_id)
    then have "t = take 8 t @ take 8 (drop 8 t) @ take 8 (drop 16 t) @ drop 24 t" by metis
    then show ?thesis using assms by (simp add: f_def)
  qed
  then have "be_val t = ((be_val (f 0) * 2 ^ 64 + be_val (f 1)) * 2 ^ 64 + be_val (f 2)) * 2 ^ 64
      + be_val (f 3)"
  proof -
    assume "t = f 0 @ f 1 @ f 2 @ f 3"
    then have "be_val t = be_val (((f 0 @ f 1) @ f 2) @ f 3)" by simp
    then show ?thesis by (simp only: be_val_append len) simp
  qed
  moreover have "target_limbs t = map (\<lambda>i. of_nat (be_val (f i))) [3, 2, 1, 0]"
    by (simp add: target_limbs_def f_def upt_rec)
  ultimately show ?thesis by (simp add: u)
qed

lemma concat_limbs_value:
  "be_val (concat (map (\<lambda>l. to_be 8 (unat (l :: u64))) ls)) = msb_val ls
   \<and> length (concat (map (\<lambda>l. to_be 8 (unat l)) ls)) = 8 * length ls"
proof (induction ls)
  case (Cons l ls)
  have "unat l < 256 ^ 8" using unat_u64_lt [of l] by simp
  then have "be_val (to_be 8 (unat l)) = unat l" by (simp only: be_val_to_be mod_less)
  moreover have "(256 :: nat) ^ (8 * length ls) = 2 ^ (64 * length ls)"
  proof -
    have "(256 :: nat) ^ (8 * length ls) = (2 ^ 8) ^ (8 * length ls)" by simp
    also have "\<dots> = 2 ^ (8 * (8 * length ls))" by (simp only: power_mult)
    finally show ?thesis by (simp add: mult.assoc)
  qed
  ultimately show ?case using Cons by (simp add: be_val_append)
qed simp

lemma multiply_target_value:
  assumes "length t = 32" and "0 < d"
  shows "be_val (multiply_target_by_ratio t n d) = (be_val t * unat n) mod 2 ^ 256 div unat d
       \<and> length (multiply_target_by_ratio t n d) = 32"
proof -
  let ?m = "mul_limbs (target_limbs t) n 0"
  have m: "limbs_val ?m = (be_val t * unat n) mod 2 ^ 256" "length ?m = 4"
    using mul_limbs_value [of 0 "target_limbs t" n] target_limbs_value [OF assms(1)]
    by (simp_all add: target_limbs_def)
  have "0 < unat d" using assms(2) by (simp add: word_less_nat_alt)
  then have "msb_val (div_limbs (rev ?m) d 0) = msb_val (rev ?m) div unat d"
    "length (div_limbs (rev ?m) d 0) = 4"
    using div_limbs_value [of 0 d "rev ?m"] m(2) by simp_all
  moreover have "msb_val (rev ?m) = limbs_val ?m" using limbs_val_rev [of "rev ?m"] by simp
  ultimately show ?thesis
    using concat_limbs_value [of "div_limbs (rev ?m) d 0"] m(1)
    by (simp add: multiply_target_by_ratio_def Let_def)
qed

section \<open>The retarget\<close>

lemma pow_limit_layout:
  "pow_limit_mainnet = replicate 4 0 @ [0xff, 0xff] @ replicate 26 0"
  "pow_limit_signet = replicate 2 0 @ [3, 0x77, 0xae] @ replicate 27 0"
  by code_simp+

lemma pow_limit_values:
  "be_val pow_limit_mainnet = 0xffff * 2 ^ 208" "length pow_limit_mainnet = 32"
  "be_val pow_limit_signet = 0x377ae * 2 ^ 216" "length pow_limit_signet = 32"
  unfolding pow_limit_layout by (simp_all add: be_val_append be_val_Cons del: append_Cons append_Nil)

lemma retargeting_networks:
  assumes "\<not> pow_no_retargeting (for_network g net)"
  shows "length (pow_limit (for_network g net)) = 32"
    and "be_val (pow_limit (for_network g net)) * 4838400 < 2 ^ 256"
    and "pow_target_timespan (for_network g net) = 1209600"
  using assms
  by (cases net; simp add: for_network_def mainnet_def testnet_def testnet4_def regtest_def
      signet_def pow_limit_testnet_def pow_limit_values)+

lemma timespan_params: "pow_target_timespan (for_network g net) = 1209600"
  "pow_target_spacing (for_network g net) = 600"
  "difficulty_adjustment_interval (for_network g net) = 2016"
  by (cases net; simp add: for_network_def mainnet_def testnet_def testnet4_def regtest_def
      signet_def difficulty_adjustment_interval_def)+

lemma clamp_bounds: "lo \<le> hi \<Longrightarrow> lo \<le> clamp x lo hi \<and> clamp x lo hi \<le> hi"
  by (simp add: clamp_def)

definition retarget :: "nat \<Rightarrow> nat \<Rightarrow> int \<Rightarrow> nat" where
  "retarget limit old timespan = min limit (old * nat (clamp timespan 302400 4838400) div 1209600)"

lemma calculate_next_work_value:
  assumes p: "p = for_network g net" "\<not> pow_no_retargeting p"
    and old: "length (target_from_compact L (hdr_bits cur)) = 32"
      "be_val (target_from_compact L (hdr_bits cur)) \<le> be_val (pow_limit p)"
  shows "calculate_next_work_required L first cur p =
     to_compact_lossy L (to_be 32 (retarget (be_val (pow_limit p))
       (be_val (target_from_compact L (hdr_bits cur))) (uint (hdr_time cur) - uint (hdr_time first))))"
proof -
  let ?old = "target_from_compact L (hdr_bits cur)" and ?lim = "pow_limit p"
  define c where "c = clamp (uint (hdr_time cur) - uint (hdr_time first)) 302400 4838400"
  have T: "pow_target_timespan p = 1209600" and lim: "length ?lim = 32"
    "be_val ?lim * 4838400 < 2 ^ 256"
    using retargeting_networks [of g net] p by simp_all
  have c: "302400 \<le> c" "c \<le> 4838400" using clamp_bounds unfolding c_def by simp_all
  define a where "a = (word_of_int c :: u64)"
  have "uint a = c" using c unfolding a_def by (simp add: uint_word_of_int)
  then have a: "unat a = nat c" by (simp flip: nat_uint_eq)
  have "be_val ?old * unat a \<le> be_val ?lim * 4838400"
    using old(2) c a by (intro mult_le_mono) simp_all
  then have "be_val ?old * unat a < 2 ^ 256" using lim(2) by (rule le_less_trans)
  then have m: "be_val (multiply_target_by_ratio ?old a 1209600) = be_val ?old * nat c div 1209600"
    "length (multiply_target_by_ratio ?old a 1209600) = 32"
    using multiply_target_value [OF old(1), of 1209600 a] a by simp_all
  have sp: "sint (1209600 div 4 :: u64) = 302400" "sint (1209600 * 4 :: u64) = 4838400"
    by simp_all
  define r where "r = multiply_target_by_ratio ?old a 1209600"
  have cmp: "bytes_cmp r ?lim = nat_cmp (be_val r) (be_val ?lim)"
    using m(2) lim(1) by (simp add: bytes_cmp_numeric r_def)
  have "calculate_next_work_required L first cur p =
      to_compact_lossy L (if bytes_cmp r ?lim = Greater then ?lim else r)"
    using p(2) by (simp only: calculate_next_work_required_def Let_def T sp c_def [symmetric]
        a_def [symmetric] r_def [symmetric] if_False)
  also have "(if bytes_cmp r ?lim = Greater then ?lim else r) = to_be 32 (min (be_val ?lim) (be_val r))"
  proof (cases "be_val ?lim < be_val r")
    case True
    then show ?thesis using to_be_be_val [of ?lim] lim(1) by (simp add: cmp nat_cmp_def)
  next
    case False
    have "length r = 32" using m(2) by (simp add: r_def)
    with False show ?thesis using to_be_be_val [of r] by (simp add: cmp nat_cmp_def)
  qed
  finally show ?thesis using m(1) by (simp add: retarget_def c_def r_def)
qed

section \<open>Linked lookups\<close>

definition lookup_linked :: "(bytes \<Rightarrow> stored_header option) \<Rightarrow> bool" where
  "lookup_linked lookup \<longleftrightarrow>
     (\<forall>h s. lookup h = Some s \<longrightarrow> sh_height s = 0 \<or>
        (\<exists>p. lookup (prev_blockhash (sh_header s)) = Some p \<and>
             unat (sh_height s) = Suc (unat (sh_height p))))"

lemma lookup_parent:
  assumes "lookup_linked lookup" and "lookup h = Some s" and "sh_height s \<noteq> 0"
  obtains p where "lookup (prev_blockhash (sh_header s)) = Some p"
    and "unat (sh_height s) = Suc (unat (sh_height p))"
  using assms unfolding lookup_linked_def by blast

lemma linked_lookup: "linked L hi \<Longrightarrow> lookup_linked (\<lambda>h. ok_flatten (get_header L hi h))"
  unfolding lookup_linked_def
proof (intro allI impI)
  fix h s assume l: "linked L hi" and "ok_flatten (get_header L hi h) = Some s"
  then have "linked_at L hi s" by (auto simp: ok_flatten_Some linked_def)
  then show "sh_height s = 0 \<or> (\<exists>p. ok_flatten (get_header L hi (prev_blockhash (sh_header s))) = Some p
      \<and> unat (sh_height s) = Suc (unat (sh_height p)))"
    by (cases "sh_height s = 0") (auto elim: linked_parent simp: ok_flatten_Some)
qed

lemma min_difficulty_scan_returns:
  assumes "lookup_linked lookup" and "lookup h = Some s"
  shows "\<exists>r. min_difficulty_scan lookup interval bits s = Some r"
  using assms(2)
proof (induction "unat (sh_height s)" arbitrary: h s rule: less_induct)
  case less
  show ?case
  proof (cases "sh_height s mod interval \<noteq> 0 \<and> hdr_bits (sh_header s) = bits")
    case True
    then have "sh_height s \<noteq> 0" by auto
    from lookup_parent [OF assms(1) less.prems this] obtain p where
      p: "lookup (prev_blockhash (sh_header s)) = Some p" "unat (sh_height s) = Suc (unat (sh_height p))" .
    with less.hyps [of p] obtain r where "min_difficulty_scan lookup interval bits p = Some r" by auto
    with True p show ?thesis by (simp add: min_difficulty_scan.simps [of lookup interval bits s])
  next
    case False
    then show ?thesis by (subst min_difficulty_scan.simps) auto
  qed
qed

lemma period_start_walk_exact:
  assumes "lookup_linked lookup" and "lookup h = Some s" and "t \<le> sh_height s"
  shows "\<exists>a. period_start_walk lookup t s = Some a \<and> sh_height a = t"
  using assms(2,3)
proof (induction "unat (sh_height s)" arbitrary: h s rule: less_induct)
  case less
  show ?case
  proof (cases "t < sh_height s")
    case True
    then have "sh_height s \<noteq> 0" by auto
    from lookup_parent [OF assms(1) less.prems(1) this] obtain p where
      p: "lookup (prev_blockhash (sh_header s)) = Some p" "unat (sh_height s) = Suc (unat (sh_height p))" .
    have tp: "t \<le> sh_height p" "sh_height p < sh_height s"
      using True p(2) by (simp_all add: word_le_nat_alt word_less_nat_alt)
    with less.hyps [of p, OF _ p(1) tp(1)] p True show ?thesis
      by (simp add: period_start_walk.simps [of lookup t s])
  next
    case False
    with less.prems(2) have "sh_height s = t" by simp
    with False show ?thesis by (subst period_start_walk.simps) simp
  qed
qed

lemma boundary_heights:
  assumes "h \<noteq> (0 :: u32)" and "h mod 2016 = 0"
  shows "h - 2016 \<le> h - 1"
proof -
  have "unat (h mod 2016) = unat h mod 2016" by (simp add: unat_mod)
  then have "unat h mod 2016 = 0" using assms(2) by simp
  moreover have "unat h \<noteq> 0" using assms(1) by (simp add: unat_eq_zero)
  ultimately have le: "2016 \<le> unat h" by (metis mod_less not_le)
  then have "2016 \<le> h" "1 \<le> h" by (simp_all add: word_le_nat_alt)
  with le show ?thesis by (simp add: word_le_nat_alt unat_sub)
qed

section \<open>Properties\<close>

text \<open>
  C31: on every retargeting network, from a target within the proof-of-work limit, the retarget is the
  exact rational adjustment: the old target times the timespan, clamped to a quarter and four times
  two weeks, divided by two weeks and capped by the limit. The 256-bit product never overflows, and
  a timespan that runs backwards is clamped, not wrapped.
\<close>
theorem retarget_exact:
  assumes "\<not> pow_no_retargeting (for_network g net)"
    and "length (target_from_compact L (hdr_bits cur)) = 32"
    and "be_val (target_from_compact L (hdr_bits cur)) \<le> be_val (pow_limit (for_network g net))"
  shows "calculate_next_work_required L first cur (for_network g net) =
     to_compact_lossy L (to_be 32 (min (be_val (pow_limit (for_network g net)))
       (be_val (target_from_compact L (hdr_bits cur)) *
        nat (clamp (uint (hdr_time cur) - uint (hdr_time first)) 302400 4838400) div 1209600)))"
  using calculate_next_work_value [OF refl assms] by (simp add: retarget_def)

theorem retarget_exact_witness:
  "calculate_next_work_required demo_crate (sh_header (demo_stored 2016)) (sh_header (demo_stored 0))
     (for_network (\<lambda>_. undefined) Bitcoin)
   = to_compact_lossy demo_crate (to_be 32 (2 ^ 208 * 302400 div 1209600))"
proof -
  let ?p = "for_network (\<lambda>_. undefined) Bitcoin"
  have lim: "\<not> pow_no_retargeting ?p" "be_val (pow_limit ?p) = 0xffff * 2 ^ 208"
    by (simp_all add: for_network_def mainnet_def pow_limit_values)
  have t: "target_from_compact demo_crate (hdr_bits (sh_header (demo_stored 0))) = to_be 32 (2 ^ 208)"
    by (simp add: demo_crate_def demo_stored_def)
  have v: "be_val (to_be 32 (2 ^ 208)) = 2 ^ 208" by (simp add: be_val_to_be)
  have c: "clamp (uint (hdr_time (sh_header (demo_stored 0)))
      - uint (hdr_time (sh_header (demo_stored 2016)))) 302400 4838400 = 302400"
    by (simp add: demo_stored_def clamp_def)
  show ?thesis
    using retarget_exact [of "\<lambda>_. undefined" Bitcoin demo_crate "sh_header (demo_stored 0)"
        "sh_header (demo_stored 2016)"]
    unfolding t v c lim(2) using lim(1) by simp
qed

text \<open>
  C32: over any linked source of headers the required \<^verbatim>\<open>nBits\<close> of the next block is always found: no
  network's rule runs forever or misses an ancestor, the testnet scan without a height guard
  included, and at a retarget boundary the first block of the period that is used is the block's
  own ancestor at that height.
\<close>
theorem next_work_always_found:
  assumes "lookup_linked lookup" and "lookup prev_hash = Some prev" and "sh_height prev = prev_height"
    and "prev_height + 1 \<noteq> 0"
  shows "\<exists>bits. get_next_work_required_with L lookup (for_network g net) prev_hash prev_height time
           = Some (Some bits) \<and>
     (\<not> pow_no_retargeting (for_network g net) \<and> (prev_height + 1) mod 2016 = 0 \<longrightarrow>
        (\<exists>start. period_start_walk lookup (prev_height + 1 - 2016) prev = Some start \<and>
           sh_height start = prev_height + 1 - 2016 \<and>
           bits = calculate_next_work_required L (sh_header start) (sh_header prev) (for_network g net)))"
proof (cases "(prev_height + 1) mod 2016 = 0")
  case True
  have "prev_height + 1 - 2016 \<le> sh_height prev"
    using boundary_heights [OF assms(4) True] assms(3) by simp
  from period_start_walk_exact [OF assms(1,2) this] obtain a where
    "period_start_walk lookup (prev_height + 1 - 2016) prev = Some a"
    "sh_height a = prev_height + 1 - 2016" by blast
  with True assms(2) show ?thesis
    by (auto simp: get_next_work_required_with_def timespan_params Let_def)
next
  case False
  obtain r where "min_difficulty_scan lookup 2016 (to_compact_lossy L (pow_limit (for_network g net))) prev
      = Some r"
    using min_difficulty_scan_returns [OF assms(1,2)] by blast
  with False assms(2) show ?thesis
    by (auto simp: get_next_work_required_with_def timespan_params Let_def)
qed

theorem next_work_always_found_witness:
  "\<exists>bits. get_next_work_required_with demo_crate
     (\<lambda>h. ok_flatten (get_header demo_crate demo_index h)) (for_network (\<lambda>_. undefined) Testnet)
     (to_le 32 12) 2 2300 = Some (Some bits)"
  using next_work_always_found [OF linked_lookup [OF demo_linked], of "to_le 32 12" "demo_stored 2" 2
      demo_crate "\<lambda>_. undefined" Testnet 2300]
  by (auto simp: demo_get_header)

end
