(* ===== verification/Validation.thy ===== *)
theory Validation
  imports Header_Index Consensus_Params Merkle Net_Time
    "HOL-Library.List_Lexorder" "HOL-Library.Product_Lexorder"
begin

text \<open>
  Context-free and contextual checks of \<^verbatim>\<open>bitcoinpr-core/src/validation.rs\<close> on headers, blocks and
  transactions. An error carries the fixed part of the source's message. \<^verbatim>\<open>i32\<close> transaction versions
  are read with \<open>sint\<close>.
\<close>

unbundle bit_operations_syntax

section \<open>Headers and Merkle roots\<close>

definition validate_block_header ::
  "bitcoin_crate \<Rightarrow> i64 \<Rightarrow> block_header \<Rightarrow> u32 \<Rightarrow> block_header option \<Rightarrow> consensus_params \<Rightarrow> unit core_result"
where
  "validate_block_header L adjusted_now header height prev_header p =
     (let is_signet = (signet_challenge p \<noteq> None);
          target = target_from_compact L (hdr_bits header);
          check_time =
            (let now = (ucast (if sint adjusted_now < 0 then 0 else adjusted_now) :: u32);
                 max_future_time = now + 2 * 60 * 60
             in if max_future_time < hdr_time header
                then Inl (InvalidTimestamp ''block time is more than 2 hours in the future'')
                else Inr ())
      in if \<not> is_signet \<and> \<not> pow_hash_ok L header then Inl InvalidProofOfWork
         else if bytes_cmp target (pow_limit p) = Greater
         then Inl (InvalidDifficultyTarget ''target exceeds pow limit'')
         else
           (case prev_header of
              Some prev \<Rightarrow>
                (let expected = block_hash L prev
                 in if prev_blockhash header \<noteq> expected
                    then Inl (InvalidBlockHash expected (prev_blockhash header)) else check_time)
            | None \<Rightarrow>
                if height = 0 \<and> prev_blockhash header \<noteq> replicate 32 0
                then Inl (InvalidBlockHash (replicate 32 0) (prev_blockhash header)) else check_time))"

definition compute_merkle_root :: "bitcoin_crate \<Rightarrow> bytes list \<Rightarrow> bytes option" where
  "compute_merkle_root L tx_hashes = (if tx_hashes = [] then None else Some (root (sha256d L) tx_hashes))"

text \<open>The outer \<open>None\<close> is the panic that \<open>root_detecting_mutation\<close> has on \<open>2 ^ 32\<close> leaves.\<close>

definition verify_merkle_root_with_txids ::
  "bitcoin_crate \<Rightarrow> block \<Rightarrow> bytes list \<Rightarrow> unit core_result option"
where
  "verify_merkle_root_with_txids L blk txids =
     map_option (\<lambda>(computed, mutated).
       case computed of
         None \<Rightarrow> Inl InvalidMerkleRoot
       | Some r \<Rightarrow>
           if mutated
           then Inl (InvalidTransaction ''bad-txns-duplicate (CVE-2012-2459: mutated merkle tree)'')
           else if r \<noteq> hdr_merkle_root (blk_header blk) then Inl InvalidMerkleRoot
           else Inr ())
       (root_detecting_mutation (sha256d L) txids)"

definition verify_merkle_root :: "bitcoin_crate \<Rightarrow> block \<Rightarrow> unit core_result option" where
  "verify_merkle_root L blk =
     verify_merkle_root_with_txids L blk (map (compute_txid L) (txdata blk))"

section \<open>Transactions\<close>

definition MAX_MONEY :: u64 where "MAX_MONEY = 21000000 * 100000000"

definition SORT_SCAN_MAX :: nat where "SORT_SCAN_MAX = 32"

fun check_output_values :: "tx_out list \<Rightarrow> u64 \<Rightarrow> unit core_result" where
  "check_output_values [] tot = Inr ()"
| "check_output_values (out # outs) tot =
     (let v = out_value out; sum = tot + v
      in if MAX_MONEY < v then Inl (InvalidTransaction ''bad-txns-vout-toolarge'')
         else if sum < tot \<or> MAX_MONEY < sum
         then Inl (InvalidTransaction ''bad-txns-txouttotal-toolarge'')
         else check_output_values outs sum)"

fun adjacent_equal :: "'a list \<Rightarrow> bool" where
  "adjacent_equal (x # y # rest) = (x = y \<or> adjacent_equal (y # rest))"
| "adjacent_equal _ = False"

fun seen_twice :: "'a list \<Rightarrow> 'a set \<Rightarrow> bool" where
  "seen_twice [] seen = False"
| "seen_twice (x # xs) seen = (x \<in> seen \<or> seen_twice xs (insert x seen))"

text \<open>The three ways of looking for a repeated prevout, by the number of inputs.\<close>

definition duplicate_inputs :: "out_point list \<Rightarrow> bool" where
  "duplicate_inputs prevouts =
     (case prevouts of
        [] \<Rightarrow> False
      | [a] \<Rightarrow> False
      | [a, b] \<Rightarrow> a = b
      | _ \<Rightarrow>
          if length prevouts \<le> SORT_SCAN_MAX
          then adjacent_equal (sort_key (\<lambda>out. (op_txid out, op_vout out)) prevouts)
          else seen_twice prevouts {})"

definition check_transaction :: "bitcoin_crate \<Rightarrow> transaction \<Rightarrow> unit core_result" where
  "check_transaction L tx =
     (if tx_input tx = [] then Inl (InvalidTransaction ''bad-txns-vin-empty'')
      else if tx_output tx = [] then Inl (InvalidTransaction ''bad-txns-vout-empty'')
      else bindE (check_output_values (tx_output tx) 0) (\<lambda>_.
        if \<not> is_coinbase L tx \<and>
           list_ex (\<lambda>i. previous_output i = outpoint_null L) (tx_input tx)
        then Inl (InvalidTransaction ''bad-txns-prevout-null'')
        else if duplicate_inputs (map previous_output (tx_input tx))
        then Inl (InvalidTransaction ''bad-txns-inputs-duplicate'')
        else Inr ()))"

definition validate_block_weight :: "bitcoin_crate \<Rightarrow> block \<Rightarrow> consensus_params \<Rightarrow> unit core_result" where
  "validate_block_weight L blk p =
     (let weight = block_weight L blk
      in if ucast (max_block_weight p) < weight
         then Inl (BlockWeightExceeded weight (max_block_weight p)) else Inr ())"

section \<open>Coinbase and witness commitment\<close>

text \<open>The height that the first element of a coinbase script encodes.\<close>

definition bip34_encoded_height :: "bytes \<Rightarrow> u32 core_result" where
  "bip34_encoded_height script_bytes =
     (case script_bytes of
        [] \<Rightarrow> Inl (InvalidCoinbase ''BIP 34: coinbase scriptSig is empty'')
      | first # rest \<Rightarrow>
          if first = 0 then Inr 0
          else if 0x51 \<le> first \<and> first \<le> 0x60 then Inr (ucast (first - 0x50))
          else if 1 \<le> first \<and> first \<le> 9 then
            (let push_len = unat first
             in if length script_bytes < 1 + push_len
                then Inl (InvalidCoinbase ''BIP 34: invalid height encoding (truncated push)'')
                else
                  (let data = take push_len rest;
                       value_bytes = (if last data = 0 \<and> 1 < push_len
                                      then take (push_len - 1) data else data)
                   in if 4 < length value_bytes
                      then Inl (InvalidCoinbase ''BIP 34: height too large'')
                      else Inr (u32_from_le (value_bytes @ replicate (4 - length value_bytes) 0))))
          else Inl (InvalidCoinbase ''BIP 34: unsupported height encoding''))"

definition validate_coinbase :: "bitcoin_crate \<Rightarrow> block \<Rightarrow> u32 \<Rightarrow> consensus_params \<Rightarrow> unit core_result" where
  "validate_coinbase L blk height p =
     (case txdata blk of
        [] \<Rightarrow> Inl (InvalidCoinbase ''block has no transactions'')
      | coinbase # _ \<Rightarrow>
          if \<not> is_coinbase L coinbase
          then Inl (InvalidCoinbase ''first transaction is not coinbase'')
          else
            (let script_bytes = script_sig (hd (tx_input coinbase))
             in if \<not> (2 \<le> length script_bytes \<and> length script_bytes \<le> 100)
                then Inl (InvalidCoinbase ''coinbase script too small or large'')
                else if bip34_height p \<le> height then
                  bindE (bip34_encoded_height script_bytes) (\<lambda>encoded_height.
                    if encoded_height \<noteq> height
                    then Inl (InvalidCoinbase ''BIP 34: height mismatch'') else Inr ())
                else Inr ()))"

definition block_has_witness :: "block \<Rightarrow> bool" where
  "block_has_witness blk \<longleftrightarrow>
     list_ex (\<lambda>tx. list_ex (\<lambda>i. in_witness i \<noteq> []) (tx_input tx)) (drop 1 (txdata blk))"

definition is_commitment_script :: "bytes \<Rightarrow> bool" where
  "is_commitment_script script \<longleftrightarrow>
     38 \<le> length script \<and> script ! 0 = 0x6a \<and> script ! 1 = 0x24 \<and>
     take 4 (drop 2 script) = [0xaa, 0x21, 0xa9, 0xed]"

definition validate_witness_commitment_with_wtxids ::
  "bitcoin_crate \<Rightarrow> block \<Rightarrow> bytes list \<Rightarrow> unit core_result"
where
  "validate_witness_commitment_with_wtxids L blk wtxids =
     (if \<not> block_has_witness blk then Inr ()
      else
        (let coinbase = txdata blk ! 0
         in case List.find (\<lambda>out. is_commitment_script (script_pubkey out)) (rev (tx_output coinbase)) of
              None \<Rightarrow> Inl (InvalidTransaction ''BIP 141: missing witness commitment in coinbase'')
            | Some out \<Rightarrow>
                (let expected_commitment = take 32 (drop 6 (script_pubkey out));
                     witness_nonce =
                       (if tx_input coinbase \<noteq> [] \<and> in_witness (tx_input coinbase ! 0) \<noteq> [] \<and>
                           length (in_witness (tx_input coinbase ! 0) ! 0) = 32
                        then in_witness (tx_input coinbase ! 0) ! 0 else replicate 32 0);
                     leaves = replicate 32 0 # drop 1 wtxids;
                     witness_root = root (sha256d L) leaves;
                     commitment = sha256d L (witness_root @ witness_nonce)
                 in if commitment \<noteq> expected_commitment
                    then Inl (InvalidTransaction ''BIP 141: witness commitment mismatch'')
                    else Inr ())))"

definition validate_witness_commitment :: "bitcoin_crate \<Rightarrow> block \<Rightarrow> unit core_result" where
  "validate_witness_commitment L blk =
     (if \<not> block_has_witness blk then Inr ()
      else validate_witness_commitment_with_wtxids L blk (map (compute_wtxid L) (txdata blk)))"

section \<open>Times and locks\<close>

fun collect_times :: "bitcoin_crate \<Rightarrow> header_index \<Rightarrow> nat \<Rightarrow> bytes \<Rightarrow> u32 list" where
  "collect_times L hi 0 current_hash = []"
| "collect_times L hi (Suc n) current_hash =
     (case get_header L hi current_hash of
        Inr (Some stored) \<Rightarrow>
          hdr_time (sh_header stored) # collect_times L hi n (prev_blockhash (sh_header stored))
      | _ \<Rightarrow> [])"

definition get_median_time_past :: "bitcoin_crate \<Rightarrow> header_index \<Rightarrow> bytes \<Rightarrow> u32 option" where
  "get_median_time_past L hi tip_hash =
     (let times = collect_times L hi 11 tip_hash
      in if times = [] then None else Some (sort times ! (length times div 2)))"

definition LOCKTIME_THRESHOLD :: u32 where "LOCKTIME_THRESHOLD = 500000000"

definition is_final_tx :: "transaction \<Rightarrow> u32 \<Rightarrow> u32 \<Rightarrow> bool" where
  "is_final_tx tx height block_time =
     (let lt = tx_lock_time tx
      in if lt = 0 then True
         else if lt < (if lt < LOCKTIME_THRESHOLD then height else block_time) then True
         else list_all (\<lambda>i. in_sequence i = 0xffffffff) (tx_input tx))"

definition get_or :: "'a list \<Rightarrow> nat \<Rightarrow> 'a \<Rightarrow> 'a" where
  "get_or xs i d = (if i < length xs then xs ! i else d)"

fun sequence_locks_loop ::
  "tx_in list \<Rightarrow> nat \<Rightarrow> u32 list \<Rightarrow> u32 list \<Rightarrow> u32 \<Rightarrow> u32 \<Rightarrow> unit core_result"
where
  "sequence_locks_loop [] i input_heights input_times block_height block_mtp = Inr ()"
| "sequence_locks_loop (inp # inputs) i input_heights input_times block_height block_mtp =
     (let sequence = in_sequence inp;
          masked_value = sequence AND 0xffff;
          continue = sequence_locks_loop inputs (Suc i) input_heights input_times block_height block_mtp
      in if sequence AND push_bit 31 1 \<noteq> 0 then continue
         else if sequence AND push_bit 22 1 \<noteq> 0 then
           (let required_time = get_or input_times i 0 + masked_value * 512
            in if block_mtp < required_time
               then Inl (InvalidTransaction ''BIP 68: input time lock not satisfied'') else continue)
         else
           (let required_height = get_or input_heights i 0 + masked_value
            in if block_height < required_height
               then Inl (InvalidTransaction ''BIP 68: input height lock not satisfied'')
               else continue))"

definition validate_sequence_locks ::
  "transaction \<Rightarrow> u32 list \<Rightarrow> u32 list \<Rightarrow> u32 \<Rightarrow> u32 \<Rightarrow> unit core_result"
where
  "validate_sequence_locks tx input_heights input_times block_height block_mtp =
     (if sint (tx_version tx) < 2 then Inr ()
      else sequence_locks_loop (tx_input tx) 0 input_heights input_times block_height block_mtp)"

fun lock_points_loop :: "tx_in list \<Rightarrow> nat \<Rightarrow> u32 list \<Rightarrow> u32 list \<Rightarrow> u32 \<times> u32 \<Rightarrow> u32 \<times> u32" where
  "lock_points_loop [] i input_heights input_times acc = acc"
| "lock_points_loop (inp # inputs) i input_heights input_times (min_height, min_time) =
     (let sequence = in_sequence inp; masked_value = sequence AND 0xffff
      in lock_points_loop inputs (Suc i) input_heights input_times
           (if sequence AND push_bit 31 1 \<noteq> 0 then (min_height, min_time)
            else if sequence AND push_bit 22 1 \<noteq> 0
            then (min_height, max min_time (get_or input_times i 0 + masked_value * 512))
            else (max min_height (get_or input_heights i 0 + masked_value), min_time)))"

definition sequence_lock_points :: "transaction \<Rightarrow> u32 list \<Rightarrow> u32 list \<Rightarrow> u32 \<times> u32" where
  "sequence_lock_points tx input_heights input_times =
     (if sint (tx_version tx) < 2 then (0, 0)
      else lock_points_loop (tx_input tx) 0 input_heights input_times (0, 0))"

end
