(* ===== verification/Mining_Coinbase.thy ===== *)
theory Mining_Coinbase
  imports Node_Prelude
begin

text \<open>The height push that block templates put in front of a coinbase script,
  \<^verbatim>\<open>bitcoinpr-mining/src/template_provider.rs\<close>.\<close>

unbundle bit_operations_syntax

text \<open>\<^verbatim>\<open>while le_bytes.last() == Some(&0) { le_bytes.pop(); }\<close>\<close>

definition pop_zeros :: "bytes \<Rightarrow> bytes" where
  "pop_zeros bs = rev (dropWhile (\<lambda>b. b = 0) (rev bs))"

definition encode_bip34_height :: "u32 \<Rightarrow> bytes" where
  "encode_bip34_height height =
     (if height = 0 then [0]
      else if height \<le> 16 then [0x50 + ucast height]
      else
        (let le_bytes = pop_zeros (u32_to_le height);
             padded = (if le_bytes \<noteq> [] \<and> last le_bytes AND 0x80 \<noteq> 0 then le_bytes @ [0] else le_bytes)
         in of_nat (length padded) # padded))"

lemma pop_zeros_simps [simp]:
  "pop_zeros [] = []" "pop_zeros (bs @ [b]) = (if b = 0 then pop_zeros bs else bs @ [b])"
  by (simp_all add: pop_zeros_def)

lemma pop_zeros_length: "length (pop_zeros bs) \<le> length bs"
  by (induction bs rule: rev_induct) auto

lemma pop_zeros_append: "pop_zeros bs @ replicate (length bs - length (pop_zeros bs)) 0 = bs"
proof (induction bs rule: rev_induct)
  case (snoc b bs)
  show ?case
  proof (cases "b = 0")
    case True
    let ?n = "length bs - length (pop_zeros bs)"
    have "replicate (Suc ?n) 0 = replicate ?n 0 @ [0 :: u8]"
      by (simp add: replicate_append_same)
    then have "pop_zeros bs @ replicate (Suc ?n) 0 = bs @ [0]"
      using snoc by (metis append_assoc)
    with True show ?thesis using pop_zeros_length [of bs] by (simp add: Suc_diff_le)
  qed simp
qed simp

lemma pop_zeros_last: "pop_zeros bs \<noteq> [] \<Longrightarrow> last (pop_zeros bs) \<noteq> 0"
  by (induction bs rule: rev_induct) auto

lemma pop_zeros_nonempty:
  assumes "height \<noteq> 0"
  shows "pop_zeros (u32_to_le height) \<noteq> []"
proof
  assume "pop_zeros (u32_to_le height) = []"
  with pop_zeros_append [of "u32_to_le height"] have "u32_to_le height = replicate 4 0" by simp
  then have "u32_from_le (u32_to_le height) = u32_from_le (replicate 4 0)" by simp
  then have "height = u32_from_le (replicate 4 0)" by simp
  then show False using assms by (simp add: u32_from_le_def numeral_eq_Suc)
qed

end
