(* ===== verification/Validation_Facts.thy ===== *)
theory Validation_Facts
  imports Validation Demo_Crate Mining_Coinbase
begin

text \<open>
  What the checks of \<^verbatim>\<open>validation.rs\<close> accept: exact characterisations of transaction sanity, relative
  locks and coinbase heights, and the binding of a header to its transactions.
\<close>

section \<open>Duplicate inputs\<close>

lemma seen_twice_iff: "seen_twice xs seen \<longleftrightarrow> \<not> distinct xs \<or> set xs \<inter> seen \<noteq> {}"
  by (induction xs arbitrary: seen) auto

lemma adjacent_equal_sorted:
  assumes "sorted (map f xs)" and "inj f"
  shows "adjacent_equal xs \<longleftrightarrow> \<not> distinct xs"
  using assms(1)
proof (induction xs rule: adjacent_equal.induct)
  case (1 x y rest)
  have "x \<noteq> y \<Longrightarrow> x \<notin> set rest"
  proof
    assume ne: "x \<noteq> y" and "x \<in> set rest"
    then have "f y \<le> f x" "f x \<le> f y" using 1(2) by auto
    with ne assms(2) show False by (auto dest: injD)
  qed
  with 1 show ?case by auto
qed auto

lemma outpoint_key_inj: "inj (\<lambda>out :: out_point. (op_txid out, op_vout out))"
  by (rule injI, rule out_point.equality) simp_all

lemma duplicate_inputs_iff: "duplicate_inputs xs \<longleftrightarrow> \<not> distinct xs"
proof -
  have "adjacent_equal (sort_key (\<lambda>out :: out_point. (op_txid out, op_vout out)) xs) \<longleftrightarrow> \<not> distinct xs"
    using adjacent_equal_sorted [OF sorted_sort_key outpoint_key_inj] by simp
  note sorted = this
  show ?thesis
  proof (cases "length xs \<le> 2")
    case True
    then consider "xs = []" | a where "xs = [a]" | a b where "xs = [a, b]"
      by (cases xs rule: adjacent_equal.cases) auto
    then show ?thesis by cases (simp_all add: duplicate_inputs_def)
  next
    case False
    then obtain a b c rest where "xs = a # b # c # rest"
      by (cases xs rule: adjacent_equal.cases) (auto simp: neq_Nil_conv not_le)
    then have "duplicate_inputs xs = (if length xs \<le> SORT_SCAN_MAX
        then adjacent_equal (sort_key (\<lambda>out. (op_txid out, op_vout out)) xs) else seen_twice xs {})"
      by (simp add: duplicate_inputs_def)
    then show ?thesis using sorted by (simp add: seen_twice_iff)
  qed
qed

section \<open>Output values\<close>

lemma check_output_values_iff:
  assumes "tot \<le> MAX_MONEY"
  shows "check_output_values outs tot = Inr () \<longleftrightarrow>
     unat tot + sum_list (map (\<lambda>out. unat (out_value out)) outs) \<le> unat MAX_MONEY"
  using assms
proof (induction outs arbitrary: tot)
  case (Cons out outs)
  let ?v = "out_value out"
  have m: "unat MAX_MONEY = 2100000000000000" by (simp add: MAX_MONEY_def)
  show ?case
  proof (cases "MAX_MONEY < ?v")
    case True
    then show ?thesis by (simp add: Let_def word_less_nat_alt)
  next
    case False
    have "unat tot + unat ?v < 2 ^ 64"
      using False Cons.prems m by (simp add: word_less_nat_alt word_le_nat_alt)
    then have s: "unat (tot + ?v) = unat tot + unat ?v"
      using unat_add_lem [of tot ?v] by simp
    then have nw: "\<not> tot + ?v < tot" by (simp add: word_less_nat_alt)
    show ?thesis
    proof (cases "MAX_MONEY < tot + ?v")
      case True
      then show ?thesis using False s by (simp add: Let_def word_less_nat_alt)
    next
      case ok: False
      then show ?thesis using False nw s Cons.IH [of "tot + ?v"] by (simp add: Let_def add.assoc)
    qed
  qed
qed (simp add: word_le_nat_alt)

lemma check_transaction_iff:
  "check_transaction L tx = Inr () \<longleftrightarrow>
     tx_input tx \<noteq> [] \<and> tx_output tx \<noteq> [] \<and>
     sum_list (map (\<lambda>out. unat (out_value out)) (tx_output tx)) \<le> 2100000000000000 \<and>
     (is_coinbase L tx \<or> (\<forall>i\<in>set (tx_input tx). previous_output i \<noteq> outpoint_null L)) \<and>
     distinct (map previous_output (tx_input tx))"
proof -
  have m: "unat MAX_MONEY = 2100000000000000" by (simp add: MAX_MONEY_def)
  have "check_output_values (tx_output tx) 0 = Inr () \<longleftrightarrow>
      sum_list (map (\<lambda>out. unat (out_value out)) (tx_output tx)) \<le> 2100000000000000"
    using check_output_values_iff [of 0 "tx_output tx"] m by simp
  then show ?thesis
    by (cases "check_output_values (tx_output tx) 0")
      (auto simp: check_transaction_def duplicate_inputs_iff list_ex_iff)
qed

section \<open>Relative locks\<close>

lemma lock_points_mono:
  "fst acc \<le> fst (lock_points_loop ins i hs ts acc) \<and> snd acc \<le> snd (lock_points_loop ins i hs ts acc)"
proof (induction ins i hs ts acc rule: lock_points_loop.induct)
  case (2 inp inputs i hs ts mh mt)
  then show ?case by (auto simp: Let_def intro: order_trans [rotated] split: if_splits)
qed simp

lemma sequence_locks_loop_iff:
  "sequence_locks_loop ins i hs ts bh bm = Inr () \<and> fst acc \<le> bh \<and> snd acc \<le> bm \<longleftrightarrow>
     fst (lock_points_loop ins i hs ts acc) \<le> bh \<and> snd (lock_points_loop ins i hs ts acc) \<le> bm"
proof (induction ins i hs ts acc rule: lock_points_loop.induct)
  case (2 inp inputs i hs ts mh mt)
  note IH = 2 [OF refl refl]
  consider (off) "in_sequence inp AND push_bit 31 1 \<noteq> 0"
    | (time) "in_sequence inp AND push_bit 31 1 = 0" "in_sequence inp AND push_bit 22 1 \<noteq> 0"
    | (height) "in_sequence inp AND push_bit 31 1 = 0" "in_sequence inp AND push_bit 22 1 = 0"
    by blast
  then show ?case
  proof cases
    case off
    with IH show ?thesis by (simp add: Let_def)
  next
    case time
    with IH show ?thesis by (simp add: Let_def) (meson not_less)
  next
    case height
    with IH show ?thesis by (simp add: Let_def) (meson not_less)
  qed
qed simp

lemma sequence_locks_iff:
  "validate_sequence_locks tx hs ts bh bm = Inr () \<longleftrightarrow>
     fst (sequence_lock_points tx hs ts) \<le> bh \<and> snd (sequence_lock_points tx hs ts) \<le> bm"
  using sequence_locks_loop_iff [of "tx_input tx" 0 hs ts bh bm "(0, 0)"]
  by (simp add: validate_sequence_locks_def sequence_lock_points_def)

section \<open>Coinbase heights\<close>

lemma encode_small:
  assumes "height \<noteq> 0" and "height \<le> (16 :: u32)"
  shows "bip34_encoded_height ((0x50 + ucast height) # rest) = Inr height"
proof -
  define n where "n = unat height"
  have n: "1 \<le> n" "n \<le> 16"
    using assms by (simp_all add: n_def word_le_nat_alt) (metis One_nat_def Suc_leI neq0_conv unat_eq_zero)
  have h: "height = of_nat n" by (simp add: n_def)
  have "\<forall>m\<in>set [1..<17]. bip34_encoded_height ((0x50 + ucast (of_nat m :: u32)) # rest) = Inr (of_nat m)"
    by (simp add: upt_rec bip34_encoded_height_def)
  moreover from n have "n \<in> set [1..<17]" by simp
  ultimately show ?thesis unfolding h by blast
qed

lemma of_nat_u8_small: "n \<le> 9 \<Longrightarrow> unat (of_nat n :: u8) = n"
  by (simp add: unsigned_of_nat take_bit_nat_eq_self)

lemma encode_push:
  assumes "value \<noteq> []" and "length value \<le> 4"
    and "data = value \<and> last value \<noteq> 0 \<or> data = value @ [0]"
  shows "bip34_encoded_height (of_nat (length data) # data @ rest)
     = Inr (u32_from_le (value @ replicate (4 - length value) 0))"
proof -
  define n where "n = length data"
  have n: "1 \<le> n" "n \<le> 9" using assms by (auto simp: n_def Suc_le_eq)
  have u: "unat (of_nat n :: u8) = n" using n by (intro of_nat_u8_small) simp
  have b: "(of_nat n :: u8) \<noteq> 0" "\<not> 0x51 \<le> (of_nat n :: u8)" "1 \<le> (of_nat n :: u8)"
    "(of_nat n :: u8) \<le> 9"
    using n u by (auto simp: word_le_nat_alt simp flip: unat_eq_zero)
  have v: "(if last data = 0 \<and> 1 < n then take (n - 1) data else data) = value"
    using assms(1,3) by (auto simp: n_def)
  have "bip34_encoded_height (of_nat n # data @ rest)
      = Inr (u32_from_le (value @ replicate (4 - length value) 0))"
  proof -
    have len: "length data = n" by (simp add: n_def)
    have "bip34_encoded_height (of_nat n # data @ rest) =
        (let vb = (if last data = 0 \<and> 1 < n then take (n - 1) data else data)
         in if 4 < length vb then Inl (InvalidCoinbase ''BIP 34: height too large'')
            else Inr (u32_from_le (vb @ replicate (4 - length vb) 0)))"
      using b u len by (simp add: bip34_encoded_height_def Let_def)
    then show ?thesis unfolding v using assms(2) by simp
  qed
  then show ?thesis by (simp only: n_def)
qed

lemma bip34_roundtrip: "bip34_encoded_height (encode_bip34_height height @ rest) = Inr height"
proof -
  consider "height = 0" | "height \<noteq> 0" "height \<le> 16" | "\<not> height \<le> 16" "height \<noteq> 0" by auto
  then show ?thesis
  proof cases
    case 1
    then show ?thesis by (simp add: encode_bip34_height_def bip34_encoded_height_def)
  next
    case 2
    then show ?thesis using encode_small by (simp add: encode_bip34_height_def)
  next
    case 3
    let ?v = "pop_zeros (u32_to_le height)"
    define data where "data = (if ?v \<noteq> [] \<and> last ?v AND 0x80 \<noteq> 0 then ?v @ [0] else ?v)"
    have v: "?v \<noteq> []" "length ?v \<le> 4" "last ?v \<noteq> 0"
      using pop_zeros_nonempty [OF 3(2)] pop_zeros_length [of "u32_to_le height"]
        pop_zeros_last [of "u32_to_le height"] by simp_all
    have "bip34_encoded_height (of_nat (length data) # data @ rest)
        = Inr (u32_from_le (?v @ replicate (4 - length ?v) 0))"
      using v by (intro encode_push) (auto simp: data_def)
    also have "?v @ replicate (4 - length ?v) 0 = u32_to_le height"
      using pop_zeros_append [of "u32_to_le height"] by simp
    finally show ?thesis using 3 by (simp add: encode_bip34_height_def Let_def data_def)
  qed
qed

section \<open>Properties\<close>

text \<open>
  C34: transaction sanity accepts exactly the transactions with inputs and outputs, whose output
  values sum to at most 21 million coins as true integers, with no null prevout outside a coinbase,
  and with pairwise distinct prevouts; the three strategies for finding a duplicate (comparison,
  sorting, hashing) agree at every number of inputs, and the 64-bit total never wraps.
\<close>
theorem check_transaction_accepts:
  "check_transaction L tx = Inr () \<longleftrightarrow>
     tx_input tx \<noteq> [] \<and> tx_output tx \<noteq> [] \<and>
     sum_list (map (\<lambda>out. unat (out_value out)) (tx_output tx)) \<le> 2100000000000000 \<and>
     \<not> (outpoint_null L \<in> set (map previous_output (tx_input tx)) \<and> \<not> is_coinbase L tx) \<and>
     distinct (map previous_output (tx_input tx))"
proof -
  have "(\<forall>i\<in>set (tx_input tx). previous_output i \<noteq> outpoint_null L) \<longleftrightarrow>
      outpoint_null L \<notin> set (map previous_output (tx_input tx))" by force
  with check_transaction_iff [of L tx] show ?thesis by auto
qed

text \<open>
  C35: the lock point that the mempool stores is the exact frontier of relative-lock validation: a
  transaction passes at a height and median time if and only if both have reached the point.
\<close>
theorem sequence_lock_points_exact:
  "validate_sequence_locks tx input_heights input_times block_height block_mtp = Inr () \<longleftrightarrow>
     fst (sequence_lock_points tx input_heights input_times) \<le> block_height \<and>
     snd (sequence_lock_points tx input_heights input_times) \<le> block_mtp"
  by (rule sequence_locks_iff)

text \<open>
  C36: the height that a block template pushes is the height that validation reads, for every 32-bit
  height and whatever follows in the script; so a template's coinbase script of legal length passes
  the coinbase check at its own height and at no other.
\<close>
theorem template_height_accepted:
  assumes "txdata blk = coinbase # txs" and "is_coinbase L coinbase"
    and "script_sig (hd (tx_input coinbase)) = encode_bip34_height height @ rest"
    and "2 \<le> length (encode_bip34_height height @ rest)"
    and "length (encode_bip34_height height @ rest) \<le> 100"
    and "bip34_height p \<le> h"
  shows "validate_coinbase L blk h p = Inr () \<longleftrightarrow> h = height"
  using assms bip34_roundtrip [of height rest]
  by (auto simp: validate_coinbase_def)

theorem template_height_accepted_witness:
  "let coinbase = \<lparr>tx_version = 1, tx_lock_time = 0,
         tx_input = [\<lparr>previous_output = outpoint_null demo_crate, script_sig = encode_bip34_height 17,
                      in_sequence = 0, in_witness = []\<rparr>],
         tx_output = []\<rparr>;
       blk = \<lparr>blk_header = undefined, txdata = [coinbase]\<rparr>
   in validate_coinbase demo_crate blk 17 (regtest (\<lambda>_. undefined)) = Inr ()"
proof -
  let ?cb = "\<lparr>tx_version = 1, tx_lock_time = 0,
         tx_input = [\<lparr>previous_output = outpoint_null demo_crate, script_sig = encode_bip34_height 17,
                      in_sequence = 0, in_witness = []\<rparr>],
         tx_output = []\<rparr>"
  have l: "length (encode_bip34_height 17) = 2" by code_simp
  have "validate_coinbase demo_crate \<lparr>blk_header = undefined, txdata = [?cb]\<rparr> 17
      (regtest (\<lambda>_. undefined)) = Inr () \<longleftrightarrow> 17 = (17 :: u32)"
    by (rule template_height_accepted [where rest = "[]" and txs = "[]" and coinbase = ?cb])
      (use l in \<open>simp_all add: demo_crate_sel regtest_def\<close>)
  then show ?thesis by (simp add: Let_def)
qed



text \<open>
  finality is monotone: a transaction that is final at a height and median time stays final at
  every later height and time, so a final transaction in a template cannot become non-final.
\<close>
theorem is_final_tx_monotone:
  assumes "is_final_tx tx height time" and "height \<le> height'" and "time \<le> time'"
  shows "is_final_tx tx height' time'"
  using assms unfolding is_final_tx_def Let_def
  by (auto split: if_splits)

theorem is_final_tx_monotone_witness:
  "is_final_tx \<lparr>tx_version = 2, tx_lock_time = 100, tx_input = [], tx_output = []\<rparr> 200 1700000000"
  by (rule is_final_tx_monotone [of _ 101 0])
    (simp_all add: is_final_tx_def LOCKTIME_THRESHOLD_def)

end
