(* ===== verification/Bip110.thy ===== *)
theory Bip110
  imports Header_Chain Validation
begin

text \<open>
  The signalling-driven activation of \<^verbatim>\<open>bitcoinpr-core/src/bip110.rs\<close>: the threshold states, the
  checker that evaluates a block's state from its ancestors with a memo table, the version that
  the node's own blocks carry, and the fingerprint of the configuration. The memo table is passed
  along explicitly. Arithmetic on heights is \<^verbatim>\<open>u32\<close> and wraps; a period of zero makes the code
  panic, which is the outer \<open>None\<close>.
\<close>

unbundle bit_operations_syntax

section \<open>The code\<close>

definition signals :: "bip110_deployment \<Rightarrow> u32 \<Rightarrow> bool" where
  "signals dep version \<longleftrightarrow>
     version AND 0xE0000000 = 0x20000000 \<and>
     version AND push_bit (unat (dep_bit dep) mod 32) 1 \<noteq> 0"

datatype threshold_state = Defined | Started | LockedIn | Active | Expired

record bip110_activation =
  act_state :: threshold_state
  activation_height :: "u32 option"

definition INACTIVE :: bip110_activation where
  "INACTIVE = \<lparr>act_state = Defined, activation_height = None\<rparr>"

definition fixed :: "u32 \<Rightarrow> u32 \<Rightarrow> bip110_activation" where
  "fixed height block_height =
     \<lparr>act_state = (if height \<le> block_height then Active else Started),
      activation_height = Some height\<rparr>"

definition enforcing :: "bip110_activation \<Rightarrow> bool" where
  "enforcing a \<longleftrightarrow> act_state a = Active"

definition violates_mandatory_signaling ::
  "bip110_activation \<Rightarrow> bip110_deployment \<Rightarrow> u32 \<Rightarrow> u32 \<Rightarrow> bool"
where
  "violates_mandatory_signaling a dep height version =
     (let (lo, hi) = mandatory_window dep
      in act_state a = Started \<and> lo \<le> height \<and> height \<le> hi \<and> \<not> signals dep version)"

type_synonym bip110_cache = "bytes \<rightharpoonup> threshold_state \<times> u32 option"

record bip110_checker =
  ck_dep :: bip110_deployment
  ck_cache :: bip110_cache

definition checker_new :: "bip110_deployment \<Rightarrow> bip110_checker" where
  "checker_new dep = \<lparr>ck_dep = dep, ck_cache = Map.empty\<rparr>"

text \<open>The loop of \<^verbatim>\<open>count_signals\<close>: heights strictly decrease.\<close>

function count_signals_loop ::
  "bitcoin_crate \<Rightarrow> header_index \<Rightarrow> bip110_deployment \<Rightarrow> u32 \<Rightarrow> stored_header \<Rightarrow> u32 \<Rightarrow> u32"
where
  "count_signals_loop L hi dep period_start cur count =
     (let count = (if signals dep (hdr_version (sh_header cur)) then count + 1 else count)
      in if sh_height cur \<le> period_start then count
         else (case get_header L hi (prev_blockhash (sh_header cur)) of
                 Inr (Some p) \<Rightarrow>
                   if sh_height p < sh_height cur
                   then count_signals_loop L hi dep period_start p count else count
               | _ \<Rightarrow> count))"
  by pat_completeness auto
termination
  by (relation "measure (\<lambda>(L, hi, dep, ps, cur, count). unat (sh_height cur))")
    (auto simp: word_less_nat_alt)

declare count_signals_loop.simps [simp del]

definition count_signals ::
  "bitcoin_crate \<Rightarrow> header_index \<Rightarrow> bip110_deployment \<Rightarrow> stored_header \<Rightarrow> u32"
where
  "count_signals L hi dep b = count_signals_loop L hi dep (sh_height b + 1 - dep_period dep) b 0"

text \<open>\<^verbatim>\<open>get_median_time_past(..).unwrap_or(0) as u64\<close>.\<close>

definition mtp_or_zero :: "bitcoin_crate \<Rightarrow> header_index \<Rightarrow> bytes \<Rightarrow> u64" where
  "mtp_or_zero L hi h =
     (case get_median_time_past L hi h of Some t \<Rightarrow> ucast t | None \<Rightarrow> 0)"

definition saturating_add_u32 :: "u32 \<Rightarrow> u32 \<Rightarrow> u32" where
  "saturating_add_u32 a b = (if unat a + unat b < 2 ^ 32 then a + b else 0xffffffff)"

fun transition ::
  "bitcoin_crate \<Rightarrow> header_index \<Rightarrow> bip110_deployment \<Rightarrow> threshold_state \<Rightarrow> u32 option \<Rightarrow> stored_header \<Rightarrow>
     threshold_state \<times> u32 option"
where
  "transition L hi dep Defined activation b =
     (if dep_start_time dep \<le> mtp_or_zero L hi (block_hash L (sh_header b))
      then (Started, None) else (Defined, None))"
| "transition L hi dep Started activation b =
     (let next_period_start = sh_height b + 1;
          sigs = count_signals L hi dep b;
          mandatory = lock_in_floor_height dep \<le> next_period_start
      in if dep_threshold dep \<le> sigs \<or> mandatory
         then (LockedIn, Some (next_period_start + dep_period dep)) else (Started, None))"
| "transition L hi dep LockedIn activation b = (Active, activation)"
| "transition L hi dep Active activation b =
     (case activation of
        Some a \<Rightarrow> if saturating_add_u32 a (active_duration dep) \<le> sh_height b + 1
                  then (Expired, activation) else (Active, activation)
      | None \<Rightarrow> (Active, activation))"
| "transition L hi dep Expired activation b = (Expired, activation)"

text \<open>The first loop of \<^verbatim>\<open>state_at_boundary\<close>: it returns the base state and the stack of boundaries
  that are still to compute, the top of the stack first.\<close>

partial_function (option) boundary_walk ::
  "bitcoin_crate \<Rightarrow> header_index \<Rightarrow> bip110_deployment \<Rightarrow> bip110_cache \<Rightarrow> stored_header \<Rightarrow> stored_header list \<Rightarrow>
     ((threshold_state \<times> u32 option) \<times> stored_header list) option"
where
  "boundary_walk L hi dep cache cur to_compute =
     (case cache (block_hash L (sh_header cur)) of
        Some cached \<Rightarrow> Some (cached, to_compute)
      | None \<Rightarrow>
          if mtp_or_zero L hi (block_hash L (sh_header cur)) < dep_start_time dep
          then Some ((Defined, None), to_compute)
          else if sh_height cur < dep_period dep
          then Some ((Defined, None), cur # to_compute)
          else (case get_ancestor L hi (prev_blockhash (sh_header cur)) (sh_height cur - dep_period dep) of
                  Inl e \<Rightarrow> Some ((Defined, None), cur # to_compute)
                | Inr r \<Rightarrow>
                    (case r of
                       None \<Rightarrow> Some ((Defined, None), cur # to_compute)
                     | Some pb \<Rightarrow> boundary_walk L hi dep cache pb (cur # to_compute))))"

text \<open>The second loop: transitions from the base over the stack, each result entered in the table.\<close>

fun replay ::
  "bitcoin_crate \<Rightarrow> header_index \<Rightarrow> bip110_deployment \<Rightarrow> stored_header list \<Rightarrow>
     threshold_state \<times> u32 option \<Rightarrow> bip110_cache \<Rightarrow> (threshold_state \<times> u32 option) \<times> bip110_cache"
where
  "replay L hi dep [] st cache = (st, cache)"
| "replay L hi dep (b # bs) st cache =
     (let st' = transition L hi dep (fst st) (snd st) b
      in replay L hi dep bs st' (cache(block_hash L (sh_header b) \<mapsto> st')))"

definition state_at_boundary ::
  "bitcoin_crate \<Rightarrow> header_index \<Rightarrow> bip110_checker \<Rightarrow> stored_header \<Rightarrow>
     ((threshold_state \<times> u32 option) \<times> bip110_checker) option"
where
  "state_at_boundary L hi ck boundary =
     (case boundary_walk L hi (ck_dep ck) (ck_cache ck) boundary [] of
        None \<Rightarrow> None
      | Some (base, to_compute) \<Rightarrow>
          (let (st, cache) = replay L hi (ck_dep ck) to_compute base (ck_cache ck)
           in Some (st, ck\<lparr>ck_cache := cache\<rparr>)))"

definition activation_for ::
  "bitcoin_crate \<Rightarrow> header_index \<Rightarrow> bip110_checker \<Rightarrow> bytes \<Rightarrow> u32 \<Rightarrow> (bip110_activation \<times> bip110_checker) option"
where
  "activation_for L hi ck prev_hash height =
     (let period = dep_period (ck_dep ck); period_index = height div period
      in if period = 0 then None
         else if period_index = 0 then Some (INACTIVE, ck)
         else if (case get_median_time_past L hi prev_hash of
                    Some mtp \<Rightarrow> ucast mtp < dep_start_time (ck_dep ck) | None \<Rightarrow> False)
         then Some (INACTIVE, ck)
         else (let boundary_height = period_index * period - 1
               in case get_ancestor L hi prev_hash boundary_height of
                    Inr (Some boundary) \<Rightarrow>
                      (case state_at_boundary L hi ck boundary of
                         None \<Rightarrow> None
                       | Some ((st, ah), ck') \<Rightarrow> Some (\<lparr>act_state = st, activation_height = ah\<rparr>, ck'))
                  | _ \<Rightarrow> Some (INACTIVE, ck)))"

definition activation_at ::
  "bitcoin_crate \<Rightarrow> consensus_params \<Rightarrow> bip110_checker option \<Rightarrow> header_index \<Rightarrow> bytes \<Rightarrow> u32 \<Rightarrow>
     (bip110_activation \<times> bip110_checker option) option"
where
  "activation_at L p checker hi prev_hash height =
     (case bip110_activation_height p of
        Some activation \<Rightarrow> Some (fixed activation height, checker)
      | None \<Rightarrow>
          (case checker of
             Some c \<Rightarrow> map_option (\<lambda>(a, c'). (a, Some c')) (activation_for L hi c prev_hash height)
           | None \<Rightarrow> Some (INACTIVE, None)))"

definition signaling_version ::
  "bitcoin_crate \<Rightarrow> consensus_params \<Rightarrow> bip110_checker option \<Rightarrow> header_index \<Rightarrow> bytes \<Rightarrow> u32 \<Rightarrow>
     (u32 \<times> bip110_checker option) option"
where
  "signaling_version L p checker hi prev_hash height =
     map_option (\<lambda>(activation, checker').
         (case checker of
            Some c \<Rightarrow>
              if act_state activation = Started \<or> act_state activation = LockedIn
              then 0x20000000 OR push_bit (unat (dep_bit (ck_dep c)) mod 32) 1
              else 0x20000000
          | None \<Rightarrow> 0x20000000, checker'))
       (activation_at L p checker hi prev_hash height)"

text \<open>Decimal formatting of an unsigned integer, and the fingerprint.\<close>

fun show_nat :: "nat \<Rightarrow> string" where
  "show_nat n =
     (if n < 10 then [char_of (48 + n)] else show_nat (n div 10) @ [char_of (48 + n mod 10)])"

declare show_nat.simps [simp del]

definition config_fingerprint :: "consensus_params \<Rightarrow> string" where
  "config_fingerprint p =
     (case bip110_activation_height p of
        Some h \<Rightarrow> ''fixed:'' @ show_nat (unat h)
      | None \<Rightarrow>
          (case cp_bip110_deployment p of
             Some d \<Rightarrow>
               ''deployment:period='' @ show_nat (unat (dep_period d)) @
               '',bit='' @ show_nat (unat (dep_bit d)) @
               '',start='' @ show_nat (unat (dep_start_time d)) @
               '',threshold='' @ show_nat (unat (dep_threshold d)) @
               '',floor='' @ show_nat (unat (lock_in_floor_height d)) @
               '',window='' @ show_nat (unat (fst (mandatory_window d))) @
               ''-'' @ show_nat (unat (snd (mandatory_window d))) @
               '',duration='' @ show_nat (unat (active_duration d))
           | None \<Rightarrow> ''off''))"

definition earliest_enforced_height ::
  "bitcoin_crate \<Rightarrow> consensus_params \<Rightarrow> header_index \<Rightarrow> bytes \<Rightarrow> u32 \<Rightarrow> u32 option option"
where
  "earliest_enforced_height L p hi tip_hash tip_height =
     (case bip110_activation_height p of
        Some h \<Rightarrow> Some (Some h)
      | None \<Rightarrow>
          (case cp_bip110_deployment p of
             None \<Rightarrow> Some None
           | Some dep \<Rightarrow>
               map_option (\<lambda>(a, _). activation_height a)
                 (activation_for L hi (checker_new dep) tip_hash (tip_height + 1))))"

end
