(* ===== verification/Bip110_Facts.thy ===== *)
theory Bip110_Facts
  imports Bip110
begin

text \<open>
  Correctness of the BIP-110 checker. The reference is the plain recursion over all period
  boundaries from genesis, without a memo table and without short cuts; the checker agrees with it
  on every well-formed header tree, however the tree grows between calls.
\<close>

section \<open>Medians do not go back\<close>

lemma sorted_nth_ge_iff:
  assumes "k < length xs" and "sorted xs"
  shows "m \<le> xs ! k \<longleftrightarrow> length (filter (\<lambda>y. y < m) xs) \<le> k"
  using assms
proof (induction xs arbitrary: k)
  case (Cons x xs)
  show ?case
  proof (cases "x < m")
    case True
    with Cons show ?thesis by (cases k) auto
  next
    case False
    then have "\<forall>y\<in>set (x # xs). \<not> y < m" using Cons.prems(2) by auto
    then have "filter (\<lambda>y. y < m) (x # xs) = []" by (simp add: filter_empty_conv)
    moreover have "(x # xs) ! k \<in> set (x # xs)" using Cons.prems(1) by (rule nth_mem)
    ultimately show ?thesis
      using \<open>\<forall>y\<in>set (x # xs). \<not> y < m\<close> by (metis le0 list.size(3) not_le)
  qed
qed simp

lemma sort_nth_ge_iff:
  assumes "k < length xs"
  shows "m \<le> sort xs ! k \<longleftrightarrow> length (filter (\<lambda>y. y < m) xs) \<le> k"
proof -
  have "length (filter (\<lambda>y. y < m) (sort xs)) = length (filter (\<lambda>y. y < m) xs)"
    by (simp add: filter_sort)
  with sorted_nth_ge_iff [of k "sort xs" m] assms show ?thesis by simp
qed

lemma median_window_mono:
  fixes x :: "'a :: linorder"
  assumes "xs \<noteq> []" and "length xs \<le> Suc n" and "sort xs ! (length xs div 2) < x"
  shows "sort xs ! (length xs div 2) \<le> sort (x # take n xs) ! (length (x # take n xs) div 2)"
proof -
  define m where "m = sort xs ! (length xs div 2)"
  have "length (filter (\<lambda>y. y < m) xs) \<le> length xs div 2"
    using sort_nth_ge_iff [of "length xs div 2" xs m] assms(1) by (simp add: m_def)
  moreover have "length (filter (\<lambda>y. y < m) (take n xs)) \<le> length (filter (\<lambda>y. y < m) xs)"
    by (metis append_take_drop_id filter_append length_append le_add1)
  moreover have "length xs div 2 \<le> length (x # take n xs) div 2"
    using assms(2) by (intro div_le_mono) simp
  ultimately have "length (filter (\<lambda>y. y < m) (x # take n xs)) \<le> length (x # take n xs) div 2"
    using assms(3) by (simp add: m_def)
  moreover have "length (x # take n xs) div 2 < length (x # take n xs)" by simp
  ultimately show ?thesis using sort_nth_ge_iff [of _ "x # take n xs" m] by (simp add: m_def)
qed

lemma collect_times_take: "collect_times L hi n h = take n (collect_times L hi (Suc n) h)"
proof (induction n arbitrary: h)
  case (Suc n)
  show ?case
    by (simp add: collect_times.simps(2) [of L hi _ h] Suc [symmetric] del: collect_times.simps
        split: sum.split option.split)
qed simp

lemma collect_times_step:
  assumes "get_header L hi h = Inr (Some s)"
  shows "collect_times L hi 11 h
     = hdr_time (sh_header s) # take 10 (collect_times L hi 11 (prev_blockhash (sh_header s)))"
proof -
  have "collect_times L hi (Suc 10) h
      = hdr_time (sh_header s) # collect_times L hi 10 (prev_blockhash (sh_header s))"
    unfolding collect_times.simps(2) assms by simp
  moreover have "collect_times L hi 10 (prev_blockhash (sh_header s))
      = take 10 (collect_times L hi (Suc 10) (prev_blockhash (sh_header s)))"
    by (rule collect_times_take)
  moreover have "Suc 10 = 11" by simp
  ultimately show ?thesis by metis
qed

lemma length_collect_times: "length (collect_times L hi n h) \<le> n"
  by (induction n arbitrary: h) (auto split: sum.split option.split)

lemma unat_u64_of_u32: "unat (ucast (x :: u32) :: u64) = unat x"
proof -
  have "unat x < 2 ^ 64" using unsigned_less [of x, where ?'a = nat] by simp
  then show ?thesis by (simp add: unsigned_ucast_eq take_bit_nat_eq_self)
qed

lemma u64_of_u32_le: "(ucast (x :: u32) :: u64) \<le> ucast y \<longleftrightarrow> x \<le> y"
  by (simp add: word_le_nat_alt unat_u64_of_u32)

section \<open>Well-formed header trees\<close>

text \<open>Headers are keyed by their hash, linked to genesis headers that have no stored parent, and
  each is later than the median time of its parent, as \<^verbatim>\<open>connect_block\<close> requires.\<close>

definition tree_ok :: "bitcoin_crate \<Rightarrow> header_index \<Rightarrow> bool" where
  "tree_ok L hi \<longleftrightarrow> linked L hi \<and>
     (\<forall>h s. get_header L hi h = Inr (Some s) \<longrightarrow>
        block_hash L (sh_header s) = h \<and>
        (if sh_height s = 0 then get_header L hi (prev_blockhash (sh_header s)) = Inr None
         else (\<exists>m. get_median_time_past L hi (prev_blockhash (sh_header s)) = Some m \<and>
                   m < hdr_time (sh_header s))))"

definition stored_in :: "bitcoin_crate \<Rightarrow> header_index \<Rightarrow> stored_header \<Rightarrow> bool" where
  "stored_in L hi s \<longleftrightarrow> get_header L hi (block_hash L (sh_header s)) = Inr (Some s)"

definition extends :: "bitcoin_crate \<Rightarrow> header_index \<Rightarrow> header_index \<Rightarrow> bool" where
  "extends L hi hi' \<longleftrightarrow>
     (\<forall>h s. get_header L hi h = Inr (Some s) \<longrightarrow> get_header L hi' h = Inr (Some s))"

lemma tree_ok_linked: "tree_ok L hi \<Longrightarrow> linked L hi"
  by (simp add: tree_ok_def)

lemma tree_ok_stored: "tree_ok L hi \<Longrightarrow> get_header L hi h = Inr (Some s) \<Longrightarrow> stored_in L hi s"
  by (simp add: tree_ok_def stored_in_def)

lemma tree_ok_hash: "tree_ok L hi \<Longrightarrow> get_header L hi h = Inr (Some s) \<Longrightarrow> block_hash L (sh_header s) = h"
  by (simp add: tree_ok_def)

lemma tree_parent:
  assumes "tree_ok L hi" and "stored_in L hi s" and "sh_height s \<noteq> 0"
  obtains p where "get_header L hi (prev_blockhash (sh_header s)) = Inr (Some p)" "stored_in L hi p"
    "unat (sh_height s) = Suc (unat (sh_height p))" "sh_height p < sh_height s"
    "block_hash L (sh_header p) = prev_blockhash (sh_header s)"
proof -
  have "linked_at L hi s" using assms(1,2) by (auto simp: tree_ok_def linked_def stored_in_def)
  from linked_parent [OF this assms(3)] obtain p where
    p: "get_header L hi (prev_blockhash (sh_header s)) = Inr (Some p)" "sh_height p < sh_height s"
      "unat (sh_height s) = Suc (unat (sh_height p))" .
  then show thesis using that assms(1) tree_ok_hash tree_ok_stored by blast
qed

lemma mtp_stored:
  assumes "stored_in L hi s"
  shows "\<exists>m. get_median_time_past L hi (block_hash L (sh_header s)) = Some m"
  using collect_times_step [of L hi "block_hash L (sh_header s)" s] assms
  by (simp add: get_median_time_past_def stored_in_def Let_def)

lemma mtp_parent_mono:
  assumes "tree_ok L hi" and "stored_in L hi s" and "sh_height s \<noteq> 0"
  shows "mtp_or_zero L hi (prev_blockhash (sh_header s)) \<le> mtp_or_zero L hi (block_hash L (sh_header s))"
proof -
  let ?xs = "collect_times L hi 11 (prev_blockhash (sh_header s))"
  let ?x = "hdr_time (sh_header s)"
  have "get_header L hi (block_hash L (sh_header s)) = Inr (Some s)" using assms(2) by (simp add: stored_in_def)
  with assms(1,3) obtain m where m: "get_median_time_past L hi (prev_blockhash (sh_header s)) = Some m" "m < ?x"
    unfolding tree_ok_def by metis
  then have xs: "?xs \<noteq> []" "m = sort ?xs ! (length ?xs div 2)"
    by (simp_all add: get_median_time_past_def Let_def split: if_splits)
  have w: "collect_times L hi 11 (block_hash L (sh_header s)) = ?x # take 10 ?xs"
    using assms(2) by (intro collect_times_step) (simp add: stored_in_def)
  have "length ?xs \<le> Suc 10" using length_collect_times [of L hi 11] by simp
  have "m \<le> sort (?x # take 10 ?xs) ! (length (?x # take 10 ?xs) div 2)"
    unfolding xs(2) using xs m(2) \<open>length ?xs \<le> Suc 10\<close>
    by (intro median_window_mono) simp_all
  then have "\<exists>m'. get_median_time_past L hi (block_hash L (sh_header s)) = Some m' \<and> m \<le> m'"
    unfolding get_median_time_past_def Let_def w by simp
  with m(1) show ?thesis by (auto simp: mtp_or_zero_def u64_of_u32_le)
qed

section \<open>Ancestors in a tree\<close>

lemma nth_ancestor_stored:
  assumes "tree_ok L hi" and "stored_in L hi s" and "n \<le> unat (sh_height s)"
  shows "\<exists>a. nth_ancestor L hi n s = Some a \<and> stored_in L hi a \<and>
     unat (sh_height a) = unat (sh_height s) - n \<and>
     mtp_or_zero L hi (block_hash L (sh_header a)) \<le> mtp_or_zero L hi (block_hash L (sh_header s))"
  using assms(2,3)
proof (induction n arbitrary: s)
  case (Suc n)
  then have "sh_height s \<noteq> 0" by auto
  from tree_parent [OF assms(1) Suc.prems(1) this] obtain p where
    p: "get_header L hi (prev_blockhash (sh_header s)) = Inr (Some p)" "stored_in L hi p"
      "unat (sh_height s) = Suc (unat (sh_height p))"
      "block_hash L (sh_header p) = prev_blockhash (sh_header s)" by metis
  with Suc.IH [of p] Suc.prems(2) obtain a where
    a: "nth_ancestor L hi n p = Some a" "stored_in L hi a"
      "unat (sh_height a) = unat (sh_height p) - n"
      "mtp_or_zero L hi (block_hash L (sh_header a)) \<le> mtp_or_zero L hi (block_hash L (sh_header p))"
    by auto
  from mtp_parent_mono [OF assms(1) Suc.prems(1) \<open>sh_height s \<noteq> 0\<close>] p(4) a(4)
  have "mtp_or_zero L hi (block_hash L (sh_header a)) \<le> mtp_or_zero L hi (block_hash L (sh_header s))"
    by (simp add: order_trans)
  with a p show ?case by simp
qed simp

lemma get_ancestor_is_nth:
  assumes "tree_ok L hi" and "get_header L hi h = Inr (Some s)" and "unat t = unat (sh_height s) - n"
    and "n \<le> unat (sh_height s)"
  shows "\<exists>a. get_ancestor L hi h t = Inr (Some a) \<and> nth_ancestor L hi n s = Some a"
proof -
  have "t \<le> sh_height s" using assms(3) by (simp add: word_le_nat_alt)
  moreover have "linked_at L hi s" using assms(1,2) by (auto simp: tree_ok_def linked_def)
  moreover have "unat (sh_height s) - unat t = n" using assms(3,4) by simp
  ultimately show ?thesis
    using get_ancestor_loop_exact [OF tree_ok_linked [OF assms(1)], of s t] assms(2)
    by (auto simp: get_ancestor_def)
qed

text \<open>The previous boundary, as the checker looks it up from the parent.\<close>

lemma previous_boundary:
  assumes "tree_ok L hi" and "stored_in L hi b" and "0 < n" and "n \<le> unat (sh_height b)"
    and "unat t = unat (sh_height b) - n"
  shows "\<exists>a. get_ancestor L hi (prev_blockhash (sh_header b)) t = Inr (Some a) \<and>
           nth_ancestor L hi n b = Some a"
proof -
  from assms(3,4) have "sh_height b \<noteq> 0" by auto
  from tree_parent [OF assms(1,2) this] obtain p where
    p: "get_header L hi (prev_blockhash (sh_header b)) = Inr (Some p)"
      "unat (sh_height b) = Suc (unat (sh_height p))" by metis
  obtain m where m: "n = Suc m" using assms(3) gr0_conv_Suc by blast
  show ?thesis
    using get_ancestor_is_nth [OF assms(1) p(1), of t m] p assms(4,5) by (simp add: m)
qed

section \<open>The reference recursion\<close>

fun bip8_state ::
  "bitcoin_crate \<Rightarrow> header_index \<Rightarrow> bip110_deployment \<Rightarrow> nat \<Rightarrow> stored_header \<Rightarrow> threshold_state \<times> u32 option"
where
  "bip8_state L hi dep 0 b = transition L hi dep Defined None b"
| "bip8_state L hi dep (Suc k) b =
     (case nth_ancestor L hi (unat (dep_period dep)) b of
        Some pb \<Rightarrow> (let st = bip8_state L hi dep k pb in transition L hi dep (fst st) (snd st) b)
      | None \<Rightarrow> (Defined, None))"

text \<open>\<open>b\<close> is the last block of period \<open>k\<close>.\<close>

definition ends_period :: "bip110_deployment \<Rightarrow> nat \<Rightarrow> stored_header \<Rightarrow> bool" where
  "ends_period dep k b \<longleftrightarrow> Suc (unat (sh_height b)) = Suc k * unat (dep_period dep)"

lemma ends_period_unique:
  assumes "dep_period dep \<noteq> 0" and "ends_period dep k b" and "ends_period dep k' b"
  shows "k' = k"
proof -
  have "0 < unat (dep_period dep)" using assms(1) by (simp add: unat_gt_0)
  moreover have "Suc k * unat (dep_period dep) = Suc k' * unat (dep_period dep)"
    using assms(2,3) by (simp add: ends_period_def)
  ultimately show ?thesis by simp
qed

lemma ends_period_previous:
  assumes "tree_ok L hi" and "stored_in L hi b" and "dep_period dep \<noteq> 0" and "ends_period dep (Suc k) b"
  shows "\<exists>pb. nth_ancestor L hi (unat (dep_period dep)) b = Some pb \<and> stored_in L hi pb \<and>
           ends_period dep k pb \<and>
           mtp_or_zero L hi (block_hash L (sh_header pb)) \<le> mtp_or_zero L hi (block_hash L (sh_header b)) \<and>
           get_ancestor L hi (prev_blockhash (sh_header b)) (sh_height b - dep_period dep) = Inr (Some pb)"
proof -
  let ?n = "unat (dep_period dep)"
  have n: "0 < ?n" "?n \<le> unat (sh_height b)"
    using assms(3,4) by (auto simp: ends_period_def unat_gt_0)
  then have t: "unat (sh_height b - dep_period dep) = unat (sh_height b) - ?n"
    by (intro unat_sub) (simp add: word_le_nat_alt)
  from nth_ancestor_stored [OF assms(1,2) n(2)] previous_boundary [OF assms(1,2) n t] n assms(4)
  show ?thesis by (auto simp: ends_period_def)
qed

lemma bip8_before_start:
  assumes "tree_ok L hi" and "dep_period dep \<noteq> 0"
  shows "stored_in L hi b \<Longrightarrow> ends_period dep k b \<Longrightarrow>
    mtp_or_zero L hi (block_hash L (sh_header b)) < dep_start_time dep \<Longrightarrow>
    bip8_state L hi dep k b = (Defined, None)"
proof (induction k arbitrary: b)
  case (Suc k)
  from ends_period_previous [OF assms(1) Suc.prems(1) assms(2) Suc.prems(2)] obtain pb where
    pb: "nth_ancestor L hi (unat (dep_period dep)) b = Some pb" "stored_in L hi pb" "ends_period dep k pb"
      "mtp_or_zero L hi (block_hash L (sh_header pb)) \<le> mtp_or_zero L hi (block_hash L (sh_header b))" by blast
  with Suc.IH [of pb] Suc.prems(3) have "bip8_state L hi dep k pb = (Defined, None)"
    by (simp add: order_le_less_trans)
  with pb(1) Suc.prems(3) show ?case by (simp add: not_le)
qed (simp add: not_le)

section \<open>The memo table\<close>

definition cache_ok :: "bitcoin_crate \<Rightarrow> header_index \<Rightarrow> bip110_deployment \<Rightarrow> bip110_cache \<Rightarrow> bool" where
  "cache_ok L hi dep cache \<longleftrightarrow>
     (\<forall>h st. cache h = Some st \<longrightarrow>
        (\<exists>b k. get_header L hi h = Inr (Some b) \<and> ends_period dep k b \<and> st = bip8_state L hi dep k b))"

lemma cache_ok_empty [simp]: "cache_ok L hi dep Map.empty"
  by (simp add: cache_ok_def)

lemma cache_ok_hit:
  assumes "cache_ok L hi dep cache" and "cache (block_hash L (sh_header b)) = Some st"
    and "stored_in L hi b" and "ends_period dep k b" and "dep_period dep \<noteq> 0"
  shows "st = bip8_state L hi dep k b"
proof -
  from assms(1,2) obtain b' k' where
    b: "get_header L hi (block_hash L (sh_header b)) = Inr (Some b')" "ends_period dep k' b'"
      "st = bip8_state L hi dep k' b'" unfolding cache_ok_def by blast
  then have "b' = b" using assms(3) by (simp add: stored_in_def)
  with b ends_period_unique [OF assms(5,4)] show ?thesis by simp
qed

lemma cache_ok_insert:
  assumes "cache_ok L hi dep cache" and "stored_in L hi b" and "ends_period dep k b"
  shows "cache_ok L hi dep (cache(block_hash L (sh_header b) \<mapsto> bip8_state L hi dep k b))"
  using assms unfolding cache_ok_def stored_in_def by auto

text \<open>The walk and the replay compute the reference, whatever is below on the stack.\<close>

lemma boundary_walk_correct:
  assumes tree: "tree_ok L hi" and nz: "dep_period dep \<noteq> 0" and cache: "cache_ok L hi dep cache"
  shows "stored_in L hi b \<Longrightarrow> ends_period dep k b \<Longrightarrow>
    \<exists>base todo. boundary_walk L hi dep cache b acc = Some (base, todo @ acc) \<and>
      (\<forall>c. cache_ok L hi dep c \<longrightarrow>
         (\<exists>c'. cache_ok L hi dep c' \<and>
            (\<forall>rest. replay L hi dep (todo @ rest) base c = replay L hi dep rest (bip8_state L hi dep k b) c')))"
proof (induction k arbitrary: b acc)
  case (0 b acc)
  show ?case
  proof (cases "cache (block_hash L (sh_header b))")
    case (Some st)
    with cache_ok_hit [OF cache Some 0 nz] show ?thesis
      by (intro exI [of _ st] exI [of _ "[]"]) (auto simp: boundary_walk.simps)
  next
    case None
    have small: "sh_height b < dep_period dep" using 0(2) by (simp add: ends_period_def word_less_nat_alt)
    show ?thesis
    proof (cases "mtp_or_zero L hi (block_hash L (sh_header b)) < dep_start_time dep")
      case True
      with None bip8_before_start [OF tree nz 0 True] show ?thesis
        by (intro exI [of _ "(Defined, None)"] exI [of _ "[]"]) (auto simp: boundary_walk.simps)
    next
      case False
      with None small cache_ok_insert [OF _ 0, of cache] show ?thesis
        by (intro exI [of _ "(Defined, None)"] exI [of _ "[b]"])
          (auto simp: boundary_walk.simps Let_def intro!: cache_ok_insert [OF _ 0, simplified])
    qed
  qed
next
  case (Suc k b acc)
  show ?case
  proof (cases "cache (block_hash L (sh_header b))")
    case (Some st)
    with cache_ok_hit [OF cache Some Suc.prems nz] show ?thesis
      by (intro exI [of _ st] exI [of _ "[]"]) (auto simp: boundary_walk.simps)
  next
    case None
    have big: "\<not> sh_height b < dep_period dep"
      using Suc.prems(2) nz by (auto simp: ends_period_def word_less_nat_alt unat_gt_0)
    from ends_period_previous [OF tree Suc.prems(1) nz Suc.prems(2)] obtain pb where
      pb: "nth_ancestor L hi (unat (dep_period dep)) b = Some pb" "stored_in L hi pb" "ends_period dep k pb"
        "get_ancestor L hi (prev_blockhash (sh_header b)) (sh_height b - dep_period dep) = Inr (Some pb)"
      by blast
    show ?thesis
    proof (cases "mtp_or_zero L hi (block_hash L (sh_header b)) < dep_start_time dep")
      case True
      with None bip8_before_start [OF tree nz Suc.prems True] show ?thesis
        by (intro exI [of _ "(Defined, None)"] exI [of _ "[]"]) (auto simp: boundary_walk.simps)
    next
      case False
      from Suc.IH [OF pb(2,3), of "b # acc"] obtain base todo where
        w: "boundary_walk L hi dep cache pb (b # acc) = Some (base, todo @ b # acc)"
        and r: "\<And>c. cache_ok L hi dep c \<Longrightarrow> \<exists>c'. cache_ok L hi dep c' \<and>
            (\<forall>rest. replay L hi dep (todo @ rest) base c = replay L hi dep rest (bip8_state L hi dep k pb) c')"
        by blast
      have "boundary_walk L hi dep cache b acc = Some (base, (todo @ [b]) @ acc)"
        using None False big pb(4) w by (simp add: boundary_walk.simps [of L hi dep cache b])
      moreover have "\<exists>c'. cache_ok L hi dep c' \<and> (\<forall>rest. replay L hi dep ((todo @ [b]) @ rest) base c
            = replay L hi dep rest (bip8_state L hi dep (Suc k) b) c')" if c: "cache_ok L hi dep c" for c
      proof -
        from r [OF c] obtain c' where c': "cache_ok L hi dep c'"
          "\<And>rest. replay L hi dep (todo @ rest) base c = replay L hi dep rest (bip8_state L hi dep k pb) c'"
          by blast
        from cache_ok_insert [OF c'(1) Suc.prems] c'(2) [of "b # _"] pb(1) show ?thesis
          by (intro exI [of _ "c'(block_hash L (sh_header b) \<mapsto> bip8_state L hi dep (Suc k) b)"])
            (simp add: Let_def)
      qed
      ultimately show ?thesis by blast
    qed
  qed
qed

lemma state_at_boundary_correct:
  assumes "tree_ok L hi" and "dep_period (ck_dep ck) \<noteq> 0" and "cache_ok L hi (ck_dep ck) (ck_cache ck)"
    and "stored_in L hi b" and "ends_period (ck_dep ck) k b"
  shows "\<exists>ck'. state_at_boundary L hi ck b = Some (bip8_state L hi (ck_dep ck) k b, ck') \<and>
           ck_dep ck' = ck_dep ck \<and> cache_ok L hi (ck_dep ck) (ck_cache ck')"
proof -
  from boundary_walk_correct [OF assms, of "[]"] assms(3) obtain base todo c' where
    w: "boundary_walk L hi (ck_dep ck) (ck_cache ck) b [] = Some (base, todo)"
    and r: "cache_ok L hi (ck_dep ck) c'" "\<And>rest. replay L hi (ck_dep ck) (todo @ rest) base (ck_cache ck)
          = replay L hi (ck_dep ck) rest (bip8_state L hi (ck_dep ck) k b) c'" by force
  from r(2) [of "[]"] w r(1) show ?thesis by (simp add: state_at_boundary_def)
qed

section \<open>The checker agrees with the reference\<close>

definition activation_ref ::
  "bitcoin_crate \<Rightarrow> header_index \<Rightarrow> bip110_deployment \<Rightarrow> bytes \<Rightarrow> u32 \<Rightarrow> bip110_activation"
where
  "activation_ref L hi dep prev_hash height =
     (let period = unat (dep_period dep); n = unat height div period
      in if n = 0 then INACTIVE
         else (case get_header L hi prev_hash of
                 Inr (Some p) \<Rightarrow>
                   (case nth_ancestor L hi (unat height mod period) p of
                      Some b \<Rightarrow> (let (st, ah) = bip8_state L hi dep (n - 1) b
                                 in \<lparr>act_state = st, activation_height = ah\<rparr>)
                    | None \<Rightarrow> INACTIVE)
               | _ \<Rightarrow> INACTIVE))"

text \<open>A query asks for the block that follows a stored parent.\<close>

definition query_ok :: "bitcoin_crate \<Rightarrow> header_index \<Rightarrow> bytes \<Rightarrow> u32 \<Rightarrow> bool" where
  "query_ok L hi prev_hash height \<longleftrightarrow>
     (\<exists>p. get_header L hi prev_hash = Inr (Some p) \<and> unat height = Suc (unat (sh_height p)))"

lemma boundary_height:
  assumes "(period :: u32) \<noteq> 0" and "period \<le> height"
  shows "unat (height div period * period - 1) = unat height div unat period * unat period - 1"
proof -
  let ?n = "unat height div unat period * unat period"
  have "?n < 2 ^ 32"
    using unsigned_less [of height, where ?'a = nat]
    by (intro le_less_trans [OF div_times_less_eq_dividend]) simp
  then have n: "unat (height div period * period) = ?n"
    using unat_mult_lem [of "height div period" period] by (simp add: unat_div)
  have "0 < unat period" "unat period \<le> unat height"
    using assms by (simp_all add: unat_gt_0 word_le_nat_alt)
  then have "0 < ?n" by (simp add: div_greater_zero_iff)
  then have "1 \<le> height div period * period"
    by (metis n One_nat_def Suc_leI unat_1 word_le_nat_alt)
  then show ?thesis using n by (simp add: unat_sub)
qed

text \<open>The boundary of a query, found from the parent.\<close>

lemma query_boundary:
  assumes "tree_ok L hi" and "query_ok L hi prev_hash height" and "dep_period dep \<noteq> 0"
    and "dep_period dep \<le> height"
  shows "\<exists>p b. get_header L hi prev_hash = Inr (Some p) \<and>
     get_ancestor L hi prev_hash (height div dep_period dep * dep_period dep - 1) = Inr (Some b) \<and>
     nth_ancestor L hi (unat height mod unat (dep_period dep)) p = Some b \<and> stored_in L hi b \<and>
     ends_period dep (unat height div unat (dep_period dep) - 1) b \<and>
     mtp_or_zero L hi (block_hash L (sh_header b)) \<le> mtp_or_zero L hi prev_hash"
proof -
  let ?P = "unat (dep_period dep)"
  from assms(2) obtain p where p: "get_header L hi prev_hash = Inr (Some p)"
    "unat height = Suc (unat (sh_height p))" by (auto simp: query_ok_def)
  have P: "0 < ?P" "?P \<le> unat height" using assms(3,4) by (simp_all add: unat_gt_0 word_le_nat_alt)
  then have q: "0 < unat height div ?P" by (simp add: div_greater_zero_iff)
  have split: "unat height = unat height div ?P * ?P + unat height mod ?P" by simp
  have "?P \<le> unat height div ?P * ?P" using q by simp
  then have le: "unat height mod ?P \<le> unat (sh_height p)" using P p(2) split by linarith
  have t: "unat (height div dep_period dep * dep_period dep - 1) = unat (sh_height p) - unat height mod ?P"
    using boundary_height [OF assms(3,4)] p(2) split by linarith
  have st: "stored_in L hi p" "block_hash L (sh_header p) = prev_hash"
    using tree_ok_stored [OF assms(1) p(1)] tree_ok_hash [OF assms(1) p(1)] by auto
  from get_ancestor_is_nth [OF assms(1) p(1) t le] nth_ancestor_stored [OF assms(1) st(1) le] obtain b where
    b: "get_ancestor L hi prev_hash (height div dep_period dep * dep_period dep - 1) = Inr (Some b)"
      "nth_ancestor L hi (unat height mod ?P) p = Some b" "stored_in L hi b"
      "unat (sh_height b) = unat (sh_height p) - unat height mod ?P"
      "mtp_or_zero L hi (block_hash L (sh_header b)) \<le> mtp_or_zero L hi (block_hash L (sh_header p))"
    by auto
  have "Suc (unat (sh_height b)) = unat height div ?P * ?P" using b(4) le p(2) split by linarith
  moreover have "Suc (unat height div ?P - 1) = unat height div ?P" using q by simp
  ultimately have "ends_period dep (unat height div ?P - 1) b" unfolding ends_period_def by metis
  with p(1) b st(2) show ?thesis by auto
qed

lemma activation_for_correct:
  assumes "tree_ok L hi" and "query_ok L hi prev_hash height" and "dep_period (ck_dep ck) \<noteq> 0"
    and "cache_ok L hi (ck_dep ck) (ck_cache ck)"
  shows "\<exists>ck'. activation_for L hi ck prev_hash height
             = Some (activation_ref L hi (ck_dep ck) prev_hash height, ck') \<and>
           ck_dep ck' = ck_dep ck \<and> cache_ok L hi (ck_dep ck) (ck_cache ck')"
proof (cases "height < dep_period (ck_dep ck)")
  case True
  then have q: "unat height div unat (dep_period (ck_dep ck)) = 0" by (simp add: word_less_nat_alt)
  then have "height div dep_period (ck_dep ck) = 0" by (metis unat_div unat_eq_zero)
  with q assms show ?thesis by (auto simp: activation_for_def activation_ref_def Let_def)
next
  case False
  then have le: "dep_period (ck_dep ck) \<le> height" by simp
  let ?P = "unat (dep_period (ck_dep ck))"
  have "0 < ?P" "?P \<le> unat height" using assms(3) le by (simp_all add: unat_gt_0 word_le_nat_alt)
  then have q: "unat height div ?P \<noteq> 0" by (simp add: div_greater_zero_iff)
  then have q': "height div dep_period (ck_dep ck) \<noteq> 0" by (metis unat_0 unat_div)
  from query_boundary [OF assms(1-3) le] obtain p b where
    b: "get_header L hi prev_hash = Inr (Some p)"
      "get_ancestor L hi prev_hash (height div dep_period (ck_dep ck) * dep_period (ck_dep ck) - 1) = Inr (Some b)"
      "nth_ancestor L hi (unat height mod ?P) p = Some b" "stored_in L hi b"
      "ends_period (ck_dep ck) (unat height div ?P - 1) b"
      "mtp_or_zero L hi (block_hash L (sh_header b)) \<le> mtp_or_zero L hi prev_hash" by blast
  from mtp_stored [OF tree_ok_stored [OF assms(1) b(1)]] tree_ok_hash [OF assms(1) b(1)] obtain m where
    m: "get_median_time_past L hi prev_hash = Some m" by auto
  show ?thesis
  proof (cases "(ucast m :: u64) < dep_start_time (ck_dep ck)")
    case True
    with b(6) m have "mtp_or_zero L hi (block_hash L (sh_header b)) < dep_start_time (ck_dep ck)"
      by (simp add: mtp_or_zero_def order_le_less_trans)
    from bip8_before_start [OF assms(1,3) b(4,5) this] True b m q q' assms(3,4) show ?thesis
      by (auto simp: activation_for_def activation_ref_def INACTIVE_def Let_def)
  next
    case False
    from state_at_boundary_correct [OF assms(1,3,4) b(4,5)] False b m q q' assms(3) show ?thesis
      by (auto simp: activation_for_def activation_ref_def Let_def split: prod.split)
  qed
qed

section \<open>A growing tree\<close>

lemma extends_stored: "extends L hi hi' \<Longrightarrow> stored_in L hi s \<Longrightarrow> stored_in L hi' s"
  by (simp add: extends_def stored_in_def)

lemma collect_times_extends:
  assumes "tree_ok L hi" and "tree_ok L hi'" and "extends L hi hi'"
  shows "get_header L hi h = Inr (Some s) \<Longrightarrow> collect_times L hi' n h = collect_times L hi n h"
proof (induction n arbitrary: h s)
  case (Suc n)
  have h': "get_header L hi' h = Inr (Some s)" using assms(3) Suc.prems by (simp add: extends_def)
  show ?case
  proof (cases "sh_height s = 0")
    case True
    then have "get_header L hi (prev_blockhash (sh_header s)) = Inr None"
      "get_header L hi' (prev_blockhash (sh_header s)) = Inr None"
      using assms(1,2) Suc.prems h' unfolding tree_ok_def by metis+
    then show ?thesis using Suc.prems h' by (cases n) simp_all
  next
    case False
    from tree_parent [OF assms(1) tree_ok_stored [OF assms(1) Suc.prems] False] obtain p where
      "get_header L hi (prev_blockhash (sh_header s)) = Inr (Some p)" by metis
    from Suc.IH [OF this] Suc.prems h' show ?thesis by simp
  qed
qed simp

lemma mtp_extends:
  assumes "tree_ok L hi" and "tree_ok L hi'" and "extends L hi hi'" and "get_header L hi h = Inr (Some s)"
  shows "mtp_or_zero L hi' h = mtp_or_zero L hi h"
  unfolding mtp_or_zero_def get_median_time_past_def collect_times_extends [OF assms] ..

lemma count_signals_loop_extends:
  assumes "tree_ok L hi" and "extends L hi hi'"
  shows "stored_in L hi cur \<Longrightarrow>
    count_signals_loop L hi' dep ps cur count = count_signals_loop L hi dep ps cur count"
proof (induction "unat (sh_height cur)" arbitrary: cur count rule: less_induct)
  case less
  show ?case
  proof (cases "sh_height cur \<le> ps")
    case True
    then show ?thesis by (simp add: count_signals_loop.simps [of L _ dep ps cur])
  next
    case False
    then have "sh_height cur \<noteq> 0" by auto
    from tree_parent [OF assms(1) less.prems this] obtain p where
      p: "get_header L hi (prev_blockhash (sh_header cur)) = Inr (Some p)" "stored_in L hi p"
        "unat (sh_height cur) = Suc (unat (sh_height p))" "sh_height p < sh_height cur" by metis
    moreover have "get_header L hi' (prev_blockhash (sh_header cur)) = Inr (Some p)"
      using assms(2) p(1) by (simp add: extends_def)
    ultimately show ?thesis
      using less.hyps [of p] by (simp add: count_signals_loop.simps [of L _ dep ps cur] Let_def)
  qed
qed

lemma transition_extends:
  assumes "tree_ok L hi" and "tree_ok L hi'" and "extends L hi hi'" and "stored_in L hi b"
  shows "transition L hi' dep st a b = transition L hi dep st a b"
  using mtp_extends [OF assms(1-3), of "block_hash L (sh_header b)" b]
    count_signals_loop_extends [OF assms(1,3,4)] assms(4)
  by (cases st) (simp_all add: count_signals_def stored_in_def)

lemma nth_ancestor_extends:
  assumes "extends L hi hi'"
  shows "nth_ancestor L hi n s = Some a \<Longrightarrow> nth_ancestor L hi' n s = Some a"
proof (induction n arbitrary: s)
  case (Suc n)
  then show ?case using assms by (auto simp: extends_def split: sum.splits option.splits)
qed simp

lemma bip8_state_extends:
  assumes "tree_ok L hi" and "tree_ok L hi'" and "extends L hi hi'" and "dep_period dep \<noteq> 0"
  shows "stored_in L hi b \<Longrightarrow> ends_period dep k b \<Longrightarrow> bip8_state L hi' dep k b = bip8_state L hi dep k b"
proof (induction k arbitrary: b)
  case 0
  then show ?case by (simp only: bip8_state.simps transition_extends [OF assms(1-3)])
next
  case (Suc k)
  from ends_period_previous [OF assms(1) Suc.prems(1) assms(4) Suc.prems(2)] obtain pb where
    pb: "nth_ancestor L hi (unat (dep_period dep)) b = Some pb" "stored_in L hi pb" "ends_period dep k pb"
    by blast
  with Suc.IH [OF pb(2,3)] nth_ancestor_extends [OF assms(3) pb(1)] transition_extends [OF assms(1-3) Suc.prems(1)]
  show ?case by simp
qed

lemma cache_ok_extends:
  assumes "tree_ok L hi" and "tree_ok L hi'" and "extends L hi hi'" and "dep_period dep \<noteq> 0"
    and "cache_ok L hi dep cache"
  shows "cache_ok L hi' dep cache"
  unfolding cache_ok_def
proof (intro allI impI)
  fix h st assume "cache h = Some st"
  with assms(5) obtain b k where b: "get_header L hi h = Inr (Some b)" "ends_period dep k b"
    "st = bip8_state L hi dep k b" unfolding cache_ok_def by blast
  with bip8_state_extends [OF assms(1-4) tree_ok_stored [OF assms(1) b(1)] b(2)] assms(3)
  show "\<exists>b k. get_header L hi' h = Inr (Some b) \<and> ends_period dep k b \<and> st = bip8_state L hi' dep k b"
    unfolding extends_def by metis
qed

text \<open>One checker serves a sequence of queries while headers arrive.\<close>

fun run_queries ::
  "bitcoin_crate \<Rightarrow> bip110_checker \<Rightarrow> (header_index \<times> bytes \<times> u32) list \<Rightarrow> bip110_activation list option"
where
  "run_queries L ck [] = Some []"
| "run_queries L ck ((hi, prev_hash, height) # qs) =
     (case activation_for L hi ck prev_hash height of
        None \<Rightarrow> None
      | Some (a, ck') \<Rightarrow> map_option (Cons a) (run_queries L ck' qs))"

fun growing :: "bitcoin_crate \<Rightarrow> header_index \<Rightarrow> (header_index \<times> bytes \<times> u32) list \<Rightarrow> bool" where
  "growing L hi0 [] \<longleftrightarrow> True"
| "growing L hi0 ((hi, prev_hash, height) # qs) \<longleftrightarrow>
     tree_ok L hi \<and> extends L hi0 hi \<and> query_ok L hi prev_hash height \<and> growing L hi qs"

lemma run_queries_correct:
  assumes "dep_period (ck_dep ck) \<noteq> 0"
  shows "tree_ok L hi0 \<Longrightarrow> growing L hi0 qs \<Longrightarrow> cache_ok L hi0 (ck_dep ck) (ck_cache ck) \<Longrightarrow>
    run_queries L ck qs = Some (map (\<lambda>(hi, prev_hash, height). activation_ref L hi (ck_dep ck) prev_hash height) qs)"
  using assms
proof (induction qs arbitrary: ck hi0)
  case (Cons q qs)
  obtain hi prev_hash height where q: "q = (hi, prev_hash, height)" by (cases q)
  have hi: "tree_ok L hi" "extends L hi0 hi" "query_ok L hi prev_hash height" "growing L hi qs"
    using Cons.prems(2) by (simp_all add: q)
  have "cache_ok L hi (ck_dep ck) (ck_cache ck)"
    using cache_ok_extends [OF Cons.prems(1) hi(1,2) Cons.prems(4,3)] .
  from activation_for_correct [OF hi(1,3) Cons.prems(4) this] obtain ck' where
    ck': "activation_for L hi ck prev_hash height = Some (activation_ref L hi (ck_dep ck) prev_hash height, ck')"
      "ck_dep ck' = ck_dep ck" "cache_ok L hi (ck_dep ck) (ck_cache ck')" by blast
  with Cons.IH [OF hi(1,4), of ck'] Cons.prems(4) show ?case by (simp add: q)
qed simp

section \<open>The machine only moves forward\<close>

fun threshold_rank :: "threshold_state \<Rightarrow> nat" where
  "threshold_rank Defined = 0"
| "threshold_rank Started = 1"
| "threshold_rank LockedIn = 2"
| "threshold_rank Active = 3"
| "threshold_rank Expired = 4"

interpretation bip8: ranked_machine "\<lambda>b st. transition L hi dep (fst st) (snd st) b"
  "\<lambda>st. threshold_rank (fst st)" "\<lambda>st. fst st = Expired" for L hi dep
proof
  show "threshold_rank (fst s) \<le> threshold_rank (fst (transition L hi dep (fst s) (snd s) b))" for s b
    by (cases "fst s") (auto simp: Let_def split: option.split)
  show "fst s = Expired \<Longrightarrow> transition L hi dep (fst s) (snd s) b = s" for s b
    by (cases s) simp
qed

lemma replay_rank: "threshold_rank (fst st) \<le> threshold_rank (fst (fst (replay L hi dep bs st cache)))"
proof -
  have "fst (replay L hi dep bs st cache) = fold (\<lambda>b st. transition L hi dep (fst st) (snd st) b) bs st"
    by (induction bs arbitrary: st cache) (simp_all add: Let_def)
  then show ?thesis using bip8.run_rank by simp
qed

section \<open>The window of enforcement\<close>

fun window_inv :: "bip110_deployment \<Rightarrow> nat \<Rightarrow> threshold_state \<times> u32 option \<Rightarrow> bool" where
  "window_inv dep start (Defined, a) \<longleftrightarrow> a = None"
| "window_inv dep start (Started, a) \<longleftrightarrow> a = None"
| "window_inv dep start (LockedIn, a) \<longleftrightarrow>
     (\<exists>h. a = Some h \<and> unat h = start + unat (dep_period dep))"
| "window_inv dep start (Active, a) \<longleftrightarrow>
     (\<exists>h. a = Some h \<and> unat (dep_period dep) dvd unat h \<and> unat h \<le> start \<and>
          start < unat h + unat (active_duration dep))"
| "window_inv dep start (Expired, a) \<longleftrightarrow>
     (\<exists>h. a = Some h \<and> unat (dep_period dep) dvd unat h \<and> unat h + unat (active_duration dep) \<le> start)"

lemma saturating_add_le_iff:
  assumes "unat n < 2 ^ 32 - 1"
  shows "saturating_add_u32 a b \<le> n \<longleftrightarrow> unat a + unat b \<le> unat n"
proof (cases "unat a + unat b < 2 ^ 32")
  case True
  then have "unat (a + b) = unat a + unat b" using unat_add_lem [of a b] by simp
  with True show ?thesis by (simp add: saturating_add_u32_def word_le_nat_alt)
next
  case False
  with assms show ?thesis by (auto simp: saturating_add_u32_def word_le_nat_alt)
qed

lemma window_inv_step:
  assumes "window_inv dep (k * unat (dep_period dep)) st"
    and "Suc (unat (sh_height b)) = Suc k * unat (dep_period dep)"
    and "Suc (Suc k) * unat (dep_period dep) < 2 ^ 32 - 1" and "active_duration dep \<noteq> 0"
  shows "window_inv dep (Suc k * unat (dep_period dep)) (transition L hi dep (fst st) (snd st) b)"
proof -
  let ?P = "unat (dep_period dep)"
  have h1: "unat (sh_height b + 1) = Suc k * ?P"
    using assms(2,3) unat_add_lem [of "sh_height b" 1] by simp
  have h2: "unat (sh_height b + 1 + dep_period dep) = Suc k * ?P + ?P"
    using assms(3) unat_add_lem [of "sh_height b + 1" "dep_period dep"] unfolding h1 by simp
  have dur: "0 < unat (active_duration dep)" using assms(4) by (simp add: unat_gt_0)
  obtain s a where st: "st = (s, a)" by (cases st)
  show ?thesis
  proof (cases s)
    case Defined
    then show ?thesis by (simp add: st)
  next
    case Started
    then show ?thesis using h2 by (simp add: st Let_def)
  next
    case LockedIn
    with assms(1) obtain h where h: "a = Some h" "unat h = k * ?P + ?P" by (auto simp: st)
    then have "unat h = Suc k * ?P" by simp
    then have "?P dvd unat h" "unat h \<le> Suc k * ?P" "Suc k * ?P < unat h + unat (active_duration dep)"
      using dur by simp_all
    with LockedIn h(1) show ?thesis by (simp add: st)
  next
    case Active
    with assms(1) obtain h where h: "a = Some h" "?P dvd unat h" "unat h \<le> k * ?P" by (auto simp: st)
    have "unat (sh_height b + 1) < 2 ^ 32 - 1" using h1 assms(3) by simp
    from saturating_add_le_iff [OF this, of h "active_duration dep"] Active h h1 show ?thesis
      by (auto simp: st)
  next
    case Expired
    with assms(1) show ?thesis by (auto simp: st)
  qed
qed

lemma bip8_window:
  assumes "tree_ok L hi" and "dep_period dep \<noteq> 0" and "active_duration dep \<noteq> 0"
  shows "stored_in L hi b \<Longrightarrow> ends_period dep k b \<Longrightarrow> Suc (Suc k) * unat (dep_period dep) < 2 ^ 32 - 1 \<Longrightarrow>
    window_inv dep (Suc k * unat (dep_period dep)) (bip8_state L hi dep k b)"
proof (induction k arbitrary: b)
  case 0
  then show ?case by simp
next
  case (Suc k)
  from ends_period_previous [OF assms(1) Suc.prems(1) assms(2) Suc.prems(2)] obtain pb where
    pb: "nth_ancestor L hi (unat (dep_period dep)) b = Some pb" "stored_in L hi pb" "ends_period dep k pb"
    by blast
  have "Suc (Suc k) * unat (dep_period dep) < 2 ^ 32 - 1" using Suc.prems(3) by simp
  from window_inv_step [OF Suc.IH [OF pb(2,3) this] _ Suc.prems(3) assms(3)] Suc.prems(2) pb(1)
  show ?case by (simp add: ends_period_def Let_def)
qed

lemma window_inv_enforcing:
  assumes "window_inv dep (n * P) (st, ah)" and P: "unat (dep_period dep) = P" "0 < P"
    and "P dvd unat (active_duration dep)" and "n * P \<le> h" and "h < n * P + P"
  shows "st = Active \<longleftrightarrow> (\<exists>a. ah = Some a \<and> unat a \<le> h \<and> h < unat a + unat (active_duration dep))"
    and "ah = Some a \<Longrightarrow> P dvd unat a"
proof -
  have le: "n * P + P \<le> unat a + unat (active_duration dep)"
    if "P dvd unat a" "n * P < unat a + unat (active_duration dep)" for a :: u32
  proof -
    from dvd_add [OF that(1) assms(4)] obtain c where c: "unat a + unat (active_duration dep) = P * c" ..
    then have "n * P < c * P" using that(2) by (simp add: mult.commute)
    then have "n < c" by simp
    then have "Suc n * P \<le> c * P" by (intro mult_le_mono1) simp
    then show ?thesis using c by (simp add: mult.commute)
  qed
  show "st = Active \<longleftrightarrow> (\<exists>a. ah = Some a \<and> unat a \<le> h \<and> h < unat a + unat (active_duration dep))"
  proof (cases st)
    case Active
    with assms(1) obtain a where a: "ah = Some a" "P dvd unat a" "unat a \<le> n * P"
      "n * P < unat a + unat (active_duration dep)" by (auto simp: P)
    from le [OF a(2,4)] a(1,3) assms(5,6) Active show ?thesis by simp
  next
    case LockedIn
    with assms(1,6) show ?thesis by (auto simp: P(1))
  next
    case Expired
    with assms(1,5) show ?thesis by (auto simp: P(1))
  qed (use assms(1) in simp_all)
  show "ah = Some a \<Longrightarrow> P dvd unat a"
  proof (cases st)
    case LockedIn
    moreover assume "ah = Some a"
    ultimately have "unat a = Suc n * P" using assms(1) by (simp add: P(1))
    then show ?thesis by (simp only: dvd_triv_right)
  qed (use assms(1) in \<open>simp_all add: P(1)\<close>)
qed

section \<open>Signalling of the node's own blocks\<close>

lemma signaling_bits:
  assumes "n < 29"
  shows "(0x20000000 OR push_bit n 1) AND 0xE0000000 = (0x20000000 :: u32)"
    and "(0x20000000 OR push_bit n 1) AND push_bit n 1 \<noteq> (0 :: u32)"
proof -
  have "\<forall>n\<in>set [0..<29]. (0x20000000 OR push_bit n 1) AND 0xE0000000 = (0x20000000 :: u32) \<and>
      (0x20000000 OR push_bit n 1) AND push_bit n 1 \<noteq> (0 :: u32)"
    by code_simp
  with assms show "(0x20000000 OR push_bit n 1) AND 0xE0000000 = (0x20000000 :: u32)"
    and "(0x20000000 OR push_bit n 1) AND push_bit n 1 \<noteq> (0 :: u32)" by simp_all
qed

section \<open>Fingerprints\<close>

definition digit :: "char \<Rightarrow> bool" where
  "digit c \<longleftrightarrow> 48 \<le> (of_char c :: nat) \<and> (of_char c :: nat) \<le> 57"

definition read_nat :: "string \<Rightarrow> nat" where
  "read_nat s = foldl (\<lambda>acc c. acc * 10 + (of_char c - 48)) 0 s"

lemma show_nat_digits: "\<forall>c\<in>set (show_nat n). digit c"
proof (induction n rule: show_nat.induct)
  case (1 n)
  have "digit (char_of (48 + k :: nat))" if "k < 10" for k :: nat
    using that by (simp add: digit_def)
  with 1 show ?case by (subst show_nat.simps) auto
qed

lemma read_show [simp]: "read_nat (show_nat n) = n"
proof (induction n rule: show_nat.induct)
  case (1 n)
  show ?case
  proof (cases "n < 10")
    case True
    then show ?thesis by (simp add: show_nat.simps [of n] read_nat_def)
  next
    case False
    with 1 have "foldl (\<lambda>acc c. acc * 10 + (of_char c - 48)) 0 (show_nat (n div 10)) = n div 10"
      by (simp add: read_nat_def)
    with False show ?thesis by (simp add: show_nat.simps [of n] read_nat_def)
  qed
qed

lemma show_nat_inject [simp]: "show_nat m = show_nat n \<longleftrightarrow> m = n"
  by (metis read_show)

text \<open>Numbers that follow fixed labels, each label opening with a character that is not a digit, are
  determined by the whole string.\<close>

fun labelled :: "string list \<Rightarrow> nat list \<Rightarrow> string" where
  "labelled (l # ls) (n # ns) = l @ show_nat n @ labelled ls ns"
| "labelled _ _ = []"

definition separating :: "string \<Rightarrow> bool" where
  "separating l \<longleftrightarrow> l \<noteq> [] \<and> \<not> digit (hd l)"

lemma takeWhile_show:
  assumes "r = [] \<or> \<not> digit (hd r)"
  shows "takeWhile digit (show_nat n @ r) = show_nat n"
  using assms show_nat_digits [of n] by (cases r) (simp_all add: takeWhile_append2)

lemma labelled_inject:
  "\<lbrakk>\<forall>l\<in>set ls. separating l; length ns = length ls; length ms = length ls;
    labelled ls ns = labelled ls ms\<rbrakk> \<Longrightarrow> ns = ms"
proof (induction ls ns arbitrary: ms rule: labelled.induct)
  case (1 l ls n ns)
  obtain m ms' where ms: "ms = m # ms'" using 1(4) by (cases ms) auto
  have sep: "labelled ls ks = [] \<or> \<not> digit (hd (labelled ls ks))" for ks
    using 1(2) by (cases ls; cases ks) (auto simp: separating_def)
  have eq: "show_nat n @ labelled ls ns = show_nat m @ labelled ls ms'" using 1(5) by (simp add: ms)
  from arg_cong [OF this, of "takeWhile digit"] have "n = m" by (simp add: takeWhile_show sep)
  with 1 eq show ?case by (simp add: ms)
qed auto

definition effective_config :: "consensus_params \<Rightarrow> u32 + bip110_deployment option" where
  "effective_config p =
     (case bip110_activation_height p of Some h \<Rightarrow> Inl h | None \<Rightarrow> Inr (cp_bip110_deployment p))"

definition deployment_labels :: "string list" where
  "deployment_labels = [''deployment:period='', '',bit='', '',start='', '',threshold='', '',floor='',
     '',window='', ''-'', '',duration='']"

definition deployment_fields :: "bip110_deployment \<Rightarrow> nat list" where
  "deployment_fields d = [unat (dep_period d), unat (dep_bit d), unat (dep_start_time d),
     unat (dep_threshold d), unat (lock_in_floor_height d), unat (fst (mandatory_window d)),
     unat (snd (mandatory_window d)), unat (active_duration d)]"

lemma fingerprint_cases:
  "config_fingerprint p =
     (case effective_config p of
        Inl h \<Rightarrow> labelled [''fixed:''] [unat h]
      | Inr None \<Rightarrow> ''off''
      | Inr (Some d) \<Rightarrow> labelled deployment_labels (deployment_fields d))"
  by (simp add: config_fingerprint_def effective_config_def deployment_labels_def deployment_fields_def
      split: option.split)

lemma deployment_fields_inject: "deployment_fields d = deployment_fields e \<longleftrightarrow> d = e"
proof
  assume "deployment_fields d = deployment_fields e"
  then have "dep_period d = dep_period e" "dep_bit d = dep_bit e" "dep_start_time d = dep_start_time e"
    "dep_threshold d = dep_threshold e" "lock_in_floor_height d = lock_in_floor_height e"
    "fst (mandatory_window d) = fst (mandatory_window e)"
    "snd (mandatory_window d) = snd (mandatory_window e)" "active_duration d = active_duration e"
    by (simp_all add: deployment_fields_def word_unat_eq_iff [symmetric])
  then show "d = e" by (simp add: prod_eq_iff)
qed simp

lemma fingerprint_inject:
  "config_fingerprint p = config_fingerprint q \<longleftrightarrow> effective_config p = effective_config q"
proof
  have labels: "\<forall>l\<in>set deployment_labels. separating l" "separating ''fixed:''"
    by (simp_all add: deployment_labels_def separating_def digit_def)
  have len: "length (deployment_fields d) = length deployment_labels" for d
    by (simp add: deployment_labels_def deployment_fields_def)
  have deps: "labelled deployment_labels (deployment_fields d) = labelled deployment_labels (deployment_fields e)
      \<longleftrightarrow> d = e" for d e
    using labelled_inject [OF labels(1) len len] deployment_fields_inject by blast
  have fixeds: "labelled [''fixed:''] [unat g] = labelled [''fixed:''] [unat h] \<longleftrightarrow> g = h" for g h :: u32
    by (auto intro: unsigned_word_eqI)
  have heads: "hd (labelled deployment_labels (deployment_fields d)) = CHR ''d''"
    "hd (labelled [''fixed:''] ns) = CHR ''f'' \<or> ns = []" for d ns
    by (simp add: deployment_labels_def deployment_fields_def, cases ns) simp_all
  assume "config_fingerprint p = config_fingerprint q"
  then show "effective_config p = effective_config q"
    using deps fixeds heads(1) unfolding fingerprint_cases
    by (auto split: sum.splits option.splits dest: arg_cong [where f = hd])
qed (simp add: fingerprint_cases)

section \<open>A small tree\<close>

definition demo_dep :: bip110_deployment where
  "demo_dep = \<lparr>dep_period = 1, dep_bit = 4, dep_start_time = 1000, dep_threshold = 0,
     lock_in_floor_height = 100, mandatory_window = (0, 10), active_duration = 2\<rparr>"

lemma demo_collect:
  "collect_times demo_crate demo_index (Suc n) (to_le 32 10) = [1000]"
  "collect_times demo_crate demo_index (Suc (Suc n)) (to_le 32 11) = [1600, 1000]"
  by (cases n; simp add: demo_get_header to_le_inject demo_stored_def)+

lemma demo_mtp:
  "get_median_time_past demo_crate demo_index (to_le 32 10) = Some 1000"
  "get_median_time_past demo_crate demo_index (to_le 32 11) = Some 1600"
  using demo_collect(1) [of 10] demo_collect(2) [of 9]
  by (simp_all add: get_median_time_past_def Let_def)

lemma demo_tree_ok: "tree_ok demo_crate demo_index"
  using demo_linked demo_mtp
  by (auto simp: tree_ok_def demo_get_header to_le_inject demo_stored_def demo_crate_sel split: if_splits)

lemma demo_query_ok:
  "query_ok demo_crate demo_index (to_le 32 11) 2" "query_ok demo_crate demo_index (to_le 32 12) 3"
  by (simp_all add: query_ok_def demo_get_header to_le_inject)

lemma extends_refl: "extends L hi hi"
  by (simp add: extends_def)

section \<open>Properties\<close>

text \<open>
  C24: one checker with its memo table answers every query as the plain recursion over all period
  boundaries from genesis does, however the tree of headers grows and whichever branch is asked for
  between the queries. So cached results survive reorganisations, the early exits on the median
  time are sound, and every query returns.
\<close>
theorem checker_memo_reorg_safe:
  assumes "dep_period dep \<noteq> 0" and "tree_ok L hi0" and "growing L hi0 qs"
  shows "run_queries L (checker_new dep) qs =
     Some (map (\<lambda>(hi, prev_hash, height). activation_ref L hi dep prev_hash height) qs)"
  using run_queries_correct [of "checker_new dep" L hi0 qs] assms by (simp add: checker_new_def)

theorem checker_memo_reorg_safe_witness:
  "run_queries demo_crate (checker_new demo_dep)
     [(demo_index, to_le 32 12, 3), (demo_index, to_le 32 11, 2)] =
   Some [activation_ref demo_crate demo_index demo_dep (to_le 32 12) 3,
         activation_ref demo_crate demo_index demo_dep (to_le 32 11) 2]"
  by (subst checker_memo_reorg_safe [OF _ demo_tree_ok])
    (simp_all add: demo_dep_def demo_tree_ok demo_query_ok extends_refl)

text \<open>
  C25: when the deployment's duration is a whole number of periods, the rules are enforced at exactly
  the heights from the activation height up to the end of the duration, and the activation height
  is always the first block of a period.
\<close>
theorem enforcement_window:
  assumes "tree_ok L hi" and "query_ok L hi prev_hash height" and "dep_period dep \<noteq> 0"
    and "active_duration dep \<noteq> 0" and "unat (dep_period dep) dvd unat (active_duration dep)"
    and "unat height + unat (dep_period dep) < 2 ^ 32 - 1"
  shows "\<exists>a ck'. activation_for L hi (checker_new dep) prev_hash height = Some (a, ck') \<and>
     (enforcing a \<longleftrightarrow> (\<exists>h. activation_height a = Some h \<and> unat h \<le> unat height \<and>
        unat height < unat h + unat (active_duration dep))) \<and>
     (\<forall>h\<in>set_option (activation_height a). unat (dep_period dep) dvd unat h)"
proof -
  let ?P = "unat (dep_period dep)"
  have run: "\<exists>ck'. activation_for L hi (checker_new dep) prev_hash height
      = Some (activation_ref L hi dep prev_hash height, ck')"
    using activation_for_correct [OF assms(1,2), of "checker_new dep"] assms(3)
    by (auto simp: checker_new_def)
  show ?thesis
  proof (cases "height < dep_period dep")
    case True
    then have "activation_ref L hi dep prev_hash height = INACTIVE"
      by (simp add: activation_ref_def Let_def word_less_nat_alt)
    with run show ?thesis by (auto simp: INACTIVE_def enforcing_def)
  next
    case False
    then have le: "dep_period dep \<le> height" by simp
    have P: "0 < ?P" "?P \<le> unat height" using assms(3) le by (simp_all add: unat_gt_0 word_le_nat_alt)
    then have q: "0 < unat height div ?P" by (simp add: div_greater_zero_iff)
    then have S: "Suc (unat height div ?P - 1) = unat height div ?P" by simp
    from query_boundary [OF assms(1-3) le] obtain p b where
      b: "get_header L hi prev_hash = Inr (Some p)" "nth_ancestor L hi (unat height mod ?P) p = Some b"
        "stored_in L hi b" "ends_period dep (unat height div ?P - 1) b" by blast
    obtain st ah where st: "bip8_state L hi dep (unat height div ?P - 1) b = (st, ah)" by fastforce
    have ref: "activation_ref L hi dep prev_hash height = \<lparr>act_state = st, activation_height = ah\<rparr>"
      using q b st by (simp add: activation_ref_def Let_def)
    have "unat height div ?P * ?P \<le> unat height" by (rule div_times_less_eq_dividend)
    then have "Suc (unat height div ?P) * ?P < 2 ^ 32 - 1"
      unfolding mult_Suc using assms(6) by linarith
    with bip8_window [OF assms(1,3,4) b(3,4)] S st
    have inv: "window_inv dep (unat height div ?P * ?P) (st, ah)" by simp
    have "unat height < unat height div ?P * ?P + ?P"
      using P(1) by (metis add_less_cancel_left div_mult_mod_eq mod_less_divisor)
    from window_inv_enforcing [OF inv refl P(1) assms(5) div_times_less_eq_dividend this] run ref
    show ?thesis by (auto simp: enforcing_def)
  qed
qed

theorem enforcement_window_witness:
  "\<exists>a ck'. activation_for demo_crate demo_index (checker_new demo_dep) (to_le 32 12) 3 = Some (a, ck') \<and>
     (enforcing a \<longleftrightarrow> (\<exists>h. activation_height a = Some h \<and> unat h \<le> unat (3 :: u32) \<and>
        unat (3 :: u32) < unat h + unat (active_duration demo_dep))) \<and>
     (\<forall>h\<in>set_option (activation_height a). unat (dep_period demo_dep) dvd unat h)"
  by (rule enforcement_window [OF demo_tree_ok demo_query_ok(2)]) (simp_all add: demo_dep_def)

text \<open>
  C26: a block that the node builds with \<^verbatim>\<open>signaling_version\<close> never breaks the mandatory-signalling
  rule when the node validates it, even when template and validation use different checkers with
  different memo tables; both evaluations return.
\<close>
theorem own_blocks_signal:
  assumes "tree_ok L hi" and "query_ok L hi prev_hash height" and "dep_period dep \<noteq> 0"
    and "unat (dep_bit dep) < 29" and "ck_dep c1 = dep" and "cache_ok L hi dep (ck_cache c1)"
    and "ck_dep c2 = dep" and "cache_ok L hi dep (ck_cache c2)"
  shows "\<exists>version c1' a c2'. signaling_version L p (Some c1) hi prev_hash height = Some (version, c1') \<and>
     activation_at L p (Some c2) hi prev_hash height = Some (a, c2') \<and>
     \<not> violates_mandatory_signaling a dep height version"
proof -
  have run: "\<exists>ck'. activation_for L hi c prev_hash height = Some (activation_ref L hi dep prev_hash height, ck')"
    if "c = c1 \<or> c = c2" for c
    using that activation_for_correct [OF assms(1,2), of c] assms(3,5-8) by auto
  have "unat (dep_bit dep) mod 32 < 29" using assms(4) by simp
  note bits = signaling_bits [OF this]
  obtain a c1' c2' where a: "activation_at L p (Some c1) hi prev_hash height = Some (a, c1')"
    "activation_at L p (Some c2) hi prev_hash height = Some (a, c2')"
    using run [of c1] run [of c2] by (cases "bip110_activation_height p") (auto simp: activation_at_def)
  show ?thesis
  proof (cases "act_state a = Started")
    case True
    with a(1) assms(5) have "signaling_version L p (Some c1) hi prev_hash height
        = Some (0x20000000 OR push_bit (unat (dep_bit dep) mod 32) 1, c1')"
      by (simp add: signaling_version_def)
    moreover have "signals dep (0x20000000 OR push_bit (unat (dep_bit dep) mod 32) 1)"
      unfolding signals_def using bits by blast
    ultimately show ?thesis using a(2)
      by (metis (no_types, lifting) case_prod_beta violates_mandatory_signaling_def)
  next
    case False
    with a show ?thesis by (simp add: signaling_version_def violates_mandatory_signaling_def split: prod.split)
  qed
qed

theorem own_blocks_signal_witness:
  "\<exists>version c1' a c2'.
     signaling_version demo_crate (regtest (\<lambda>_. undefined)) (Some (checker_new demo_dep)) demo_index
       (to_le 32 11) 2 = Some (version, c1') \<and>
     activation_at demo_crate (regtest (\<lambda>_. undefined)) (Some (checker_new demo_dep)) demo_index
       (to_le 32 11) 2 = Some (a, c2') \<and>
     \<not> violates_mandatory_signaling a demo_dep 2 version"
  by (rule own_blocks_signal [OF demo_tree_ok demo_query_ok(1)])
    (simp_all add: demo_dep_def checker_new_def)

text \<open>
  the fingerprint that start-up compares determines the enforced configuration: two parameter sets
  have the same fingerprint exactly when they fix the same height, or follow the same deployment in
  every field, or enforce nothing; so no change of configuration goes unnoticed.
\<close>
theorem config_fingerprint_faithful:
  "config_fingerprint p = config_fingerprint q \<longleftrightarrow> effective_config p = effective_config q"
  by (rule fingerprint_inject)

end
