(* ===== verification/Utxo_Set.thy ===== *)
theory Utxo_Set
  imports Bitcoin_Types "HOL-Library.Multiset"
begin

text \<open>
  The UTXO set of \<^verbatim>\<open>bitcoinpr-storage/src/utxo_set.rs\<close>: coins with their byte encodings, the coalescing
  write buffer, the read cache of compact coins, the three column families on disk, chunked
  flushing, undo records and rollback. Hash maps are association lists with one entry per key; the
  order in which the code iterates over one is an argument. \<^verbatim>\<open>usize\<close> counters are natural numbers
  (\<^verbatim>\<open>saturating_sub\<close> is subtraction on them).
\<close>

unbundle bit_operations_syntax

section \<open>Coins and keys\<close>

record utxo_entry =
  amount :: u64
  ue_script :: bytes
  ue_height :: u32
  ue_coinbase :: bool

definition utxo_serialize :: "utxo_entry \<Rightarrow> bytes" where
  "utxo_serialize e =
     u64_to_le (amount e) @ u32_to_le (ue_height e) @ [if ue_coinbase e then 1 else 0] @
     u32_to_le (of_nat (length (ue_script e))) @ ue_script e"

definition utxo_deserialize :: "bytes \<Rightarrow> storage_error + utxo_entry" where
  "utxo_deserialize d =
     (if length d < 17 then Inl (Serialization ''UTXO entry too short'')
      else
        (let script_len = unat (u32_from_le (take 4 (drop 13 d)))
         in if length d < 17 + script_len then Inl (Serialization ''UTXO entry script truncated'')
            else Inr \<lparr>amount = u64_from_le (take 8 d), ue_script = take script_len (drop 17 d),
                      ue_height = u32_from_le (take 4 (drop 8 d)), ue_coinbase = (d ! 12 \<noteq> 0)\<rparr>))"

definition outpoint_key :: "out_point \<Rightarrow> bytes" where
  "outpoint_key outpoint = op_txid outpoint @ u32_to_le (op_vout outpoint)"

record spent_utxo =
  su_outpoint :: out_point
  su_entry :: utxo_entry

record undo_data =
  spent_utxos :: "spent_utxo list"
  created_outpoints :: "out_point list"
  undo_prev_hash :: "bytes option"

record utxo_batch =
  inserts :: "(out_point \<times> utxo_entry) list"
  removals :: "out_point list"
  batch_spent :: "spent_utxo list"

definition utxo_batch_new :: utxo_batch where
  "utxo_batch_new = \<lparr>inserts = [], removals = [], batch_spent = []\<rparr>"

section \<open>Hash maps\<close>

definition hm_insert :: "'k \<Rightarrow> 'v \<Rightarrow> ('k \<times> 'v) list \<Rightarrow> ('k \<times> 'v) list" where
  "hm_insert k v m = (k, v) # filter (\<lambda>e. fst e \<noteq> k) m"

definition hm_remove :: "'k \<Rightarrow> ('k \<times> 'v) list \<Rightarrow> ('k \<times> 'v) list" where
  "hm_remove k m = filter (\<lambda>e. fst e \<noteq> k) m"

section \<open>The write buffer\<close>

definition DEFAULT_CACHE_SIZE :: nat where "DEFAULT_CACHE_SIZE = 2000000"
definition DEFAULT_BLOCK_CACHE_MB :: nat where "DEFAULT_BLOCK_CACHE_MB = 1024"
definition FLUSH_INTERVAL :: u32 where "FLUSH_INTERVAL = 10000"
definition DEFAULT_WRITE_BUFFER_BUDGET :: nat where "DEFAULT_WRITE_BUFFER_BUDGET = 256 * 1024 * 1024"
definition INSERT_BASE_COST :: nat where "INSERT_BASE_COST = 36 + 17 + 64"
definition DELETION_COST :: nat where "DELETION_COST = 36 + 48"
definition UNDO_BASE_COST :: nat where "UNDO_BASE_COST = 32 + 48"

definition insert_cost :: "utxo_entry \<Rightarrow> nat" where
  "insert_cost e = INSERT_BASE_COST + length (ue_script e)"

record write_buffer =
  wb_entries :: "(bytes \<times> utxo_entry option) list"
  insert_count :: nat
  deletion_count :: nat
  undo_buffer :: "(bytes \<times> bytes) list"
  wb_bytes :: nat
  blocks_since_flush :: u32
  pending_flush_height :: "u32 option"
  pending_flush_hash :: "bytes option"

definition write_buffer_new :: write_buffer where
  "write_buffer_new = \<lparr>wb_entries = [], insert_count = 0, deletion_count = 0, undo_buffer = [],
     wb_bytes = 0, blocks_since_flush = 0, pending_flush_height = None, pending_flush_hash = None\<rparr>"

definition wb_is_empty :: "write_buffer \<Rightarrow> bool" where
  "wb_is_empty wb \<longleftrightarrow> wb_entries wb = []"

section \<open>Compact coins\<close>

definition INLINE_SCRIPT_MAX :: nat where "INLINE_SCRIPT_MAX = 36"

datatype coin_script = Inline u8 bytes | Heap bytes

definition coin_script_new :: "bytes \<Rightarrow> coin_script" where
  "coin_script_new script =
     (if length script \<le> INLINE_SCRIPT_MAX
      then Inline (of_nat (length script)) (script @ replicate (INLINE_SCRIPT_MAX - length script) 0)
      else Heap script)"

fun coin_script_bytes :: "coin_script \<Rightarrow> bytes" where
  "coin_script_bytes (Inline len buf) = take (unat len) buf"
| "coin_script_bytes (Heap b) = b"

record compact_coin =
  cc_amount :: u64
  height_and_coinbase :: u32
  cc_script :: coin_script

definition compact_new :: "utxo_entry \<Rightarrow> compact_coin" where
  "compact_new e = \<lparr>cc_amount = amount e,
     height_and_coinbase = push_bit 1 (ue_height e) OR (if ue_coinbase e then 1 else 0),
     cc_script = coin_script_new (ue_script e)\<rparr>"

definition to_entry :: "compact_coin \<Rightarrow> utxo_entry" where
  "to_entry c = \<lparr>amount = cc_amount c, ue_script = coin_script_bytes (cc_script c),
     ue_height = drop_bit 1 (height_and_coinbase c),
     ue_coinbase = (height_and_coinbase c AND 1 \<noteq> 0)\<rparr>"

section \<open>The set\<close>

record utxo_db =
  cf_utxo :: cf
  cf_undo :: cf
  cf_utxo_meta :: cf

record utxo_set =
  us_db :: utxo_db
  us_cache :: "(bytes \<times> compact_coin) list"
  cache_capacity :: nat
  us_buffer :: write_buffer
  write_buffer_budget :: nat

text \<open>Iteration orders of the two hash maps that the code walks over.\<close>

record iteration =
  it_entries :: "(bytes \<times> utxo_entry option) list \<Rightarrow> (bytes \<times> utxo_entry option) list"
  it_cache :: "(bytes \<times> compact_coin) list \<Rightarrow> (bytes \<times> compact_coin) list"

text \<open>The budgets of \<^verbatim>\<open>open\<close>: block cache bytes, cache entries, write-buffer bytes.\<close>

definition open_budgets :: "u32 option \<Rightarrow> nat \<times> nat \<times> nat" where
  "open_budgets dbcache_mb =
     (case dbcache_mb of
        Some mb \<Rightarrow>
          (let tot = unat mb * 1024 * 1024
           in (tot * 25 div 100, (tot * 15 div 100) div 135, tot * 60 div 100))
      | None \<Rightarrow> (DEFAULT_BLOCK_CACHE_MB * 1024 * 1024, DEFAULT_CACHE_SIZE, DEFAULT_WRITE_BUFFER_BUDGET))"

definition utxo_open :: "utxo_db \<Rightarrow> u32 option \<Rightarrow> utxo_set" where
  "utxo_open db dbcache_mb =
     (let (_, lru_entries, budget) = open_budgets dbcache_mb
      in \<lparr>us_db = db, us_cache = [], cache_capacity = lru_entries, us_buffer = write_buffer_new,
          write_buffer_budget = budget\<rparr>)"

definition from_db :: "utxo_db \<Rightarrow> utxo_set" where
  "from_db db = \<lparr>us_db = db, us_cache = [], cache_capacity = DEFAULT_CACHE_SIZE,
     us_buffer = write_buffer_new, write_buffer_budget = DEFAULT_WRITE_BUFFER_BUDGET\<rparr>"

text \<open>\<^verbatim>\<open>get\<close> reads the buffer, then the cache, then the disk, and caches what it read from disk.\<close>

definition utxo_get :: "utxo_set \<Rightarrow> out_point \<Rightarrow> (storage_error + utxo_entry option) \<times> utxo_set" where
  "utxo_get us outpoint =
     (let key = outpoint_key outpoint
      in case map_of (wb_entries (us_buffer us)) key of
           Some None \<Rightarrow> (Inr None, us)
         | Some (Some entry) \<Rightarrow> (Inr (Some entry), us)
         | None \<Rightarrow>
             (case map_of (us_cache us) key of
                Some coin \<Rightarrow> (Inr (Some (to_entry coin)), us)
              | None \<Rightarrow>
                  (case cf_utxo (us_db us) key of
                     Some data \<Rightarrow>
                       (case utxo_deserialize data of
                          Inl e \<Rightarrow> (Inl e, us)
                        | Inr entry \<Rightarrow>
                            (Inr (Some entry),
                             us\<lparr>us_cache := hm_insert key (compact_new entry) (us_cache us)\<rparr>))
                   | None \<Rightarrow> (Inr None, us))))"

definition utxo_contains :: "utxo_set \<Rightarrow> out_point \<Rightarrow> bool" where
  "utxo_contains us outpoint =
     (let key = outpoint_key outpoint
      in case map_of (wb_entries (us_buffer us)) key of
           Some None \<Rightarrow> False
         | Some (Some _) \<Rightarrow> True
         | None \<Rightarrow> map_of (us_cache us) key \<noteq> None \<or> cf_utxo (us_db us) key \<noteq> None)"

definition prefetch :: "utxo_set \<Rightarrow> out_point list \<Rightarrow> utxo_set" where
  "prefetch us outpoints =
     (let disk_keys = filter (\<lambda>key. map_of (wb_entries (us_buffer us)) key = None \<and>
                                    map_of (us_cache us) key = None) (map outpoint_key outpoints)
      in us\<lparr>us_cache := fold (\<lambda>key cache.
           case cf_utxo (us_db us) key of
             Some data \<Rightarrow>
               (case utxo_deserialize data of
                  Inr entry \<Rightarrow> hm_insert key (compact_new entry) cache
                | Inl _ \<Rightarrow> cache)
           | None \<Rightarrow> cache) disk_keys (us_cache us)\<rparr>)"

definition utxo_insert :: "utxo_set \<Rightarrow> out_point \<Rightarrow> utxo_entry \<Rightarrow> utxo_set" where
  "utxo_insert us outpoint entry =
     (let key = outpoint_key outpoint; db = us_db us
      in us\<lparr>us_db := db\<lparr>cf_utxo := put_cf key (utxo_serialize entry) (cf_utxo db)\<rparr>,
            us_cache := hm_insert key (compact_new entry) (us_cache us)\<rparr>)"

definition utxo_remove :: "utxo_set \<Rightarrow> out_point \<Rightarrow> utxo_set" where
  "utxo_remove us outpoint =
     (let key = outpoint_key outpoint; db = us_db us
      in us\<lparr>us_db := db\<lparr>cf_utxo := delete_cf key (cf_utxo db)\<rparr>,
            us_cache := hm_remove key (us_cache us)\<rparr>)"

section \<open>Batches\<close>

fun buffer_insert :: "out_point \<times> utxo_entry \<Rightarrow> write_buffer \<Rightarrow> write_buffer" where
  "buffer_insert (outpoint, entry) wb =
     (let key = outpoint_key outpoint;
          old = map_of (wb_entries wb) key;
          wb = wb\<lparr>wb_entries := hm_insert key (Some entry) (wb_entries wb)\<rparr>;
          wb = (case old of
                  Some (Some old) \<Rightarrow> wb\<lparr>wb_bytes := wb_bytes wb - insert_cost old\<rparr>
                | Some None \<Rightarrow> wb\<lparr>wb_bytes := wb_bytes wb - DELETION_COST,
                                   deletion_count := deletion_count wb - 1,
                                   insert_count := insert_count wb + 1\<rparr>
                | None \<Rightarrow> wb\<lparr>insert_count := insert_count wb + 1\<rparr>)
      in wb\<lparr>wb_bytes := wb_bytes wb + insert_cost entry\<rparr>)"

definition buffer_remove :: "out_point \<Rightarrow> write_buffer \<Rightarrow> write_buffer" where
  "buffer_remove outpoint wb =
     (let key = outpoint_key outpoint;
          old = map_of (wb_entries wb) key;
          wb = wb\<lparr>wb_entries := hm_insert key None (wb_entries wb)\<rparr>
      in case old of
           Some (Some old) \<Rightarrow> wb\<lparr>wb_bytes := wb_bytes wb - insert_cost old + DELETION_COST,
                                 insert_count := insert_count wb - 1,
                                 deletion_count := deletion_count wb + 1\<rparr>
         | Some None \<Rightarrow> wb
         | None \<Rightarrow> wb\<lparr>deletion_count := deletion_count wb + 1,
                       wb_bytes := wb_bytes wb + DELETION_COST\<rparr>)"

definition maybe_evict_cache :: "iteration \<Rightarrow> utxo_set \<Rightarrow> utxo_set" where
  "maybe_evict_cache it us =
     (let len = length (us_cache us)
      in if len \<le> cache_capacity us then us
         else (let keys = map fst (take (len - cache_capacity us) (it_cache it (us_cache us)))
               in us\<lparr>us_cache := fold hm_remove keys (us_cache us)\<rparr>))"

section \<open>Flushing\<close>

datatype db_op =
  PutUtxo bytes bytes
| DeleteUtxo bytes
| PutUndo bytes bytes
| DeleteUndo bytes
| PutMeta bytes bytes

fun apply_op :: "db_op \<Rightarrow> utxo_db \<Rightarrow> utxo_db" where
  "apply_op (PutUtxo k v) db = db\<lparr>cf_utxo := put_cf k v (cf_utxo db)\<rparr>"
| "apply_op (DeleteUtxo k) db = db\<lparr>cf_utxo := delete_cf k (cf_utxo db)\<rparr>"
| "apply_op (PutUndo k v) db = db\<lparr>cf_undo := put_cf k v (cf_undo db)\<rparr>"
| "apply_op (DeleteUndo k) db = db\<lparr>cf_undo := delete_cf k (cf_undo db)\<rparr>"
| "apply_op (PutMeta k v) db = db\<lparr>cf_utxo_meta := put_cf k v (cf_utxo_meta db)\<rparr>"

text \<open>\<^verbatim>\<open>DB::write\<close> commits one batch atomically.\<close>

definition db_write :: "db_op list \<Rightarrow> utxo_db \<Rightarrow> utxo_db" where
  "db_write batch db = fold apply_op batch db"

definition CHUNK_TARGET_BYTES :: nat where "CHUNK_TARGET_BYTES = 128 * 1024 * 1024"

text \<open>The chunked loops: the batches that are written so far, the open batch and its size.\<close>

fun push_chunk ::
  "db_op \<times> nat \<Rightarrow> db_op list list \<times> db_op list \<times> nat \<Rightarrow> db_op list list \<times> db_op list \<times> nat"
where
  "push_chunk (op, n) (written, rocks_batch, batch_bytes) =
     (let rocks_batch = rocks_batch @ [op]; batch_bytes = batch_bytes + n
      in if CHUNK_TARGET_BYTES \<le> batch_bytes then (written @ [rocks_batch], [], 0)
         else (written, rocks_batch, batch_bytes))"

fun insert_ops :: "(bytes \<times> utxo_entry option) list \<Rightarrow> (db_op \<times> nat) list" where
  "insert_ops [] = []"
| "insert_ops ((key, Some entry) # es) =
     (PutUtxo key (utxo_serialize entry), 36 + length (utxo_serialize entry)) # insert_ops es"
| "insert_ops ((key, None) # es) = insert_ops es"

fun delete_ops :: "(bytes \<times> utxo_entry option) list \<Rightarrow> db_op list" where
  "delete_ops [] = []"
| "delete_ops ((key, Some entry) # es) = delete_ops es"
| "delete_ops ((key, None) # es) = DeleteUtxo key # delete_ops es"

definition undo_ops :: "(bytes \<times> bytes) list \<Rightarrow> (db_op \<times> nat) list" where
  "undo_ops us = map (\<lambda>(hash, data). (PutUndo hash data, 32 + length data)) us"

definition meta_ops :: "write_buffer \<Rightarrow> db_op list" where
  "meta_ops wb =
     (case pending_flush_height wb of
        Some height \<Rightarrow> [PutMeta (byte_str ''flush_height'') (u32_to_le height)] | None \<Rightarrow> []) @
     (case pending_flush_hash wb of
        Some hash \<Rightarrow> [PutMeta (byte_str ''flush_hash'') hash] | None \<Rightarrow> [])"

definition flush_batches :: "iteration \<Rightarrow> write_buffer \<Rightarrow> db_op list list" where
  "flush_batches it wb =
     (let entries = it_entries it (wb_entries wb);
          (written, rocks_batch, _) =
            fold push_chunk (insert_ops entries @ undo_ops (undo_buffer wb)) ([], [], 0)
      in written @ [rocks_batch @ delete_ops entries @ meta_ops wb])"

fun promote ::
  "nat \<Rightarrow> (bytes \<times> utxo_entry option) list \<Rightarrow> (bytes \<times> compact_coin) list \<Rightarrow> (bytes \<times> compact_coin) list"
where
  "promote cap [] cache = cache"
| "promote cap ((key, entry) # es) cache =
     (if cap \<le> length cache then cache
      else promote cap es
        (case entry of Some e \<Rightarrow> hm_insert key (compact_new e) cache | None \<Rightarrow> cache))"

definition flush_to_disk :: "iteration \<Rightarrow> utxo_set \<Rightarrow> utxo_set" where
  "flush_to_disk it us =
     (let wb = us_buffer us
      in if wb_is_empty wb \<and> undo_buffer wb = [] \<and> pending_flush_height wb = None
         then us\<lparr>us_buffer := wb\<lparr>blocks_since_flush := 0\<rparr>\<rparr>
         else us\<lparr>us_db := fold db_write (flush_batches it wb) (us_db us),
                 us_cache := promote (cache_capacity us) (it_entries it (wb_entries wb)) (us_cache us),
                 us_buffer := wb\<lparr>wb_entries := [], insert_count := 0, deletion_count := 0,
                                 undo_buffer := [], wb_bytes := 0, blocks_since_flush := 0\<rparr>\<rparr>)"

text \<open>\<^verbatim>\<open>apply_batch\<close>: inserts first, then removals; the flag says that the buffer went to disk.\<close>

definition apply_batch :: "iteration \<Rightarrow> utxo_set \<Rightarrow> utxo_batch \<Rightarrow> bool \<times> utxo_set" where
  "apply_batch it us batch =
     (let wb = fold buffer_insert (inserts batch) (us_buffer us);
          wb = fold buffer_remove (removals batch) wb;
          wb = wb\<lparr>blocks_since_flush := blocks_since_flush wb + 1\<rparr>;
          should_flush = (FLUSH_INTERVAL \<le> blocks_since_flush wb \<or> write_buffer_budget us < wb_bytes wb);
          us = us\<lparr>us_buffer := wb,
                  us_cache := fold (\<lambda>outpoint. hm_remove (outpoint_key outpoint)) (removals batch) (us_cache us)\<rparr>;
          us = maybe_evict_cache it us
      in if should_flush then (True, flush_to_disk it us) else (False, us))"

definition set_pending_flush_height :: "u32 \<Rightarrow> bytes \<Rightarrow> utxo_set \<Rightarrow> utxo_set" where
  "set_pending_flush_height height hash us =
     us\<lparr>us_buffer := (us_buffer us)\<lparr>pending_flush_height := Some height, pending_flush_hash := Some hash\<rparr>\<rparr>"

definition get_flush_height :: "utxo_set \<Rightarrow> storage_error + u32 option" where
  "get_flush_height us =
     (case cf_utxo_meta (us_db us) (byte_str ''flush_height'') of
        Some data \<Rightarrow> if length data = 4 then Inr (Some (u32_from_le data))
                     else Inl (Serialization ''flush_height has unexpected length'')
      | None \<Rightarrow> Inr None)"

definition get_flush_hash :: "utxo_set \<Rightarrow> storage_error + bytes option" where
  "get_flush_hash us =
     (case cf_utxo_meta (us_db us) (byte_str ''flush_hash'') of
        Some data \<Rightarrow> if length data = 32 then Inr (Some data)
                     else Inl (Serialization ''flush_hash has unexpected length'')
      | None \<Rightarrow> Inr None)"

section \<open>Undo records\<close>

definition spent_record :: "spent_utxo \<Rightarrow> bytes" where
  "spent_record s =
     (let entry_bytes = utxo_serialize (su_entry s)
      in outpoint_key (su_outpoint s) @ u32_to_le (of_nat (length entry_bytes)) @ entry_bytes)"

definition undo_serialize :: "spent_utxo list \<Rightarrow> out_point list \<Rightarrow> bytes \<Rightarrow> bytes" where
  "undo_serialize spent created prev_block_hash =
     u32_to_le (of_nat (length spent)) @ concat (map spent_record spent) @
     u32_to_le (of_nat (length created)) @ concat (map outpoint_key created) @ prev_block_hash"

definition store_undo ::
  "bytes \<Rightarrow> spent_utxo list \<Rightarrow> out_point list \<Rightarrow> bytes \<Rightarrow> utxo_set \<Rightarrow> utxo_set"
where
  "store_undo hash spent created prev_block_hash us =
     (let buf = undo_serialize spent created prev_block_hash; wb = us_buffer us
      in us\<lparr>us_buffer := wb\<lparr>wb_bytes := wb_bytes wb + (UNDO_BASE_COST + length buf),
                             undo_buffer := undo_buffer wb @ [(hash, buf)]\<rparr>\<rparr>)"

definition key_outpoint :: "bytes \<Rightarrow> out_point" where
  "key_outpoint op_key = \<lparr>op_txid = take 32 op_key, op_vout = u32_from_le (take 4 (drop 32 op_key))\<rparr>"

fun parse_spent :: "nat \<Rightarrow> bytes \<Rightarrow> storage_error + spent_utxo list \<times> bytes" where
  "parse_spent 0 d = Inr ([], d)"
| "parse_spent (Suc n) d =
     (if length d < 36 then Inl (Serialization ''undo data truncated'')
      else
        (let outpoint = key_outpoint (take 36 d); d = drop 36 d
         in if length d < 4 then Inl (Serialization ''undo data truncated'')
            else
              (let entry_len = unat (u32_from_le (take 4 d)); d = drop 4 d
               in if length d < entry_len then Inl (Serialization ''undo entry truncated'')
                  else bindE (utxo_deserialize (take entry_len d)) (\<lambda>entry.
                       bindE (parse_spent n (drop entry_len d)) (\<lambda>(ss, rest).
                         Inr (\<lparr>su_outpoint = outpoint, su_entry = entry\<rparr> # ss, rest))))))"

fun parse_created :: "nat \<Rightarrow> bytes \<Rightarrow> storage_error + out_point list \<times> bytes" where
  "parse_created 0 d = Inr ([], d)"
| "parse_created (Suc n) d =
     (if length d < 36 then Inl (Serialization ''undo data: created outpoints truncated'')
      else bindE (parse_created n (drop 36 d)) (\<lambda>(ops, rest).
             Inr (key_outpoint (take 36 d) # ops, rest)))"

definition deserialize_undo :: "bytes \<Rightarrow> storage_error + undo_data" where
  "deserialize_undo data =
     (if length data < 4 then Inl (Serialization ''undo data too short'')
      else bindE (parse_spent (unat (u32_from_le (take 4 data))) (drop 4 data)) (\<lambda>(spent, rest).
        if 4 \<le> length rest
        then bindE (parse_created (unat (u32_from_le (take 4 rest))) (drop 4 rest)) (\<lambda>(created, rest').
               Inr \<lparr>spent_utxos = spent, created_outpoints = created,
                     undo_prev_hash = (if 32 \<le> length rest' then Some (take 32 rest') else None)\<rparr>)
        else Inr \<lparr>spent_utxos = spent, created_outpoints = [], undo_prev_hash = None\<rparr>))"

definition load_undo :: "utxo_set \<Rightarrow> bytes \<Rightarrow> storage_error + undo_data option" where
  "load_undo us hash =
     (case map_of (undo_buffer (us_buffer us)) hash of
        Some data \<Rightarrow> bindE (deserialize_undo data) (\<lambda>u. Inr (Some u))
      | None \<Rightarrow>
          (case cf_undo (us_db us) hash of
             Some data \<Rightarrow> bindE (deserialize_undo data) (\<lambda>u. Inr (Some u))
           | None \<Rightarrow> Inr None))"

definition delete_undo :: "bytes \<Rightarrow> utxo_set \<Rightarrow> utxo_set" where
  "delete_undo hash us =
     us\<lparr>us_buffer := (us_buffer us)\<lparr>undo_buffer :=
          filter (\<lambda>e. fst e \<noteq> hash) (undo_buffer (us_buffer us))\<rparr>,
        us_db := db_write [DeleteUndo hash] (us_db us)\<rparr>"

section \<open>Rollback\<close>

definition rollback_ops :: "undo_data \<Rightarrow> db_op list" where
  "rollback_ops undo =
     map (\<lambda>outpoint. DeleteUtxo (outpoint_key outpoint)) (created_outpoints undo) @
     map (\<lambda>spent. PutUtxo (outpoint_key (su_outpoint spent)) (utxo_serialize (su_entry spent)))
       (spent_utxos undo)"

definition rollback_cache :: "undo_data \<Rightarrow> (bytes \<times> compact_coin) list \<Rightarrow> (bytes \<times> compact_coin) list" where
  "rollback_cache undo cache =
     fold (\<lambda>spent. hm_insert (outpoint_key (su_outpoint spent)) (compact_new (su_entry spent)))
       (spent_utxos undo)
       (fold (\<lambda>outpoint. hm_remove (outpoint_key outpoint)) (created_outpoints undo) cache)"

definition rollback_block :: "utxo_set \<Rightarrow> bytes \<Rightarrow> storage_error + bytes \<times> utxo_set" where
  "rollback_block us hash =
     bindE (load_undo us hash) (\<lambda>found.
     bindE (ok_or (Serialization ''no undo data for block'') found) (\<lambda>undo.
     bindE (ok_or (Serialization ''undo data missing prev_block_hash (old format)'') (undo_prev_hash undo))
       (\<lambda>prev_hash.
         let us = (if created_outpoints undo = [] \<and> spent_utxos undo = [] then us
                   else us\<lparr>us_cache := rollback_cache undo (us_cache us),
                           us_db := db_write (rollback_ops undo) (us_db us)\<rparr>)
         in Inr (prev_hash, delete_undo hash us))))"

text \<open>The loop of \<^verbatim>\<open>rollback_to\<close> over the number of blocks that are left; an error keeps the state of
  the blocks already rolled back.\<close>

fun rollback_loop :: "nat \<Rightarrow> bytes \<Rightarrow> utxo_set \<Rightarrow> (storage_error + bytes) \<times> utxo_set" where
  "rollback_loop 0 current_hash us = (Inr current_hash, us)"
| "rollback_loop (Suc n) current_hash us =
     (case rollback_block us current_hash of
        Inl e \<Rightarrow> (Inl e, us)
      | Inr (prev_hash, us') \<Rightarrow> rollback_loop n prev_hash us')"

definition rollback_to :: "iteration \<Rightarrow> utxo_set \<Rightarrow> u32 \<Rightarrow> (storage_error + unit) \<times> utxo_set" where
  "rollback_to it us target_height =
     (let us = flush_to_disk it us
      in case bindE (get_flush_height us)
                (\<lambda>h. ok_or (Serialization ''cannot rollback: no flush height stored'') h) of
           Inl e \<Rightarrow> (Inl e, us)
         | Inr current_height \<Rightarrow>
             (case bindE (get_flush_hash us)
                     (\<lambda>h. ok_or (Serialization ''cannot rollback: no flush hash stored'') h) of
                Inl e \<Rightarrow> (Inl e, us)
              | Inr current_hash \<Rightarrow>
                  if current_height \<le> target_height then (Inr (), us)
                  else
                    (case rollback_loop (unat (current_height - target_height)) current_hash us of
                       (Inl e, us') \<Rightarrow> (Inl e, us')
                     | (Inr hash, us') \<Rightarrow>
                         (Inr (), set_pending_flush_height target_height hash
                            (us'\<lparr>us_db := db_write
                               [PutMeta (byte_str ''flush_height'') (u32_to_le target_height),
                                PutMeta (byte_str ''flush_hash'') hash] (us_db us')\<rparr>)))))"

end
