(* ===== verification/Utxo_Facts.thy ===== *)
theory Utxo_Facts
  imports Utxo_Set
begin

text \<open>
  Correctness of the UTXO set. The abstract store is one map from keys to coins; the buffer, the
  cache and the disk together implement it, whatever the iteration orders of the hash maps are.
  Then crash safety of the chunked flush, the undo codec, and what rolling back a block restores.
\<close>

unbundle bit_operations_syntax

section \<open>Encodings\<close>

definition coin_ok :: "utxo_entry \<Rightarrow> bool" where
  "coin_ok e \<longleftrightarrow> length (ue_script e) < 2 ^ 32 \<and> ue_height e < 2 ^ 31"

lemma utxo_roundtrip:
  assumes "length (ue_script e) < 2 ^ 32"
  shows "utxo_deserialize (utxo_serialize e) = Inr e"
proof -
  have len: "unat (of_nat (length (ue_script e)) :: u32) = length (ue_script e)"
    using assms by (simp add: unsigned_of_nat take_bit_nat_eq_self)
  show ?thesis
    by (simp add: utxo_deserialize_def utxo_serialize_def len nth_append)
qed

interpretation entry_codec: byte_codec utxo_serialize utxo_deserialize coin_ok
  by unfold_locales (simp add: coin_ok_def utxo_roundtrip)

lemma drop_push_bit:
  assumes "h < (2 ^ 31 :: u32)"
  shows "drop_bit 1 (push_bit 1 h OR (if b then 1 else 0)) = h"
    and "(push_bit 1 h OR (if b then 1 else 0)) AND 1 \<noteq> 0 \<longleftrightarrow> b"
proof -
  have h: "take_bit 31 h = h" using assms by (simp add: take_bit_eq_self_iff_drop_bit_eq_0 drop_bit_eq_div word_less_nat_alt unat_div word_arith_nat_div)
  then have bit: "bit h n \<Longrightarrow> n < 31" for n by (metis bit_take_bit_iff)
  show "drop_bit 1 (push_bit 1 h OR (if b then 1 else 0)) = h"
    by (rule bit_word_eqI) (auto simp: bit_simps bit_double_iff mult.commute [of h 2] dest: bit)
  show "(push_bit 1 h OR (if b then 1 else 0)) AND 1 \<noteq> 0 \<longleftrightarrow> b"
    by (simp add: and_one_eq mod_2_eq_odd even_or_iff)
qed

lemma coin_script_roundtrip [simp]: "coin_script_bytes (coin_script_new s) = s"
proof (cases "length s \<le> INLINE_SCRIPT_MAX")
  case True
  then have "unat (of_nat (length s) :: u8) = length s"
    by (simp add: INLINE_SCRIPT_MAX_def unsigned_of_nat take_bit_nat_eq_self)
  with True show ?thesis by (simp add: coin_script_new_def)
qed (simp add: coin_script_new_def)

lemma compact_roundtrip: "coin_ok e \<Longrightarrow> to_entry (compact_new e) = e"
  using drop_push_bit [of "ue_height e" "ue_coinbase e"]
  by (simp add: to_entry_def compact_new_def coin_ok_def)

lemma outpoint_key_inject:
  assumes "length (op_txid a) = 32" and "length (op_txid b) = 32"
  shows "outpoint_key a = outpoint_key b \<longleftrightarrow> a = b"
  using assms by (auto simp: outpoint_key_def)

lemma key_outpoint_key: "length (op_txid a) = 32 \<Longrightarrow> key_outpoint (outpoint_key a) = a"
  by (simp add: key_outpoint_def outpoint_key_def)

section \<open>Hash maps\<close>

lemma map_of_filter_key: "map_of (filter (\<lambda>e. fst e \<noteq> k) m) = (map_of m)(k := None)"
  by (induction m) auto

interpretation hash_map: kv_store map_of hm_insert hm_remove "\<lambda>_. True"
  by unfold_locales (auto simp: hm_insert_def hm_remove_def map_of_filter_key)

lemma distinct_hm_insert: "distinct (map fst m) \<Longrightarrow> distinct (map fst (hm_insert k v m))"
  by (auto simp: hm_insert_def distinct_map_filter)

lemma map_of_hm_remove_batch:
  fixes m :: "('k \<times> 'v) list"
  shows "map_of (fold (\<lambda>x. hm_remove (f x)) xs m) k = (if k \<in> f ` set xs then None else map_of m k)"
proof -
  have "fold (\<lambda>x. hm_remove (f x)) xs m = fold hm_remove (map f xs) m"
    by (simp add: fold_map comp_def)
  then show ?thesis using hash_map.get_del_batch [where s = m and ks = "map f xs" and j = k] by simp
qed

section \<open>The abstract store\<close>

definition disk_coin :: "utxo_db \<Rightarrow> bytes \<rightharpoonup> utxo_entry" where
  "disk_coin db k =
     (case cf_utxo db k of
        Some d \<Rightarrow> (case utxo_deserialize d of Inr e \<Rightarrow> Some e | Inl _ \<Rightarrow> None)
      | None \<Rightarrow> None)"

definition coins :: "utxo_set \<Rightarrow> bytes \<rightharpoonup> utxo_entry" where
  "coins us k =
     (case map_of (wb_entries (us_buffer us)) k of Some v \<Rightarrow> v | None \<Rightarrow> disk_coin (us_db us) k)"

definition disk_ok :: "utxo_db \<Rightarrow> bool" where
  "disk_ok db \<longleftrightarrow> (\<forall>k d. cf_utxo db k = Some d \<longrightarrow> (\<exists>e. utxo_deserialize d = Inr e \<and> coin_ok e))"

definition counts_ok :: "write_buffer \<Rightarrow> bool" where
  "counts_ok wb \<longleftrightarrow>
     insert_count wb = length (filter (\<lambda>e. snd e \<noteq> None) (wb_entries wb)) \<and>
     deletion_count wb = length (filter (\<lambda>e. snd e = None) (wb_entries wb))"

definition buffer_ok :: "write_buffer \<Rightarrow> bool" where
  "buffer_ok wb \<longleftrightarrow> distinct (map fst (wb_entries wb)) \<and> counts_ok wb \<and>
     (\<forall>k e. map_of (wb_entries wb) k = Some (Some e) \<longrightarrow> coin_ok e)"

text \<open>Cached coins are coins of the store.\<close>

definition coherent :: "utxo_set \<Rightarrow> bool" where
  "coherent us \<longleftrightarrow> buffer_ok (us_buffer us) \<and> disk_ok (us_db us) \<and>
     (\<forall>k c. map_of (us_cache us) k = Some c \<longrightarrow> coins us k = Some (to_entry c))"

definition iteration_ok :: "iteration \<Rightarrow> bool" where
  "iteration_ok it \<longleftrightarrow> (\<forall>m. mset (it_entries it m) = mset m)"

lemma coherentI:
  assumes "buffer_ok (us_buffer us)" and "disk_ok (us_db us)"
    and "\<And>k c. map_of (us_cache us) k = Some c \<Longrightarrow> coins us k = Some (to_entry c)"
  shows "coherent us"
  using assms by (simp add: coherent_def)

lemma coherent_cache_mono:
  assumes "coherent us" and "\<And>k c. map_of cache k = Some c \<Longrightarrow> coins us k = Some (to_entry c)"
  shows "coherent (us\<lparr>us_cache := cache\<rparr>)" and "coins (us\<lparr>us_cache := cache\<rparr>) = coins us"
proof -
  show eq: "coins (us\<lparr>us_cache := cache\<rparr>) = coins us"
    by (rule ext) (simp add: coins_def split: option.split)
  show "coherent (us\<lparr>us_cache := cache\<rparr>)"
    unfolding coherent_def eq using assms by (simp add: coherent_def)
qed

lemma disk_okE:
  assumes "disk_ok db" and "cf_utxo db k = Some d"
  obtains e where "utxo_deserialize d = Inr e" and "coin_ok e"
  using assms unfolding disk_ok_def by blast

section \<open>Reads\<close>

lemma disk_coin_ok: "disk_ok db \<Longrightarrow> disk_coin db k = Some e \<Longrightarrow> coin_ok e"
  by (auto simp: disk_coin_def split: option.splits sum.splits elim: disk_okE)

lemma utxo_get_correct:
  assumes "coherent us"
  shows "\<exists>us'. utxo_get us op = (Inr (coins us (outpoint_key op)), us') \<and> coherent us' \<and> coins us' = coins us"
proof -
  let ?k = "outpoint_key op"
  consider (buf) v where "map_of (wb_entries (us_buffer us)) ?k = Some v"
    | (cache) c where "map_of (wb_entries (us_buffer us)) ?k = None" "map_of (us_cache us) ?k = Some c"
    | (miss) "map_of (wb_entries (us_buffer us)) ?k = None" "map_of (us_cache us) ?k = None"
        "cf_utxo (us_db us) ?k = None"
    | (disk) d where "map_of (wb_entries (us_buffer us)) ?k = None" "map_of (us_cache us) ?k = None"
        "cf_utxo (us_db us) ?k = Some d"
    by (metis not_Some_eq)
  then show ?thesis
  proof cases
    case buf
    with assms show ?thesis by (cases v) (simp_all add: utxo_get_def coins_def)
  next
    case cache
    with assms show ?thesis by (simp add: utxo_get_def coherent_def)
  next
    case miss
    with assms show ?thesis by (simp add: utxo_get_def coins_def disk_coin_def)
  next
    case disk
    from disk_okE [OF _ disk(3)] assms obtain e where e: "utxo_deserialize d = Inr e" "coin_ok e"
      by (auto simp: coherent_def)
    let ?us = "us\<lparr>us_cache := hm_insert ?k (compact_new e) (us_cache us)\<rparr>"
    have c: "coins us ?k = Some e" using disk e(1) by (simp add: coins_def disk_coin_def)
    then have "map_of (hm_insert ?k (compact_new e) (us_cache us)) k = Some c \<Longrightarrow>
        coins us k = Some (to_entry c)" for k c
      using assms e(2) by (auto simp: hash_map.get_put compact_roundtrip coherent_def split: if_splits)
    from coherent_cache_mono [OF assms this] disk e(1) c show ?thesis
      by (simp add: utxo_get_def)
  qed
qed

lemma utxo_contains_correct:
  assumes "coherent us"
  shows "utxo_contains us op \<longleftrightarrow> coins us (outpoint_key op) \<noteq> None"
proof -
  let ?k = "outpoint_key op"
  have "cf_utxo (us_db us) ?k \<noteq> None \<longleftrightarrow> disk_coin (us_db us) ?k \<noteq> None"
    using assms by (force simp: coherent_def disk_ok_def disk_coin_def split: option.splits)
  moreover have "map_of (us_cache us) ?k \<noteq> None \<Longrightarrow> coins us ?k \<noteq> None"
    using assms by (auto simp: coherent_def)
  ultimately show ?thesis
    by (auto simp: utxo_contains_def coins_def split: option.splits)
qed

lemma prefetch_correct:
  assumes "coherent us"
  shows "coherent (prefetch us ops)" and "coins (prefetch us ops) = coins us"
proof -
  define f where "f = (\<lambda>key cache.
      case cf_utxo (us_db us) key of
        Some data \<Rightarrow> (case utxo_deserialize data of Inr entry \<Rightarrow> hm_insert key (compact_new entry) cache
                      | Inl _ \<Rightarrow> cache)
      | None \<Rightarrow> cache)"
  define ok where "ok = (\<lambda>cache. \<forall>k c. map_of cache k = Some c \<longrightarrow> coins us k = Some (to_entry c))"
  have step: "ok (f key cache)" if "ok cache" "map_of (wb_entries (us_buffer us)) key = None" for key cache
  proof (cases "cf_utxo (us_db us) key")
    case None
    with that show ?thesis by (simp add: f_def)
  next
    case (Some d)
    from disk_okE [OF _ this] assms obtain e where e: "utxo_deserialize d = Inr e" "coin_ok e"
      by (auto simp: coherent_def)
    then have "coins us key = Some e" using Some that(2) by (simp add: coins_def disk_coin_def)
    with e Some that show ?thesis
      by (auto simp: f_def ok_def hash_map.get_put compact_roundtrip)
  qed
  have run: "ok (fold f keys cache)"
    if "ok cache" "\<forall>key\<in>set keys. map_of (wb_entries (us_buffer us)) key = None" for keys cache
    using that by (induction keys arbitrary: cache) (auto simp: step)
  have "ok (us_cache us)" using assms by (simp add: ok_def coherent_def)
  from run [OF this, of "filter (\<lambda>key. map_of (wb_entries (us_buffer us)) key = None \<and>
      map_of (us_cache us) key = None) (map outpoint_key ops)"]
  have "ok (us_cache (prefetch us ops))" by (simp add: prefetch_def f_def)
  then have cache: "\<And>k c. map_of (us_cache (prefetch us ops)) k = Some c \<Longrightarrow> coins us k = Some (to_entry c)"
    by (simp add: ok_def)
  have eq: "prefetch us ops = us\<lparr>us_cache := us_cache (prefetch us ops)\<rparr>" by (simp add: prefetch_def)
  show "coherent (prefetch us ops)" by (subst eq) (rule coherent_cache_mono(1) [OF assms cache])
  show "coins (prefetch us ops) = coins us" by (subst eq) (rule coherent_cache_mono(2) [OF assms cache])
qed

lemma maybe_evict_correct:
  assumes "coherent us"
  shows "coherent (maybe_evict_cache it us)" and "coins (maybe_evict_cache it us) = coins us"
proof -
  have cache: "\<And>k c. map_of (us_cache (maybe_evict_cache it us)) k = Some c \<Longrightarrow>
      coins us k = Some (to_entry c)"
    using assms by (auto simp: maybe_evict_cache_def Let_def hash_map.get_del_batch coherent_def split: if_splits)
  have eq: "maybe_evict_cache it us = us\<lparr>us_cache := us_cache (maybe_evict_cache it us)\<rparr>"
    by (simp add: maybe_evict_cache_def Let_def)
  show "coherent (maybe_evict_cache it us)" by (subst eq) (rule coherent_cache_mono(1) [OF assms cache])
  show "coins (maybe_evict_cache it us) = coins us" by (subst eq) (rule coherent_cache_mono(2) [OF assms cache])
qed

section \<open>Flushing\<close>

text \<open>The chunking only decides where the batches are cut.\<close>

lemma push_chunk_concat:
  "fold push_chunk ops (written, batch, n) = (written', batch', n') \<Longrightarrow>
     concat written' @ batch' = concat written @ batch @ map fst ops"
proof (induction ops arbitrary: written batch n)
  case (Cons op ops)
  obtain o' m where op: "op = (o', m)" by (cases op)
  show ?case
    using Cons.IH [of "written @ [batch @ [o']]" "[]" 0] Cons.IH [of written "batch @ [o']" "n + m"] Cons.prems
    by (auto simp: op Let_def split: if_splits)
qed simp

lemma concat_flush_batches:
  "concat (flush_batches it wb) =
     map fst (insert_ops (it_entries it (wb_entries wb))) @ map fst (undo_ops (undo_buffer wb)) @
     delete_ops (it_entries it (wb_entries wb)) @ meta_ops wb"
proof -
  obtain w b n where f: "fold push_chunk (insert_ops (it_entries it (wb_entries wb)) @ undo_ops (undo_buffer wb))
      ([], [], 0) = (w, b, n)" by (metis prod_cases3)
  show ?thesis using push_chunk_concat [OF f] by (simp add: flush_batches_def Let_def f del: fold_append)
qed

lemma db_write_concat: "fold db_write bs db = fold apply_op (concat bs) db"
  by (induction bs arbitrary: db) (simp_all add: db_write_def)

text \<open>What a sequence of operations does to the coins.\<close>

fun utxo_writes :: "db_op list \<Rightarrow> (bytes \<times> bytes option) list" where
  "utxo_writes [] = []"
| "utxo_writes (PutUtxo k v # ops) = (k, Some v) # utxo_writes ops"
| "utxo_writes (DeleteUtxo k # ops) = (k, None) # utxo_writes ops"
| "utxo_writes (_ # ops) = utxo_writes ops"

lemma utxo_writes_append [simp]: "utxo_writes (xs @ ys) = utxo_writes xs @ utxo_writes ys"
  by (induction xs rule: utxo_writes.induct) auto

lemma cf_utxo_apply:
  "cf_utxo (fold apply_op ops db) k =
     (case map_of (rev (utxo_writes ops)) k of Some v \<Rightarrow> v | None \<Rightarrow> cf_utxo db k)"
proof (induction ops arbitrary: db rule: rev_induct)
  case (snoc op ops)
  then show ?case by (cases op) (auto simp: put_cf_def delete_cf_def split: option.split)
qed simp

lemma utxo_writes_insert_ops:
  "utxo_writes (map fst (insert_ops es)) =
     map (\<lambda>(k, e). (k, map_option utxo_serialize e)) (filter (\<lambda>e. snd e \<noteq> None) es)"
  by (induction es rule: insert_ops.induct) auto

lemma utxo_writes_delete_ops:
  "utxo_writes (delete_ops es) =
     map (\<lambda>(k, e). (k, map_option utxo_serialize e)) (filter (\<lambda>e. snd e = None) es)"
  by (induction es rule: delete_ops.induct) auto

lemma utxo_writes_other [simp]:
  "utxo_writes (map fst (undo_ops us)) = []" "utxo_writes (meta_ops wb) = []"
  by (induction us) (auto simp: undo_ops_def meta_ops_def split: option.split)

lemma map_of_unique:
  assumes "distinct (map fst xs)" and "mset ys = mset xs"
  shows "map_of ys = map_of xs"
proof -
  have "set ys = set xs" using assms(2) by (rule mset_eq_setD)
  moreover have "distinct (map fst ys)"
    using assms by (metis mset_map mset_eq_imp_distinct_iff)
  ultimately show ?thesis using assms(1) by (metis map_of_inject_set)
qed

text \<open>The coins on disk after all batches are the buffered ones over the old ones.\<close>

lemma cf_utxo_flush:
  assumes "iteration_ok it" and "distinct (map fst (wb_entries wb))"
  shows "cf_utxo (fold db_write (flush_batches it wb) db) k =
     (case map_of (wb_entries wb) k of
        Some e \<Rightarrow> map_option utxo_serialize e | None \<Rightarrow> cf_utxo db k)"
proof -
  let ?es = "it_entries it (wb_entries wb)"
  let ?g = "\<lambda>(k, e). (k, map_option utxo_serialize e)"
  let ?ws = "filter (\<lambda>e. snd e \<noteq> None) ?es @ filter (\<lambda>e. snd e = None) ?es"
  have m: "mset (rev ?ws) = mset (wb_entries wb)"
    using assms(1) multiset_partition [of "mset ?es" "\<lambda>e. snd e \<noteq> None"]
    by (simp add: iteration_ok_def)
  have g: "map_of (map ?g xs) k = map_option (map_option utxo_serialize) (map_of xs k)" for xs
    by (induction xs) auto
  have "map_of (rev (map ?g ?ws)) k = map_option (map_option utxo_serialize) (map_of (wb_entries wb) k)"
    unfolding rev_map g using map_of_unique [OF assms(2) m] by simp
  moreover have "utxo_writes (concat (flush_batches it wb)) = map ?g ?ws"
    by (simp add: concat_flush_batches utxo_writes_insert_ops utxo_writes_delete_ops)
  ultimately have "map_of (rev (utxo_writes (concat (flush_batches it wb)))) k
      = map_option (map_option utxo_serialize) (map_of (wb_entries wb) k)" by (simp only:)
  then show ?thesis
    unfolding db_write_concat cf_utxo_apply by (cases "map_of (wb_entries wb) k") simp_all
qed

lemma promote_cache:
  "map_of (promote cap es cache) k = Some c \<Longrightarrow>
     map_of cache k = Some c \<or> (\<exists>e. (k, Some e) \<in> set es \<and> c = compact_new e)"
proof (induction cap es cache rule: promote.induct)
  case (2 cap key entry es cache)
  show ?case
  proof (cases "cap \<le> length cache")
    case True
    with 2 show ?thesis by simp
  next
    case False
    with 2 show ?thesis
      by (cases entry) (auto simp: hash_map.get_put split: if_splits)
  qed
qed simp

lemma flush_correct:
  assumes "iteration_ok it" and "coherent us"
  shows "coherent (flush_to_disk it us)" and "coins (flush_to_disk it us) = coins us"
proof -
  let ?wb = "us_buffer us" and ?db = "us_db us"
  have buf: "distinct (map fst (wb_entries ?wb))" "disk_ok ?db"
    "\<And>k e. map_of (wb_entries ?wb) k = Some (Some e) \<Longrightarrow> coin_ok e"
    using assms(2) by (auto simp: coherent_def buffer_ok_def)
  have both: "coherent (flush_to_disk it us) \<and> coins (flush_to_disk it us) = coins us"
  proof (cases "wb_is_empty ?wb \<and> undo_buffer ?wb = [] \<and> pending_flush_height ?wb = None")
    case True
    then have eq: "flush_to_disk it us = us\<lparr>us_buffer := ?wb\<lparr>blocks_since_flush := 0\<rparr>\<rparr>"
      by (simp add: flush_to_disk_def)
    have c: "coins (flush_to_disk it us) = coins us"
      unfolding eq by (rule ext) (simp add: coins_def split: option.split)
    have "coherent (flush_to_disk it us)"
      unfolding coherent_def c using assms(2)
      by (simp add: eq coherent_def buffer_ok_def counts_ok_def)
    with c show ?thesis by simp
  next
    case False
    let ?db' = "fold db_write (flush_batches it ?wb) ?db"
    let ?us' = "flush_to_disk it us"
    have eq: "us_db ?us' = ?db'" "wb_entries (us_buffer ?us') = []"
      "us_cache ?us' = promote (cache_capacity us) (it_entries it (wb_entries ?wb)) (us_cache us)"
      "insert_count (us_buffer ?us') = 0" "deletion_count (us_buffer ?us') = 0"
      using False by (auto simp: flush_to_disk_def Let_def)
    note disk = cf_utxo_flush [OF assms(1) buf(1), of ?db]
    have read: "utxo_deserialize (utxo_serialize e) = Inr e" if "map_of (wb_entries ?wb) k = Some (Some e)" for k e
      using buf(3) [OF that] entry_codec.dec_enc by blast
    have c: "coins ?us' = coins us"
    proof
      fix k
      show "coins ?us' k = coins us k"
        using read [of k] by (auto simp: coins_def eq disk_coin_def disk split: option.split)
    qed
    have dok: "disk_ok ?db'"
      unfolding disk_ok_def
    proof (intro allI impI)
      fix k d assume d: "cf_utxo ?db' k = Some d"
      show "\<exists>e. utxo_deserialize d = Inr e \<and> coin_ok e"
      proof (cases "map_of (wb_entries ?wb) k")
        case None
        with d have "cf_utxo ?db k = Some d" by (simp add: disk)
        with buf(2) show ?thesis by (auto elim: disk_okE)
      next
        case (Some v)
        with d obtain e where "v = Some e" "d = utxo_serialize e" by (auto simp: disk)
        with Some read [of k e] buf(3) [of k e] show ?thesis by auto
      qed
    qed
    have "coins us k = Some (to_entry x)" if x: "map_of (us_cache ?us') k = Some x" for k x
    proof -
      from promote_cache [OF x [unfolded eq(3)]]
      consider "map_of (us_cache us) k = Some x"
        | e where "(k, Some e) \<in> set (it_entries it (wb_entries ?wb))" "x = compact_new e" by blast
      then show ?thesis
      proof cases
        case 1
        with assms(2) show ?thesis by (simp add: coherent_def)
      next
        case 2
        then have "(k, Some e) \<in> set (wb_entries ?wb)"
          using assms(1) by (metis iteration_ok_def mset_eq_setD)
        then have "map_of (wb_entries ?wb) k = Some (Some e)" using buf(1) by simp
        with buf(3) [OF this] 2 show ?thesis by (simp add: coins_def compact_roundtrip)
      qed
    qed
    then have "coherent ?us'"
      using dok unfolding coherent_def c
      by (simp add: eq buffer_ok_def counts_ok_def)
    with c show ?thesis by simp
  qed
  then show "coherent (flush_to_disk it us)" "coins (flush_to_disk it us) = coins us" by simp_all
qed

section \<open>Batches\<close>

lemma filter_absent: "map_of m k = None \<Longrightarrow> filter (\<lambda>e. fst e \<noteq> k) m = m"
  by (induction m) (auto split: if_splits)

lemma count_remove:
  assumes "distinct (map fst m)"
  shows "length (filter P m) = length (filter P (filter (\<lambda>e. fst e \<noteq> k) m)) +
     (case map_of m k of Some v \<Rightarrow> if P (k, v) then 1 else 0 | None \<Rightarrow> 0)"
  using assms
proof (induction m)
  case (Cons x m)
  show ?case
  proof (cases "fst x = k")
    case True
    then have "map_of m k = None" using Cons.prems by (auto simp: map_of_eq_None_iff)
    with True show ?thesis by (cases x) (simp add: filter_absent)
  next
    case False
    with Cons show ?thesis by (cases x) (auto split: option.split)
  qed
qed simp

lemma buffer_insert_entries:
  "wb_entries (buffer_insert (op, e) wb) = hm_insert (outpoint_key op) (Some e) (wb_entries wb)"
  by (simp add: Let_def split: option.split)

lemma buffer_remove_entries:
  "wb_entries (buffer_remove op wb) = hm_insert (outpoint_key op) None (wb_entries wb)"
  by (simp add: buffer_remove_def Let_def split: option.split)

lemma counts_insert:
  assumes "distinct (map fst (wb_entries wb))" and "counts_ok wb"
  shows "counts_ok (buffer_insert (op, e) wb)" and "counts_ok (buffer_remove op wb)"
proof -
  let ?k = "outpoint_key op"
  note some = count_remove [OF assms(1), of "\<lambda>e. snd e \<noteq> None" ?k]
  note none = count_remove [OF assms(1), of "\<lambda>e. snd e = None" ?k]
  consider (absent) "map_of (wb_entries wb) ?k = None" | (gone) "map_of (wb_entries wb) ?k = Some None"
    | (there) e' where "map_of (wb_entries wb) ?k = Some (Some e')" by (metis option.exhaust)
  then have "counts_ok (buffer_insert (op, e) wb) \<and> counts_ok (buffer_remove op wb)"
  proof cases
    case absent
    with some none assms(2) show ?thesis
      by (simp add: counts_ok_def buffer_remove_def hm_insert_def Let_def)
  next
    case gone
    with some none assms(2) show ?thesis
      by (simp add: counts_ok_def buffer_remove_def hm_insert_def Let_def)
  next
    case there
    with some none assms(2) show ?thesis
      by (simp add: counts_ok_def buffer_remove_def hm_insert_def Let_def)
  qed
  then show "counts_ok (buffer_insert (op, e) wb)" "counts_ok (buffer_remove op wb)" by simp_all
qed

lemma buffer_ok_insert:
  assumes "buffer_ok wb" and "coin_ok e"
  shows "buffer_ok (buffer_insert (op, e) wb)"
  using assms counts_insert(1) [of wb op e]
  by (auto simp: buffer_ok_def buffer_insert_entries distinct_hm_insert hash_map.get_put
      simp del: buffer_insert.simps split: if_splits)

lemma buffer_ok_remove: "buffer_ok wb \<Longrightarrow> buffer_ok (buffer_remove op wb)"
  using counts_insert(2) [of wb op]
  by (auto simp: buffer_ok_def buffer_remove_entries distinct_hm_insert hash_map.get_put split: if_splits)

text \<open>The abstract effect of a batch, and the condition on its inserts: a key is written only when
  it is free or already holds the same coin.\<close>

fun put_coins :: "(out_point \<times> utxo_entry) list \<Rightarrow> (bytes \<rightharpoonup> utxo_entry) \<Rightarrow> (bytes \<rightharpoonup> utxo_entry)" where
  "put_coins [] m = m"
| "put_coins ((op, e) # r) m = put_coins r (m(outpoint_key op \<mapsto> e))"

fun del_coins :: "out_point list \<Rightarrow> (bytes \<rightharpoonup> utxo_entry) \<Rightarrow> (bytes \<rightharpoonup> utxo_entry)" where
  "del_coins [] m = m"
| "del_coins (op # r) m = del_coins r (m(outpoint_key op := None))"

definition abs_batch :: "utxo_batch \<Rightarrow> (bytes \<rightharpoonup> utxo_entry) \<Rightarrow> (bytes \<rightharpoonup> utxo_entry)" where
  "abs_batch b m = del_coins (removals b) (put_coins (inserts b) m)"

fun fresh_inserts :: "(out_point \<times> utxo_entry) list \<Rightarrow> (bytes \<rightharpoonup> utxo_entry) \<Rightarrow> bool" where
  "fresh_inserts [] m \<longleftrightarrow> True"
| "fresh_inserts ((op, e) # r) m \<longleftrightarrow> coin_ok e \<and>
     (m (outpoint_key op) = None \<or> m (outpoint_key op) = Some e) \<and>
     fresh_inserts r (m(outpoint_key op \<mapsto> e))"

definition over :: "(bytes \<times> utxo_entry option) list \<Rightarrow> (bytes \<rightharpoonup> utxo_entry) \<Rightarrow> (bytes \<rightharpoonup> utxo_entry)" where
  "over es m k = (case map_of es k of Some v \<Rightarrow> v | None \<Rightarrow> m k)"

lemma coins_over: "coins us = over (wb_entries (us_buffer us)) (disk_coin (us_db us))"
  by (rule ext) (simp add: coins_def over_def)

lemma over_insert: "over (hm_insert k v es) m = (over es m)(k := v)"
  by (rule ext) (simp add: over_def hash_map.get_put)

lemma buffer_inserts:
  assumes "buffer_ok wb" and "fresh_inserts ins (over (wb_entries wb) m)"
  shows "buffer_ok (fold buffer_insert ins wb) \<and>
         over (wb_entries (fold buffer_insert ins wb)) m = put_coins ins (over (wb_entries wb) m)"
  using assms
proof (induction ins arbitrary: wb)
  case (Cons i ins)
  obtain op e where i: "i = (op, e)" by (cases i)
  have "buffer_ok (buffer_insert (op, e) wb)" using Cons.prems by (intro buffer_ok_insert) (simp_all add: i)
  moreover have "over (wb_entries (buffer_insert (op, e) wb)) m = (over (wb_entries wb) m)(outpoint_key op \<mapsto> e)"
    unfolding buffer_insert_entries by (rule over_insert)
  ultimately show ?case
    using Cons.IH [of "buffer_insert (op, e) wb"] Cons.prems(2)
    by (simp add: i del: buffer_insert.simps fun_upd_apply)
qed simp

lemma buffer_removals:
  assumes "buffer_ok wb"
  shows "buffer_ok (fold buffer_remove rs wb) \<and>
         over (wb_entries (fold buffer_remove rs wb)) m = del_coins rs (over (wb_entries wb) m)"
  using assms
proof (induction rs arbitrary: wb)
  case (Cons r rs)
  have "over (wb_entries (buffer_remove r wb)) m = (over (wb_entries wb) m)(outpoint_key r := None)"
    unfolding buffer_remove_entries by (rule over_insert)
  with Cons.IH [OF buffer_ok_remove [OF Cons.prems], of r] show ?case by (simp del: fun_upd_apply)
qed simp

lemma put_coins_keeps:
  "fresh_inserts ins m \<Longrightarrow> m k = Some e \<Longrightarrow> put_coins ins m k = Some e"
proof (induction ins arbitrary: m)
  case (Cons i ins)
  obtain op e' where i: "i = (op, e')" by (cases i)
  have "(m(outpoint_key op \<mapsto> e')) k = Some e" using Cons.prems by (auto simp: i)
  with Cons show ?case by (simp add: i del: fun_upd_apply)
qed simp

lemma del_coins_lookup:
  "del_coins rs m k = (if k \<in> outpoint_key ` set rs then None else m k)"
proof (induction rs arbitrary: m)
  case (Cons r rs)
  have "del_coins (r # rs) m k = (if k \<in> outpoint_key ` set rs then None else (m(outpoint_key r := None)) k)"
    unfolding del_coins.simps by (rule Cons.IH)
  then show ?case by auto
qed simp

lemma apply_batch_correct:
  assumes "iteration_ok it" and "coherent us" and "fresh_inserts (inserts b) (coins us)"
  shows "coherent (snd (apply_batch it us b)) \<and> coins (snd (apply_batch it us b)) = abs_batch b (coins us)"
proof -
  let ?wb1 = "fold buffer_insert (inserts b) (us_buffer us)"
  let ?wb2 = "fold buffer_remove (removals b) ?wb1"
  let ?wb = "?wb2\<lparr>blocks_since_flush := blocks_since_flush ?wb2 + 1\<rparr>"
  let ?cache = "fold (\<lambda>outpoint. hm_remove (outpoint_key outpoint)) (removals b) (us_cache us)"
  define us1 where "us1 = us\<lparr>us_buffer := ?wb, us_cache := ?cache\<rparr>"
  have co: "buffer_ok (us_buffer us)" "disk_ok (us_db us)" using assms(2) by (auto simp: coherent_def)
  have 1: "buffer_ok ?wb1" "over (wb_entries ?wb1) (disk_coin (us_db us)) = put_coins (inserts b) (coins us)"
    using buffer_inserts [OF co(1), of "inserts b" "disk_coin (us_db us)"] assms(3) by (simp_all add: coins_over)
  have 2: "buffer_ok ?wb2" "over (wb_entries ?wb2) (disk_coin (us_db us)) = abs_batch b (coins us)"
    using buffer_removals [OF 1(1), of "removals b" "disk_coin (us_db us)"] 1(2) by (simp_all add: abs_batch_def)
  have c: "coins us1 = abs_batch b (coins us)" using 2(2) by (simp add: coins_over us1_def)
  have "abs_batch b (coins us) k = Some (to_entry x)" if "map_of (us_cache us1) k = Some x" for k x
  proof -
    from that have k: "k \<notin> outpoint_key ` set (removals b)" "map_of (us_cache us) k = Some x"
      by (simp_all add: us1_def map_of_hm_remove_batch split: if_splits)
    then have "coins us k = Some (to_entry x)" using assms(2) by (simp add: coherent_def)
    with put_coins_keeps [OF assms(3)] k(1) show ?thesis by (simp add: abs_batch_def del_coins_lookup)
  qed
  then have "coherent us1"
    using 2(1) co(2) unfolding coherent_def c by (simp add: us1_def buffer_ok_def counts_ok_def)
  note ev = maybe_evict_correct [OF this, of it]
  note fl = flush_correct [OF assms(1) ev(1)]
  have "snd (apply_batch it us b) = maybe_evict_cache it us1 \<or>
      snd (apply_batch it us b) = flush_to_disk it (maybe_evict_cache it us1)"
    by (simp add: apply_batch_def Let_def us1_def)
  with ev fl c show ?thesis by auto
qed

section \<open>The interface that block connection relies on\<close>

locale coin_store =
  fixes view :: "'s \<Rightarrow> (bytes \<rightharpoonup> utxo_entry)"
    and app :: "utxo_batch \<Rightarrow> 's \<Rightarrow> 's"
    and wf :: "'s \<Rightarrow> bool"
  assumes view_app: "wf s \<Longrightarrow> fresh_inserts (inserts b) (view s) \<Longrightarrow> view (app b s) = abs_batch b (view s)"
    and wf_app: "wf s \<Longrightarrow> fresh_inserts (inserts b) (view s) \<Longrightarrow> wf (app b s)"
begin

text \<open>A block's batch followed by its inverse restores the store, coins that the block both created
  and spent included.\<close>

lemma inverse_batch:
  assumes wf: "wf s" and fresh: "fresh_inserts (inserts b) (view s)"
    and new: "\<forall>i\<in>set (inserts b). view s (outpoint_key (fst i)) = None"
    and spent: "\<forall>i\<in>set sp. put_coins (inserts b) (view s) (outpoint_key (fst i)) = Some (snd i) \<and> coin_ok (snd i)"
    and dist: "distinct (map (outpoint_key \<circ> fst) sp)"
    and rem: "removals b = map fst sp"
    and inv: "inserts c = sp" "outpoint_key ` set (removals c) = outpoint_key ` fst ` set (inserts b)"
  shows "view (app c (app b s)) = view s" and "wf (app c (app b s))"
proof -
  have put: "put_coins ins m k = m k" if "k \<notin> outpoint_key ` fst ` set ins" for ins m k
    using that
  proof (induction ins arbitrary: m)
    case (Cons i ins)
    then show ?case by (cases i) auto
  qed simp
  have put_sp: "put_coins sps m k = (if k \<in> (outpoint_key \<circ> fst) ` set sps then f k else m k)"
    if "\<forall>i\<in>set sps. f (outpoint_key (fst i)) = Some (snd i)" for sps m k and f :: "bytes \<rightharpoonup> utxo_entry"
    using that
  proof (induction sps arbitrary: m)
    case (Cons i sps)
    obtain op e where i: "i = (op, e)" by (cases i)
    have "put_coins (i # sps) m k = put_coins sps (m(outpoint_key op \<mapsto> e)) k" by (simp add: i)
    also have "\<dots> = (if k \<in> (outpoint_key \<circ> fst) ` set sps then f k else (m(outpoint_key op \<mapsto> e)) k)"
      using Cons.prems by (intro Cons.IH) simp
    finally show ?case using Cons.prems by (auto simp: i)
  qed simp
  let ?m = "view (app b s)"
  have m: "?m = abs_batch b (view s)" by (rule view_app [OF wf fresh])
  have gone: "?m (outpoint_key (fst i)) = None" if "i \<in> set sp" for i
    using that by (auto simp: m abs_batch_def del_coins_lookup rem)
  have fr: "fresh_inserts ins m"
    if "\<forall>i\<in>set ins. m (outpoint_key (fst i)) = None \<and> coin_ok (snd i)" "distinct (map (outpoint_key \<circ> fst) ins)"
    for ins and m :: "bytes \<rightharpoonup> utxo_entry"
    using that
  proof (induction ins arbitrary: m)
    case (Cons i ins)
    obtain op e where i: "i = (op, e)" by (cases i)
    have "fresh_inserts ins (m(outpoint_key op \<mapsto> e))"
      using Cons.prems by (intro Cons.IH) (force simp: i)+
    with Cons.prems show ?case by (simp add: i)
  qed simp
  have c: "fresh_inserts (inserts c) ?m" unfolding inv(1) using gone spent dist by (intro fr) auto
  have wfb: "wf (app b s)" by (rule wf_app [OF wf fresh])
  show "wf (app c (app b s))" by (rule wf_app [OF wfb c])
  show "view (app c (app b s)) = view s"
  proof
    fix k
    have "view (app c (app b s)) k = del_coins (removals c) (put_coins sp ?m) k"
      using view_app [OF wfb c] by (simp add: abs_batch_def inv(1))
    also have "\<dots> = (if k \<in> outpoint_key ` fst ` set (inserts b) then None
        else if k \<in> (outpoint_key \<circ> fst) ` set sp then put_coins (inserts b) (view s) k else ?m k)"
      using put_sp [of sp "put_coins (inserts b) (view s)"] spent by (simp add: del_coins_lookup inv(2))
    also have "\<dots> = view s k"
      using new put by (force simp: m abs_batch_def del_coins_lookup rem)
    finally show "view (app c (app b s)) k = view s k" .
  qed
qed

end

interpretation utxo_store: coin_store "\<lambda>(it, us). coins us" "\<lambda>b (it, us). (it, snd (apply_batch it us b))"
  "\<lambda>(it, us). iteration_ok it \<and> coherent us"
  by unfold_locales (use apply_batch_correct in auto)

section \<open>Traces of calls\<close>

datatype utxo_call =
  CGet out_point | CContains out_point | CPrefetch "out_point list" | CApply utxo_batch | CFlush
| CSetPending u32 bytes | CStoreUndo bytes "spent_utxo list" "out_point list" bytes | CDeleteUndo bytes

datatype utxo_reply = RCoin "storage_error + utxo_entry option" | RBool bool | RUnit

fun utxo_step :: "iteration \<Rightarrow> utxo_call \<Rightarrow> utxo_set \<Rightarrow> utxo_reply \<times> utxo_set" where
  "utxo_step it (CGet op) us = (let (r, us') = utxo_get us op in (RCoin r, us'))"
| "utxo_step it (CContains op) us = (RBool (utxo_contains us op), us)"
| "utxo_step it (CPrefetch ops) us = (RUnit, prefetch us ops)"
| "utxo_step it (CApply b) us = (RUnit, snd (apply_batch it us b))"
| "utxo_step it CFlush us = (RUnit, flush_to_disk it us)"
| "utxo_step it (CSetPending h x) us = (RUnit, set_pending_flush_height h x us)"
| "utxo_step it (CStoreUndo h sp cr pv) us = (RUnit, store_undo h sp cr pv us)"
| "utxo_step it (CDeleteUndo h) us = (RUnit, delete_undo h us)"

fun abs_step :: "utxo_call \<Rightarrow> (bytes \<rightharpoonup> utxo_entry) \<Rightarrow> utxo_reply \<times> (bytes \<rightharpoonup> utxo_entry)" where
  "abs_step (CGet op) m = (RCoin (Inr (m (outpoint_key op))), m)"
| "abs_step (CContains op) m = (RBool (m (outpoint_key op) \<noteq> None), m)"
| "abs_step (CApply b) m = (RUnit, abs_batch b m)"
| "abs_step _ m = (RUnit, m)"

fun call_ok :: "utxo_call \<Rightarrow> (bytes \<rightharpoonup> utxo_entry) \<Rightarrow> bool" where
  "call_ok (CApply b) m \<longleftrightarrow> fresh_inserts (inserts b) m"
| "call_ok _ m \<longleftrightarrow> True"

fun utxo_run :: "iteration \<Rightarrow> utxo_call list \<Rightarrow> utxo_set \<Rightarrow> utxo_reply list \<times> utxo_set" where
  "utxo_run it [] us = ([], us)"
| "utxo_run it (c # cs) us =
     (let (r, us') = utxo_step it c us; (rs, us'') = utxo_run it cs us' in (r # rs, us''))"

fun abs_run :: "utxo_call list \<Rightarrow> (bytes \<rightharpoonup> utxo_entry) \<Rightarrow> utxo_reply list \<times> (bytes \<rightharpoonup> utxo_entry)" where
  "abs_run [] m = ([], m)"
| "abs_run (c # cs) m = (let (r, m') = abs_step c m; (rs, m'') = abs_run cs m' in (r # rs, m''))"

fun calls_ok :: "utxo_call list \<Rightarrow> (bytes \<rightharpoonup> utxo_entry) \<Rightarrow> bool" where
  "calls_ok [] m \<longleftrightarrow> True"
| "calls_ok (c # cs) m \<longleftrightarrow> call_ok c m \<and> calls_ok cs (snd (abs_step c m))"

lemma coherent_cong:
  assumes "coherent us" and "us_cache us' = us_cache us" and "cf_utxo (us_db us') = cf_utxo (us_db us)"
    and "wb_entries (us_buffer us') = wb_entries (us_buffer us)"
    and "insert_count (us_buffer us') = insert_count (us_buffer us)"
    and "deletion_count (us_buffer us') = deletion_count (us_buffer us)"
  shows "coherent us' \<and> coins us' = coins us"
proof -
  have d: "disk_coin (us_db us') = disk_coin (us_db us)" by (rule ext) (simp add: disk_coin_def assms(3))
  have c: "coins us' = coins us" by (simp add: coins_over d assms(4))
  with assms show ?thesis by (simp add: coherent_def buffer_ok_def counts_ok_def disk_ok_def)
qed

lemma utxo_step_refines:
  assumes "iteration_ok it" and "coherent us" and "call_ok c (coins us)"
  shows "\<exists>us'. utxo_step it c us = (fst (abs_step c (coins us)), us') \<and> coherent us' \<and>
           coins us' = snd (abs_step c (coins us))"
proof (cases c)
  case (CGet op)
  with utxo_get_correct [OF assms(2), of op] show ?thesis by auto
next
  case (CContains op)
  with utxo_contains_correct [OF assms(2)] assms(2) show ?thesis by simp
next
  case (CPrefetch ops)
  with prefetch_correct [OF assms(2)] show ?thesis by simp
next
  case (CApply b)
  with apply_batch_correct [OF assms(1,2), of b] assms(3) show ?thesis by simp
next
  case CFlush
  with flush_correct [OF assms(1,2)] show ?thesis by simp
next
  case (CSetPending h x)
  with coherent_cong [OF assms(2), of "set_pending_flush_height h x us"] show ?thesis
    by (simp add: set_pending_flush_height_def)
next
  case (CStoreUndo h sp cr pv)
  with coherent_cong [OF assms(2), of "store_undo h sp cr pv us"] show ?thesis
    by (simp add: store_undo_def Let_def)
next
  case (CDeleteUndo h)
  with coherent_cong [OF assms(2), of "delete_undo h us"] show ?thesis
    by (simp add: delete_undo_def db_write_def)
qed

lemma utxo_run_refines:
  assumes "iteration_ok it"
  shows "coherent us \<Longrightarrow> calls_ok cs (coins us) \<Longrightarrow>
    \<exists>us'. utxo_run it cs us = (fst (abs_run cs (coins us)), us') \<and> coherent us' \<and>
          coins us' = snd (abs_run cs (coins us))"
proof (induction cs arbitrary: us)
  case (Cons c cs)
  from utxo_step_refines [OF assms Cons.prems(1), of c] Cons.prems(2) obtain us1 where
    1: "utxo_step it c us = (fst (abs_step c (coins us)), us1)" "coherent us1"
      "coins us1 = snd (abs_step c (coins us))" by auto
  from Cons.IH [OF 1(2)] Cons.prems(2) 1(3) obtain us2 where
    "utxo_run it cs us1 = (fst (abs_run cs (coins us1)), us2)" "coherent us2"
    "coins us2 = snd (abs_run cs (coins us1))" by auto
  with 1 show ?case by (auto simp: Let_def split: prod.split)
qed simp

end
