(* ===== verification/Utxo_Recovery.thy ===== *)
theory Utxo_Recovery
  imports Utxo_Facts
begin

text \<open>
  Durability of the UTXO set: what a crash in the middle of a flush leaves on disk, undo records
  that are read back after buffering and flushing, and rolling a block back from its undo record.
\<close>

section \<open>Crashes during a flush\<close>

fun undo_writes :: "db_op list \<Rightarrow> (bytes \<times> bytes option) list" where
  "undo_writes [] = []"
| "undo_writes (PutUndo k v # ops) = (k, Some v) # undo_writes ops"
| "undo_writes (DeleteUndo k # ops) = (k, None) # undo_writes ops"
| "undo_writes (_ # ops) = undo_writes ops"

lemma undo_writes_append [simp]: "undo_writes (xs @ ys) = undo_writes xs @ undo_writes ys"
  by (induction xs rule: undo_writes.induct) auto

lemma cf_undo_apply:
  "cf_undo (fold apply_op ops db) k =
     (case map_of (rev (undo_writes ops)) k of Some v \<Rightarrow> v | None \<Rightarrow> cf_undo db k)"
proof (induction ops arbitrary: db rule: rev_induct)
  case (snoc op ops)
  then show ?case by (cases op) (auto simp: put_cf_def delete_cf_def split: option.split)
qed simp

text \<open>The operations of the chunks before the last are puts of coins and undo records.\<close>

fun is_put :: "db_op \<Rightarrow> bool" where
  "is_put (PutUtxo k v) \<longleftrightarrow> True"
| "is_put (PutUndo k v) \<longleftrightarrow> True"
| "is_put _ \<longleftrightarrow> False"

lemma puts_keep:
  "\<forall>op\<in>set ops. is_put op \<Longrightarrow>
     cf_utxo_meta (fold apply_op ops db) = cf_utxo_meta db \<and>
     (cf_utxo db k \<noteq> None \<longrightarrow> cf_utxo (fold apply_op ops db) k \<noteq> None) \<and>
     (cf_undo db k \<noteq> None \<longrightarrow> cf_undo (fold apply_op ops db) k \<noteq> None)"
proof (induction ops arbitrary: db)
  case (Cons op ops)
  then show ?case using Cons.IH [of "apply_op op db"]
    by (cases op) (auto simp: put_cf_def split: if_splits)
qed simp

lemma flush_prefix:
  assumes "k < length (flush_batches it wb)"
  shows "\<exists>rest. map fst (insert_ops (it_entries it (wb_entries wb)) @ undo_ops (undo_buffer wb))
           = concat (take k (flush_batches it wb)) @ rest"
proof -
  let ?ops = "insert_ops (it_entries it (wb_entries wb)) @ undo_ops (undo_buffer wb)"
  obtain w b n where f: "fold push_chunk ?ops ([], [], 0) = (w, b, n)" by (metis prod_cases3)
  have bs: "flush_batches it wb = w @ [b @ delete_ops (it_entries it (wb_entries wb)) @ meta_ops wb]"
    by (simp add: flush_batches_def Let_def f del: fold_append)
  have "map fst ?ops = concat w @ b" using push_chunk_concat [OF f] by simp
  also have "concat w = concat (take k w) @ concat (drop k w)"
    by (metis append_take_drop_id concat_append)
  finally show ?thesis using assms by (auto simp: bs)
qed

lemma insert_undo_puts: "op \<in> set (map fst (insert_ops es @ undo_ops u)) \<Longrightarrow> is_put op"
proof -
  have "\<forall>x\<in>set (insert_ops es). is_put (fst x)" by (induction es rule: insert_ops.induct) auto
  then show "op \<in> set (map fst (insert_ops es @ undo_ops u)) \<Longrightarrow> is_put op"
    by (auto simp: undo_ops_def)
qed

text \<open>A sequence of operations does not see an earlier prefix of its own puts.\<close>

lemma replay_absorbs:
  assumes "\<forall>op\<in>set pre. is_put op" and "set (utxo_writes pre) \<subseteq> set (utxo_writes ops)"
    and "set (undo_writes pre) \<subseteq> set (undo_writes ops)"
  shows "fold apply_op ops (fold apply_op pre db) = fold apply_op ops db"
proof -
  have dom: "map_of (rev ys) k \<noteq> None" if "set xs \<subseteq> set ys" "map_of (rev xs) k \<noteq> None"
    for xs ys :: "(bytes \<times> bytes option) list" and k
    using image_mono [OF that(1), of fst] that(2) unfolding map_of_eq_None_iff by auto
  have utxo: "cf_utxo (fold apply_op ops (fold apply_op pre db)) = cf_utxo (fold apply_op ops db)"
  proof
    fix k
    show "cf_utxo (fold apply_op ops (fold apply_op pre db)) k = cf_utxo (fold apply_op ops db) k"
      using dom [OF assms(2), of k]
      by (cases "map_of (rev (utxo_writes ops)) k") (auto simp: cf_utxo_apply split: option.split)
  qed
  have undo: "cf_undo (fold apply_op ops (fold apply_op pre db)) = cf_undo (fold apply_op ops db)"
  proof
    fix k
    show "cf_undo (fold apply_op ops (fold apply_op pre db)) k = cf_undo (fold apply_op ops db) k"
      using dom [OF assms(3), of k]
      by (cases "map_of (rev (undo_writes ops)) k") (auto simp: cf_undo_apply split: option.split)
  qed
  have "cf_utxo_meta (fold apply_op ops db1) = cf_utxo_meta (fold apply_op ops db2)"
    if "cf_utxo_meta db1 = cf_utxo_meta db2" for ops db1 db2
    using that
  proof (induction ops arbitrary: db1 db2)
    case (Cons op ops)
    have "cf_utxo_meta (apply_op op db1) = cf_utxo_meta (apply_op op db2)" using Cons.prems by (cases op) auto
    from Cons.IH [OF this] show ?case by simp
  qed simp
  moreover have "cf_utxo_meta (fold apply_op pre db) = cf_utxo_meta db" using puts_keep [OF assms(1)] by blast
  ultimately have meta: "cf_utxo_meta (fold apply_op ops (fold apply_op pre db)) = cf_utxo_meta (fold apply_op ops db)"
    by blast
  show ?thesis by (rule utxo_db.equality [OF utxo undo meta]) simp
qed

lemma flush_prefix_absorbed:
  assumes "k < length (flush_batches it wb)"
  shows "fold db_write (flush_batches it wb) (fold db_write (take k (flush_batches it wb)) db)
           = fold db_write (flush_batches it wb) db"
proof -
  obtain rest where r: "map fst (insert_ops (it_entries it (wb_entries wb)) @ undo_ops (undo_buffer wb))
      = concat (take k (flush_batches it wb)) @ rest" using flush_prefix [OF assms] by blast
  let ?pre = "concat (take k (flush_batches it wb))"
  have p: "\<forall>op\<in>set ?pre. is_put op"
    using insert_undo_puts [of _ "it_entries it (wb_entries wb)" "undo_buffer wb"] unfolding r by simp
  have all: "concat (flush_batches it wb) = (?pre @ rest) @ delete_ops (it_entries it (wb_entries wb)) @ meta_ops wb"
    using concat_flush_batches [of it wb] unfolding r [symmetric] by simp
  show ?thesis unfolding db_write_concat
    by (rule replay_absorbs [OF p]) (auto simp: all)
qed

section \<open>Undo records\<close>

definition spent_ok :: "spent_utxo \<Rightarrow> bool" where
  "spent_ok s \<longleftrightarrow> length (op_txid (su_outpoint s)) = 32 \<and> length (ue_script (su_entry s)) + 17 < 2 ^ 32"

lemma length_utxo_serialize [simp]: "length (utxo_serialize e) = 17 + length (ue_script e)"
  by (simp add: utxo_serialize_def)

lemma length_outpoint_key [simp]: "length (op_txid a) = 32 \<Longrightarrow> length (outpoint_key a) = 36"
  by (simp add: outpoint_key_def)

lemma unat_u32_length: "n < 2 ^ 32 \<Longrightarrow> unat (of_nat n :: u32) = n"
  by (simp add: unsigned_of_nat take_bit_nat_eq_self)

lemma parse_spent_records:
  assumes "\<forall>s\<in>set sp. spent_ok s"
  shows "parse_spent (length sp) (concat (map spent_record sp) @ rest) = Inr (sp, rest)"
  using assms
proof (induction sp)
  case (Cons s sp)
  let ?e = "su_entry s"
  have ok: "length (op_txid (su_outpoint s)) = 32" "length (ue_script ?e) + 17 < 2 ^ 32"
    using Cons.prems by (simp_all add: spent_ok_def)
  have len: "unat (of_nat (17 + length (ue_script ?e)) :: u32) = 17 + length (ue_script ?e)"
    using ok(2) by (intro unat_u32_length) simp
  have ent: "utxo_deserialize (utxo_serialize ?e) = Inr ?e" using ok(2) by (intro utxo_roundtrip) simp
  show ?case
    using Cons ok len ent
    by (simp add: spent_record_def Let_def key_outpoint_key del: of_nat_add)
qed simp

lemma parse_created_records:
  assumes "\<forall>o'\<in>set cr. length (op_txid o') = 32"
  shows "parse_created (length cr) (concat (map outpoint_key cr) @ rest) = Inr (cr, rest)"
  using assms by (induction cr) (simp_all add: key_outpoint_key)

definition undo_ok :: "spent_utxo list \<Rightarrow> out_point list \<Rightarrow> bytes \<Rightarrow> bool" where
  "undo_ok sp cr prev \<longleftrightarrow> length sp < 2 ^ 32 \<and> length cr < 2 ^ 32 \<and> length prev = 32 \<and>
     (\<forall>s\<in>set sp. spent_ok s) \<and> (\<forall>o'\<in>set cr. length (op_txid o') = 32)"

lemma undo_codec:
  assumes "undo_ok sp cr prev"
  shows "deserialize_undo (undo_serialize sp cr prev)
     = Inr \<lparr>spent_utxos = sp, created_outpoints = cr, undo_prev_hash = Some prev\<rparr>"
  using assms parse_spent_records [of sp] parse_created_records [of cr]
  by (simp add: undo_ok_def undo_serialize_def deserialize_undo_def unat_u32_length)

lemma undo_writes_flush:
  "undo_writes (concat (flush_batches it wb)) = map (\<lambda>(h, d). (h, Some d)) (undo_buffer wb)"
proof -
  have "undo_writes (map fst (insert_ops es)) = []" for es by (induction es rule: insert_ops.induct) auto
  moreover have "undo_writes (delete_ops es) = []" for es by (induction es rule: delete_ops.induct) auto
  moreover have "undo_writes (map fst (undo_ops u)) = map (\<lambda>(h, d). (h, Some d)) u" for u
    by (induction u) (auto simp: undo_ops_def)
  moreover have "undo_writes (meta_ops wb) = []" by (auto simp: meta_ops_def split: option.split)
  ultimately show ?thesis by (simp add: concat_flush_batches)
qed

lemma load_stored_undo:
  assumes "undo_ok sp cr prev" and "map_of (undo_buffer (us_buffer us)) h = None"
  defines "stored \<equiv> store_undo h sp cr prev us"
    and "record \<equiv> \<lparr>spent_utxos = sp, created_outpoints = cr, undo_prev_hash = Some prev\<rparr>"
  shows "load_undo stored h = Inr (Some record) \<and> load_undo (flush_to_disk it stored) h = Inr (Some record)"
proof -
  let ?wb = "us_buffer stored"
  have buf: "undo_buffer ?wb = undo_buffer (us_buffer us) @ [(h, undo_serialize sp cr prev)]"
    by (simp add: stored_def store_undo_def Let_def)
  have 1: "load_undo stored h = Inr (Some record)"
    using assms(2) undo_codec [OF assms(1)] by (simp add: load_undo_def buf map_add_def record_def)
  have db: "us_db (flush_to_disk it stored) = fold db_write (flush_batches it ?wb) (us_db stored)"
    "undo_buffer (us_buffer (flush_to_disk it stored)) = []"
    by (simp_all add: flush_to_disk_def Let_def buf)
  have "cf_undo (us_db (flush_to_disk it stored)) h = Some (undo_serialize sp cr prev)"
    unfolding db(1) db_write_concat cf_undo_apply undo_writes_flush buf by simp
  then have "load_undo (flush_to_disk it stored) h = Inr (Some record)"
    using undo_codec [OF assms(1)] by (simp add: load_undo_def db(2) record_def)
  with 1 show ?thesis by simp
qed

section \<open>Rolling back\<close>

definition undo_inserts :: "undo_data \<Rightarrow> (out_point \<times> utxo_entry) list" where
  "undo_inserts u = map (\<lambda>s. (su_outpoint s, su_entry s)) (spent_utxos u)"

lemma put_coins_map_of:
  "put_coins ins m k =
     (case map_of (rev (map (\<lambda>(op, e). (outpoint_key op, e)) ins)) k of Some e \<Rightarrow> Some e | None \<Rightarrow> m k)"
proof (induction ins arbitrary: m)
  case (Cons i ins)
  obtain op e where i: "i = (op, e)" by (cases i)
  have "put_coins (i # ins) m k = put_coins ins (m(outpoint_key op \<mapsto> e)) k" by (simp add: i)
  then show ?case unfolding Cons.IH by (auto simp: i map_add_def split: option.split)
qed simp

text \<open>The coin that rolling back leaves at a key that the block spent.\<close>

definition spent_at :: "undo_data \<Rightarrow> bytes \<rightharpoonup> utxo_entry" where
  "spent_at u = map_of (rev (map (\<lambda>s. (outpoint_key (su_outpoint s), su_entry s)) (spent_utxos u)))"

lemma spent_at_map:
  "map_of (rev (map (\<lambda>s. (outpoint_key (su_outpoint s), g (su_entry s))) (spent_utxos u))) k
     = map_option g (spent_at u k)"
proof -
  have "map_of (map (\<lambda>s. (outpoint_key (su_outpoint s), g (su_entry s))) xs) k
      = map_option g (map_of (map (\<lambda>s. (outpoint_key (su_outpoint s), su_entry s)) xs) k)" for xs
    by (induction xs) auto
  then show ?thesis unfolding spent_at_def rev_map .
qed

lemma spent_at_ok:
  assumes "\<forall>s\<in>set (spent_utxos u). coin_ok (su_entry s)" and "spent_at u k = Some e"
  shows "coin_ok e"
  using map_of_SomeD [OF assms(2) [unfolded spent_at_def]] assms(1) by auto

lemma map_of_constant_keys:
  "map_of (rev (map (\<lambda>x. (f x, c)) xs)) k = (if k \<in> f ` set xs then Some c else None)"
proof -
  have "map_of (map (\<lambda>x. (f x, c)) ys) k = (if k \<in> f ` set ys then Some c else None)" for ys
    by (induction ys) auto
  then show ?thesis unfolding rev_map by simp
qed

lemma cf_utxo_rollback:
  "cf_utxo (db_write (rollback_ops u) db) k =
     (case spent_at u k of
        Some e \<Rightarrow> Some (utxo_serialize e)
      | None \<Rightarrow> if k \<in> outpoint_key ` set (created_outpoints u) then None else cf_utxo db k)"
proof -
  have "utxo_writes (map (\<lambda>x. DeleteUtxo (outpoint_key x)) xs) = map (\<lambda>x. (outpoint_key x, None)) xs" for xs :: "out_point list"
    by (induction xs) simp_all
  moreover have "utxo_writes (map (\<lambda>s. PutUtxo (outpoint_key (su_outpoint s)) (utxo_serialize (su_entry s))) ys)
      = map (\<lambda>s. (outpoint_key (su_outpoint s), Some (utxo_serialize (su_entry s)))) ys" for ys :: "spent_utxo list"
    by (induction ys) simp_all
  ultimately show ?thesis
    unfolding db_write_def cf_utxo_apply rollback_ops_def
    by (simp add: map_add_def spent_at_map [of "\<lambda>e. Some (utxo_serialize e)"] map_of_constant_keys
        split: option.split)
qed

lemma disk_coin_rollback:
  assumes "\<forall>s\<in>set (spent_utxos u). coin_ok (su_entry s)"
  shows "disk_coin (db_write (rollback_ops u) db) k =
     (case spent_at u k of
        Some e \<Rightarrow> Some e
      | None \<Rightarrow> if k \<in> outpoint_key ` set (created_outpoints u) then None else disk_coin db k)"
proof (cases "spent_at u k")
  case None
  then show ?thesis by (simp add: disk_coin_def cf_utxo_rollback)
next
  case (Some e)
  from entry_codec.dec_enc [OF spent_at_ok [OF assms Some]] Some show ?thesis
    by (simp add: disk_coin_def cf_utxo_rollback)
qed

lemma disk_ok_rollback:
  assumes "\<forall>s\<in>set (spent_utxos u). coin_ok (su_entry s)" and "disk_ok db"
  shows "disk_ok (db_write (rollback_ops u) db)"
  unfolding disk_ok_def
proof (intro allI impI)
  fix k d assume d: "cf_utxo (db_write (rollback_ops u) db) k = Some d"
  show "\<exists>e. utxo_deserialize d = Inr e \<and> coin_ok e"
  proof (cases "spent_at u k")
    case None
    with d have "cf_utxo db k = Some d" by (simp add: cf_utxo_rollback split: if_splits)
    with assms(2) show ?thesis by (auto elim: disk_okE)
  next
    case (Some e)
    then have "d = utxo_serialize e" using d by (simp add: cf_utxo_rollback)
    with entry_codec.dec_enc spent_at_ok [OF assms(1) Some] show ?thesis by blast
  qed
qed

lemma map_of_rollback_cache:
  "map_of (rollback_cache u cache) k =
     (case spent_at u k of
        Some e \<Rightarrow> Some (compact_new e)
      | None \<Rightarrow> if k \<in> outpoint_key ` set (created_outpoints u) then None else map_of cache k)"
proof -
  have f: "fold (\<lambda>s. hm_insert (outpoint_key (su_outpoint s)) (compact_new (su_entry s))) sp m
      = fold (\<lambda>(k, v). hm_insert k v) (map (\<lambda>s. (outpoint_key (su_outpoint s), compact_new (su_entry s))) sp) m"
    for sp :: "spent_utxo list" and m by (simp add: fold_map comp_def)
  show ?thesis
    unfolding rollback_cache_def f
    by (simp add: hash_map.get_put_batch map_of_hm_remove_batch spent_at_map [of compact_new]
        split: option.split)
qed

lemma rollback_coins:
  assumes "wb_entries (us_buffer us) = []" and "\<forall>s\<in>set (spent_utxos u). coin_ok (su_entry s)"
  defines "us1 \<equiv> us\<lparr>us_cache := rollback_cache u (us_cache us), us_db := db_write (rollback_ops u) (us_db us)\<rparr>"
  shows "coins us1 = put_coins (undo_inserts u) (del_coins (created_outpoints u) (coins us))"
proof
  fix k
  have "map (\<lambda>(op, e). (outpoint_key op, e)) (undo_inserts u)
      = map (\<lambda>s. (outpoint_key (su_outpoint s), su_entry s)) (spent_utxos u)"
    by (simp add: undo_inserts_def)
  then have "put_coins (undo_inserts u) (del_coins (created_outpoints u) (coins us)) k
      = (case spent_at u k of Some e \<Rightarrow> Some e
         | None \<Rightarrow> if k \<in> outpoint_key ` set (created_outpoints u) then None else coins us k)"
    by (simp add: put_coins_map_of spent_at_def del_coins_lookup split: option.split)
  moreover have "coins us k = disk_coin (us_db us) k" using assms(1) by (simp add: coins_def)
  moreover have "coins us1 k = disk_coin (db_write (rollback_ops u) (us_db us)) k"
    using assms(1) by (simp add: coins_def us1_def)
  ultimately show "coins us1 k = put_coins (undo_inserts u) (del_coins (created_outpoints u) (coins us)) k"
    by (simp only: disk_coin_rollback [OF assms(2)])
qed

lemma rollback_coherent:
  assumes "coherent us" and "wb_entries (us_buffer us) = []"
    and "\<forall>s\<in>set (spent_utxos u). coin_ok (su_entry s)"
  shows "coherent (us\<lparr>us_cache := rollback_cache u (us_cache us), us_db := db_write (rollback_ops u) (us_db us)\<rparr>)"
    (is "coherent ?us1")
proof (rule coherentI)
  show "buffer_ok (us_buffer ?us1)" using assms(1) by (simp add: coherent_def)
  show "disk_ok (us_db ?us1)" using assms(1) disk_ok_rollback [OF assms(3)] by (simp add: coherent_def)
  fix k c assume c: "map_of (us_cache ?us1) k = Some c"
  have co: "coins ?us1 k = disk_coin (db_write (rollback_ops u) (us_db us)) k"
    "coins us k = disk_coin (us_db us) k"
    using assms(2) by (simp_all add: coins_def)
  show "coins ?us1 k = Some (to_entry c)"
  proof (cases "spent_at u k")
    case None
    with c have "k \<notin> outpoint_key ` set (created_outpoints u)" "map_of (us_cache us) k = Some c"
      by (simp_all add: map_of_rollback_cache split: if_splits)
    with None co assms(1) show ?thesis
      by (simp add: disk_coin_rollback [OF assms(3)] coherent_def)
  next
    case (Some e)
    then have "c = compact_new e" using c by (simp add: map_of_rollback_cache)
    with Some co compact_roundtrip [OF spent_at_ok [OF assms(3) Some]] show ?thesis
      by (simp add: disk_coin_rollback [OF assms(3)])
  qed
qed

lemma rollback_block_effect:
  assumes "coherent us" and "wb_entries (us_buffer us) = []" and "load_undo us h = Inr (Some u)"
    and "undo_prev_hash u = Some prev" and "\<forall>s\<in>set (spent_utxos u). coin_ok (su_entry s)"
  shows "\<exists>us'. rollback_block us h = Inr (prev, us') \<and> coherent us' \<and>
     coins us' = put_coins (undo_inserts u) (del_coins (created_outpoints u) (coins us))"
proof -
  let ?us1 = "us\<lparr>us_cache := rollback_cache u (us_cache us), us_db := db_write (rollback_ops u) (us_db us)\<rparr>"
  define us1 where "us1 = (if created_outpoints u = [] \<and> spent_utxos u = [] then us else ?us1)"
  have run: "rollback_block us h = Inr (prev, delete_undo h us1)"
    using assms(3,4) by (simp add: rollback_block_def us1_def Let_def)
  have one: "coherent us1 \<and> coins us1 = put_coins (undo_inserts u) (del_coins (created_outpoints u) (coins us))"
  proof (cases "created_outpoints u = [] \<and> spent_utxos u = []")
    case True
    with assms(1) show ?thesis by (simp add: us1_def undo_inserts_def)
  next
    case False
    then have "us1 = ?us1" by (simp only: us1_def if_False)
    with rollback_coherent [OF assms(1,2,5)] rollback_coins [OF assms(2,5)] show ?thesis by simp
  qed
  have "coherent (delete_undo h us1) \<and> coins (delete_undo h us1) = coins us1"
    by (rule coherent_cong) (use one in \<open>simp_all add: delete_undo_def db_write_def\<close>)
  with run one show ?thesis by simp
qed

section \<open>A small set\<close>

definition demo_order :: iteration where
  "demo_order = \<lparr>it_entries = rev, it_cache = rev\<rparr>"

definition demo_op :: "u32 \<Rightarrow> out_point" where
  "demo_op n = \<lparr>op_txid = replicate 32 7, op_vout = n\<rparr>"

definition demo_coin :: utxo_entry where
  "demo_coin = \<lparr>amount = 5000, ue_script = [0x51], ue_height = 7, ue_coinbase = False\<rparr>"

definition demo_set :: utxo_set where
  "demo_set = from_db \<lparr>cf_utxo = Map.empty, cf_undo = Map.empty, cf_utxo_meta = Map.empty\<rparr>"

definition demo_batch :: utxo_batch where
  "demo_batch = \<lparr>inserts = [(demo_op 0, demo_coin), (demo_op 1, demo_coin)], removals = [demo_op 0],
     batch_spent = [\<lparr>su_outpoint = demo_op 0, su_entry = demo_coin\<rparr>]\<rparr>"

lemma demo_order_ok: "iteration_ok demo_order"
  by (simp add: iteration_ok_def demo_order_def)

lemma demo_coin_ok: "coin_ok demo_coin"
  by (simp add: coin_ok_def demo_coin_def)

lemma demo_op_key [simp]: "outpoint_key (demo_op a) = outpoint_key (demo_op b) \<longleftrightarrow> a = b"
  by (simp add: outpoint_key_def demo_op_def)

lemma demo_coherent: "coherent demo_set"
  by (simp add: demo_set_def from_db_def coherent_def buffer_ok_def counts_ok_def write_buffer_new_def disk_ok_def)

lemma demo_coins: "coins demo_set = Map.empty"
  by (rule ext) (simp add: coins_def demo_set_def from_db_def write_buffer_new_def disk_coin_def)

lemma demo_fresh: "fresh_inserts (inserts demo_batch) Map.empty"
  by (simp add: demo_batch_def demo_coin_ok)

section \<open>Properties\<close>



text \<open>
  C15: a crash in the middle of a flush is harmless: after any number of chunks short of the last, the
  flush height and hash on disk are the old ones and no coin or undo record that was on disk is
  missing; and when the same buffer is written again over what the crash left, the disk ends as it
  would have without the crash.
\<close>
theorem flush_crash_safe:
  fixes db :: utxo_db
  assumes "k < length (flush_batches it wb)"
  defines "crashed \<equiv> fold db_write (take k (flush_batches it wb)) db"
  shows "cf_utxo_meta crashed = cf_utxo_meta db
       \<and> dom (cf_utxo db) \<subseteq> dom (cf_utxo crashed) \<and> dom (cf_undo db) \<subseteq> dom (cf_undo crashed)
       \<and> fold db_write (flush_batches it wb) crashed = fold db_write (flush_batches it wb) db"
proof -
  obtain rest where r: "map fst (insert_ops (it_entries it (wb_entries wb)) @ undo_ops (undo_buffer wb))
      = concat (take k (flush_batches it wb)) @ rest" using flush_prefix [OF assms(1)] by blast
  have "\<forall>op\<in>set (concat (take k (flush_batches it wb))). is_put op"
    using insert_undo_puts [of _ "it_entries it (wb_entries wb)" "undo_buffer wb"] unfolding r by simp
  note keep = puts_keep [OF this, of db]
  have "cf_utxo_meta crashed = cf_utxo_meta db" using keep unfolding crashed_def db_write_concat by blast
  moreover have "dom (cf_utxo db) \<subseteq> dom (cf_utxo crashed)" "dom (cf_undo db) \<subseteq> dom (cf_undo crashed)"
    using keep unfolding crashed_def db_write_concat dom_def by blast+
  ultimately show ?thesis using flush_prefix_absorbed [OF assms(1)] by (simp add: crashed_def)
qed

theorem flush_crash_safe_witness:
  "let wb = us_buffer (set_pending_flush_height 9 (replicate 32 1) demo_set);
       db = us_db (utxo_insert demo_set (demo_op 5) demo_coin);
       crashed = fold db_write (take 0 (flush_batches demo_order wb)) db
   in cf_utxo_meta crashed = cf_utxo_meta db
      \<and> dom (cf_utxo db) \<subseteq> dom (cf_utxo crashed) \<and> dom (cf_undo db) \<subseteq> dom (cf_undo crashed)
      \<and> fold db_write (flush_batches demo_order wb) crashed = fold db_write (flush_batches demo_order wb) db"
  unfolding Let_def
  by (rule flush_crash_safe) (simp add: flush_batches_def Let_def split: prod.split)

text \<open>
  C16: the undo record of a block is read back as it was stored, while it is buffered and after it has
  been flushed to disk: every spent coin with its outpoint, the created outpoints and the previous
  block hash.
\<close>
theorem undo_read_back:
  assumes "undo_ok sp cr prev" and "map_of (undo_buffer (us_buffer us)) h = None"
  defines "stored \<equiv> store_undo h sp cr prev us"
    and "record \<equiv> \<lparr>spent_utxos = sp, created_outpoints = cr, undo_prev_hash = Some prev\<rparr>"
  shows "load_undo stored h = Inr (Some record) \<and> load_undo (flush_to_disk it stored) h = Inr (Some record)"
  unfolding stored_def record_def using assms(1,2) by (rule load_stored_undo)

theorem undo_read_back_witness:
  "load_undo (flush_to_disk demo_order
      (store_undo (replicate 32 3) (batch_spent demo_batch) [demo_op 0, demo_op 1] (replicate 32 2) demo_set))
      (replicate 32 3)
   = Inr (Some \<lparr>spent_utxos = batch_spent demo_batch, created_outpoints = [demo_op 0, demo_op 1],
                undo_prev_hash = Some (replicate 32 2)\<rparr>)"
  by (rule undo_read_back [THEN conjunct2])
    (simp_all add: undo_ok_def spent_ok_def demo_batch_def demo_op_def demo_coin_def demo_set_def from_db_def
      write_buffer_new_def)

text \<open>
  C17: rolling a block back from its undo record alone removes the coins that the block created and then
  puts back every coin that it spent. So a coin that the block both created and spent is there again
  after the rollback, although the chain before the block does not have it and the batch that
  \<^verbatim>\<open>disconnect_block\<close> applies for the same record leaves no such coin.
\<close>
theorem rollback_resurrects:
  assumes "iteration_ok it" and "coherent us" and "wb_entries (us_buffer us) = []"
    and "load_undo us h = Inr (Some u)" and "undo_prev_hash u = Some prev"
    and "\<forall>s\<in>set (spent_utxos u). coin_ok (su_entry s)" and "fresh_inserts (undo_inserts u) (coins us)"
    and "s \<in> set (spent_utxos u)" and "su_outpoint s \<in> set (created_outpoints u)"
  defines "key \<equiv> outpoint_key (su_outpoint s)"
  shows "\<exists>us'. rollback_block us h = Inr (prev, us') \<and> coins us' key \<noteq> None \<and>
     coins (snd (apply_batch it us
       \<lparr>inserts = undo_inserts u, removals = created_outpoints u, batch_spent = []\<rparr>)) key = None"
proof -
  have "key \<in> fst ` set (rev (map (\<lambda>(op, e). (outpoint_key op, e)) (undo_inserts u)))"
    using assms(8) by (force simp: key_def undo_inserts_def)
  then have "put_coins (undo_inserts u) m key \<noteq> None" for m
    unfolding put_coins_map_of by (auto simp: map_of_eq_None_iff split: option.split)
  with rollback_block_effect [OF assms(2-6)] obtain us' where
    "rollback_block us h = Inr (prev, us')" "coins us' key \<noteq> None" by fastforce
  moreover have "coins (snd (apply_batch it us
       \<lparr>inserts = undo_inserts u, removals = created_outpoints u, batch_spent = []\<rparr>)) key = None"
    using apply_batch_correct [OF assms(1,2), of "\<lparr>inserts = undo_inserts u, removals = created_outpoints u, batch_spent = []\<rparr>"]
      assms(7,9) by (simp add: abs_batch_def del_coins_lookup key_def)
  ultimately show ?thesis by blast
qed

theorem rollback_resurrects_witness:
  "let u = \<lparr>spent_utxos = batch_spent demo_batch, created_outpoints = [demo_op 0, demo_op 1],
            undo_prev_hash = Some (replicate 32 2)\<rparr>;
       us = flush_to_disk demo_order (store_undo (replicate 32 3) (spent_utxos u) (created_outpoints u)
              (replicate 32 2) demo_set)
   in \<exists>us'. rollback_block us (replicate 32 3) = Inr (replicate 32 2, us') \<and>
        coins us' (outpoint_key (demo_op 0)) \<noteq> None \<and>
        coins (snd (apply_batch demo_order us
          \<lparr>inserts = undo_inserts u, removals = created_outpoints u, batch_spent = []\<rparr>))
          (outpoint_key (demo_op 0)) = None"
proof -
  let ?s = "\<lparr>su_outpoint = demo_op 0, su_entry = demo_coin\<rparr>"
  let ?u = "\<lparr>spent_utxos = [?s], created_outpoints = [demo_op 0, demo_op 1], undo_prev_hash = Some (replicate 32 2)\<rparr>"
  let ?st = "store_undo (replicate 32 3) [?s] [demo_op 0, demo_op 1] (replicate 32 2) demo_set"
  let ?us = "flush_to_disk demo_order ?st"
  have st: "coherent ?st \<and> coins ?st = coins demo_set"
    by (rule coherent_cong [OF demo_coherent]) (simp_all add: store_undo_def Let_def)
  then have us: "coherent ?us" "coins ?us = Map.empty"
    using flush_correct [OF demo_order_ok] by (simp_all add: demo_coins)
  have "undo_buffer (us_buffer ?st) \<noteq> []" by (simp add: store_undo_def Let_def)
  then have empty: "wb_entries (us_buffer ?us) = []" by (simp add: flush_to_disk_def Let_def)
  have load: "load_undo ?us (replicate 32 3) = Inr (Some ?u)"
    by (rule load_stored_undo [THEN conjunct2])
      (simp_all add: undo_ok_def spent_ok_def demo_op_def demo_coin_def demo_set_def from_db_def write_buffer_new_def)
  have "\<exists>us'. rollback_block ?us (replicate 32 3) = Inr (replicate 32 2, us') \<and>
        coins us' (outpoint_key (su_outpoint ?s)) \<noteq> None \<and>
        coins (snd (apply_batch demo_order ?us
          \<lparr>inserts = undo_inserts ?u, removals = created_outpoints ?u, batch_spent = []\<rparr>))
          (outpoint_key (su_outpoint ?s)) = None"
    by (rule rollback_resurrects [OF demo_order_ok us(1) empty load])
      (simp_all add: us(2) demo_coin_ok undo_inserts_def)
  then show ?thesis by (simp add: demo_batch_def)
qed

end
