(* ===== verification/Script_Base.thy ===== *)
theory Script_Base
  imports Bitcoin_Types
begin

unbundle bit_operations_syntax

text \<open>
  The data and the byte-level routines of \<^verbatim>\<open>bitcoinpr-core/src/script.rs\<close>: verification flags, the
  cache of verified inputs, script numbers and truth values, script serialisation helpers,
  signature-operation counting. Parsing a script into instructions, hashing, signature checking and
  signature hashes are functions of the \<^verbatim>\<open>bitcoin\<close> and \<^verbatim>\<open>secp256k1\<close> crates: a record of them is an
  argument of the definitions that call them.
\<close>

section \<open>The functions of the crates\<close>

datatype instruction = PushBytes bytes | Op u8

text \<open>
  A parsed script is the list of items its iterator yields; an \<open>Inl\<close> item is the parse error after
  which the iterator ends. Keys, signatures and digests are opaque byte strings. The taproot
  functions take the optional annex and, for a script-path spend, the leaf hash and the position of
  the last executed code separator.
\<close>

type_synonym parsed = "(string + instruction) list"

record script_crate =
  instructions :: "bytes \<Rightarrow> parsed"
  ripemd160 :: "bytes \<Rightarrow> bytes"
  sha1 :: "bytes \<Rightarrow> bytes"
  sha256 :: "bytes \<Rightarrow> bytes"
  hash160 :: "bytes \<Rightarrow> bytes"
  hash256 :: "bytes \<Rightarrow> bytes"
  script_is_p2sh :: "bytes \<Rightarrow> bool"
  script_is_p2wpkh :: "bytes \<Rightarrow> bool"
  script_is_p2wsh :: "bytes \<Rightarrow> bool"
  new_p2wpkh :: "bytes \<Rightarrow> bytes"
  public_key :: "bytes \<Rightarrow> bytes option"
  sig_from_der :: "bytes \<Rightarrow> bytes option"
  sig_from_der_lax :: "bytes \<Rightarrow> bytes option"
  normalize_s :: "bytes \<Rightarrow> bytes"
  sighash_type_of :: "u32 \<Rightarrow> u32"
  p2wpkh_signature_hash :: "transaction \<Rightarrow> nat \<Rightarrow> bytes \<Rightarrow> u64 \<Rightarrow> u32 \<Rightarrow> bytes option"
  p2wsh_signature_hash :: "transaction \<Rightarrow> nat \<Rightarrow> bytes \<Rightarrow> u64 \<Rightarrow> u32 \<Rightarrow> bytes option"
  legacy_signature_hash :: "transaction \<Rightarrow> nat \<Rightarrow> bytes \<Rightarrow> u32 \<Rightarrow> bytes option"
  verify_ecdsa :: "bytes \<Rightarrow> bytes \<Rightarrow> bytes \<Rightarrow> bool"
  x_only_public_key :: "bytes \<Rightarrow> bytes option"
  schnorr_signature :: "bytes \<Rightarrow> bytes option"
  tap_sighash_type :: "u8 \<Rightarrow> u8 option"
  tap_sighash_default :: u8
  taproot_sighash ::
    "transaction \<Rightarrow> nat \<Rightarrow> tx_out list \<Rightarrow> bytes option \<Rightarrow> (bytes \<times> u32) option \<Rightarrow> u8 \<Rightarrow> bytes option"
  verify_schnorr :: "bytes \<Rightarrow> bytes \<Rightarrow> bytes \<Rightarrow> bool"
  annex_new :: "bytes \<Rightarrow> bytes option"
  control_block_ok :: "bytes \<Rightarrow> bool"
  is_tapscript_leaf :: "bytes \<Rightarrow> bool"
  verify_taproot_commitment :: "bytes \<Rightarrow> bytes \<Rightarrow> bytes \<Rightarrow> bool"
  tap_leaf_hash :: "bytes \<Rightarrow> bytes"

section \<open>Failure and panic\<close>

text \<open>A script check ends with an error value, or with a panic on an index out of range.\<close>

datatype stop = Fail core_error | Panic

type_synonym 'a run = "stop + 'a"

abbreviation invalid :: "string \<Rightarrow> 'a run" where
  "invalid msg \<equiv> Inl (Fail (InvalidScript msg))"

text \<open>The Rust slice \<^verbatim>\<open>&bs[n..]\<close> and the index \<^verbatim>\<open>xs[i]\<close>.\<close>

definition slice_from :: "nat \<Rightarrow> 'a list \<Rightarrow> 'a list run" where
  "slice_from n bs = (if n \<le> length bs then Inr (drop n bs) else Inl Panic)"

definition index_at :: "'a list \<Rightarrow> nat \<Rightarrow> 'a run" where
  "index_at xs i = (if i < length xs then Inr (xs ! i) else Inl Panic)"

section \<open>Flags\<close>

record script_flags =
  verify_p2sh :: bool
  verify_witness :: bool
  verify_strictenc :: bool
  verify_checklocktimeverify :: bool
  verify_checksequenceverify :: bool
  verify_taproot :: bool
  verify_nulldummy :: bool
  verify_bip110 :: bool

definition flags_all :: script_flags where
  "flags_all =
     \<lparr>verify_p2sh = True, verify_witness = True, verify_strictenc = True,
      verify_checklocktimeverify = True, verify_checksequenceverify = True,
      verify_taproot = True, verify_nulldummy = True, verify_bip110 = False\<rparr>"

definition flags_none :: script_flags where
  "flags_none =
     \<lparr>verify_p2sh = False, verify_witness = False, verify_strictenc = False,
      verify_checklocktimeverify = False, verify_checksequenceverify = False,
      verify_taproot = False, verify_nulldummy = False, verify_bip110 = False\<rparr>"

definition bool_u32 :: "bool \<Rightarrow> u32" where
  "bool_u32 b = (if b then 1 else 0)"

definition flag_bits :: "script_flags \<Rightarrow> u32" where
  "flag_bits f =
     bool_u32 (verify_p2sh f)
       OR push_bit 1 (bool_u32 (verify_witness f))
       OR push_bit 2 (bool_u32 (verify_strictenc f))
       OR push_bit 3 (bool_u32 (verify_checklocktimeverify f))
       OR push_bit 4 (bool_u32 (verify_checksequenceverify f))
       OR push_bit 5 (bool_u32 (verify_taproot f))
       OR push_bit 6 (bool_u32 (verify_bip110 f))
       OR push_bit 7 (bool_u32 (verify_nulldummy f))"

definition flags_for_height ::
    "u32 \<Rightarrow> u32 \<Rightarrow> u32 \<Rightarrow> u32 \<Rightarrow> u32 \<Rightarrow> u32 \<Rightarrow> u32 \<Rightarrow> u32 \<Rightarrow> script_flags" where
  "flags_for_height height block_time bip16_time segwit_height bip65_height csv_height bip66_height
     taproot_height =
     \<lparr>verify_p2sh = bip16_time \<le> block_time,
      verify_witness = segwit_height \<le> height,
      verify_strictenc = bip66_height \<le> height,
      verify_checklocktimeverify = bip65_height \<le> height,
      verify_checksequenceverify = csv_height \<le> height,
      verify_taproot = taproot_height \<le> height,
      verify_nulldummy = segwit_height \<le> height,
      verify_bip110 = False\<rparr>"

section \<open>The cache of verified inputs\<close>

text \<open>
  A shard is a hash set: the list of its members. The order in which an insertion that evicts walks
  a shard is not specified, so it is an argument.
\<close>

record sig_cache =
  shards :: "bytes list list"
  max_per_shard :: nat

definition sig_cache_shards :: nat where "sig_cache_shards = 64"

definition sig_cache_new :: "nat \<Rightarrow> sig_cache" where
  "sig_cache_new max_size =
     \<lparr>shards = replicate sig_cache_shards [], max_per_shard = max (max_size div sig_cache_shards) 1\<rparr>"

definition sig_cache_key :: "bytes \<Rightarrow> nat \<Rightarrow> script_flags \<Rightarrow> bytes" where
  "sig_cache_key wtxid input_index flags =
     wtxid @ u32_to_le (of_nat input_index) @ u32_to_le (flag_bits flags)"

definition sig_cache_shard :: "bytes \<Rightarrow> nat" where
  "sig_cache_shard key = unat (key ! 0) mod sig_cache_shards"

definition sig_cache_contains :: "sig_cache \<Rightarrow> bytes \<Rightarrow> nat \<Rightarrow> script_flags \<Rightarrow> bool" where
  "sig_cache_contains c wtxid input_index flags =
     (let k = sig_cache_key wtxid input_index flags in k \<in> set (shards c ! sig_cache_shard k))"

definition sig_cache_insert ::
    "(bytes list \<Rightarrow> bytes list) \<Rightarrow> bytes \<Rightarrow> nat \<Rightarrow> script_flags \<Rightarrow> sig_cache \<Rightarrow> sig_cache" where
  "sig_cache_insert iter wtxid input_index flags c =
     (let k = sig_cache_key wtxid input_index flags;
          s = shards c ! sig_cache_shard k;
          s' = (if max_per_shard c \<le> length s
                then (let idx = unat (u32_from_le [k ! 1, k ! 2, k ! 3, k ! 4]) mod length s
                      in if idx < length (iter s) then removeAll (iter s ! idx) s else s)
                else s)
      in c\<lparr>shards := (shards c)[sig_cache_shard k := List.insert k s']\<rparr>)"

definition sig_cache_len :: "sig_cache \<Rightarrow> nat" where
  "sig_cache_len c = sum_list (map length (shards c))"

definition sig_cache_clear :: "sig_cache \<Rightarrow> sig_cache" where
  "sig_cache_clear c = c\<lparr>shards := map (\<lambda>_. []) (shards c)\<rparr>"

section \<open>Limits\<close>

definition max_stack_size :: nat where "max_stack_size = 1000"
definition max_script_element_size :: nat where "max_script_element_size = 520"
definition max_script_size :: nat where "max_script_size = 10000"
definition bip110_max_scriptpubkey_size :: nat where "bip110_max_scriptpubkey_size = 34"
definition bip110_max_op_return_size :: nat where "bip110_max_op_return_size = 83"
definition bip110_max_push_size :: nat where "bip110_max_push_size = 256"
definition bip110_max_control_block_size :: nat where "bip110_max_control_block_size = 257"
definition p2a_witness_program :: bytes where "p2a_witness_program = [0x4e, 0x73]"

definition is_disabled_opcode :: "u8 \<Rightarrow> bool" where
  "is_disabled_opcode op \<longleftrightarrow>
     op \<in> set [0x7e, 0x7f, 0x80, 0x81, 0x83, 0x84, 0x85, 0x86, 0x8d, 0x8e,
               0x95, 0x96, 0x97, 0x98, 0x99]"

definition is_tapscript_success_opcode :: "u8 \<Rightarrow> bool" where
  "is_tapscript_success_opcode op \<longleftrightarrow>
     op = 0x50 \<or> op = 0x62 \<or> 0x7e \<le> op \<and> op \<le> 0x81 \<or> 0x83 \<le> op \<and> op \<le> 0x86
       \<or> op = 0x89 \<or> op = 0x8a \<or> op = 0x8d \<or> op = 0x8e \<or> 0x95 \<le> op \<and> op \<le> 0x99
       \<or> 0xbb \<le> op \<and> op \<le> 0xfe"

section \<open>Stack elements\<close>

text \<open>The stack is the Rust vector: its top is the last element of the list.\<close>

type_synonym stack = "bytes list"

definition stack_pop :: "stack \<Rightarrow> (bytes \<times> stack) run" where
  "stack_pop s = (if s = [] then invalid ''stack underflow'' else Inr (last s, butlast s))"

fun cast_to_bool :: "bytes \<Rightarrow> bool" where
  "cast_to_bool [] = False"
| "cast_to_bool (b # bs) =
     (if b \<noteq> 0 then \<not> (bs = [] \<and> b = 0x80) else cast_to_bool bs)"

fun decode_loop :: "nat \<Rightarrow> i64 \<Rightarrow> bytes \<Rightarrow> i64" where
  "decode_loop i result [] = result"
| "decode_loop i result (b # bs) = decode_loop (Suc i) (result OR push_bit (8 * i) (ucast b)) bs"

definition decode_num_bounded :: "bytes \<Rightarrow> nat \<Rightarrow> i64 run" where
  "decode_num_bounded data max_size =
     (if data = [] then Inr 0
      else if max_size < length data then invalid ''number too large''
      else let negative = (last data AND 0x80 \<noteq> 0);
               result = decode_loop 0 0 data
           in if negative
              then Inr (- (result AND NOT (push_bit (8 * (length data - 1)) 0x80)))
              else Inr result)"

definition decode_num :: "bytes \<Rightarrow> i64 run" where
  "decode_num data = decode_num_bounded data 4"

function encode_loop :: "u64 \<Rightarrow> bytes" where
  "encode_loop abs_value =
     (if abs_value = 0 then [] else ucast (abs_value AND 0xff) # encode_loop (drop_bit 8 abs_value))"
  by pat_completeness auto
termination
proof (relation "measure unat")
  fix v :: u64
  assume "v \<noteq> 0"
  then have "0 < unat v" by (simp add: unat_gt_0)
  then have "unat v div 2 ^ 8 < unat v" by simp
  then show "(drop_bit 8 v, v) \<in> measure unat"
    by (simp add: drop_bit_eq_div unat_div)
qed simp

declare encode_loop.simps [simp del]

definition encode_num :: "i64 \<Rightarrow> bytes" where
  "encode_num v =
     (if v = 0 then []
      else let negative = (sint v < 0);
               result = encode_loop (if negative then - v else v)
           in if result \<noteq> [] \<and> last result AND 0x80 \<noteq> 0
              then result @ [if negative then 0x80 else 0x00]
              else if negative then butlast result @ [last result OR 0x80] else result)"

definition script_bool :: "bool \<Rightarrow> bytes" where
  "script_bool b = (if b then [1] else [])"

section \<open>Serialised scripts\<close>

definition serialize_script_push :: "bytes \<Rightarrow> bytes" where
  "serialize_script_push data =
     (let len = length data
      in (if len < 76 then [of_nat len]
          else if len < 256 then [0x4c, of_nat len]
          else if len < 65536 then [0x4d, of_nat (len mod 256), of_nat (len div 256 mod 256)]
          else [0x4e, of_nat (len mod 256), of_nat (len div 256 mod 256),
                of_nat (len div 65536 mod 256), of_nat (len div 16777216 mod 256)]) @ data)"

text \<open>The loop of \<^verbatim>\<open>find_and_delete\<close> from the current index on.\<close>

function delete_loop :: "bytes \<Rightarrow> bytes \<Rightarrow> bytes" where
  "delete_loop pat [] = []"
| "delete_loop pat (b # bs) =
     (if pat \<noteq> [] \<and> length pat \<le> length (b # bs) \<and> take (length pat) (b # bs) = pat
      then delete_loop pat (drop (length pat) (b # bs))
      else b # delete_loop pat bs)"
  by pat_completeness auto
termination by (relation "measure (\<lambda>(p, bs). length bs)") auto

definition find_and_delete :: "bytes \<Rightarrow> bytes \<Rightarrow> bytes" where
  "find_and_delete script pat =
     (if pat = [] \<or> length script < length pat then script else delete_loop pat script)"

text \<open>
  The length of the push that starts a subscript: \<open>None\<close> for an opcode that pushes nothing,
  \<open>Some None\<close> for a length prefix that is cut off.
\<close>

definition push_extent :: "bytes \<Rightarrow> nat option option" where
  "push_extent bs =
     (let op = hd bs in
      if 0x01 \<le> op \<and> op \<le> 0x4b then Some (Some (1 + unat op))
      else if op = 0x4c
        then Some (if length bs \<le> 1 then None else Some (2 + unat (bs ! 1)))
      else if op = 0x4d
        then Some (if length bs \<le> 2 then None else Some (3 + le_val [bs ! 1, bs ! 2]))
      else if op = 0x4e
        then Some (if length bs \<le> 4 then None
                   else Some (5 + le_val [bs ! 1, bs ! 2, bs ! 3, bs ! 4]))
      else None)"

lemma push_extent_pos: "push_extent bs = Some (Some n) \<Longrightarrow> 0 < n"
  by (auto simp: push_extent_def Let_def split: if_splits)

function remove_codeseparators :: "bytes \<Rightarrow> bytes" where
  "remove_codeseparators [] = []"
| "remove_codeseparators (b # bs) =
     (case push_extent (b # bs) of
        None \<Rightarrow> (if b = 0xab then [] else [b]) @ remove_codeseparators bs
      | Some None \<Rightarrow> b # bs
      | Some (Some n) \<Rightarrow>
          if length (b # bs) < n then b # bs
          else take n (b # bs) @ remove_codeseparators (drop n (b # bs)))"
  by pat_completeness auto
termination
  by (relation "measure length") (auto dest: push_extent_pos)

definition parse_witness_program :: "bytes \<Rightarrow> (u8 \<times> bytes) option" where
  "parse_witness_program bs =
     (if length bs < 4 \<or> 42 < length bs then None
      else case (if bs ! 0 = 0 then Some 0
                 else if 0x51 \<le> bs ! 0 \<and> bs ! 0 \<le> 0x60 then Some (bs ! 0 - 0x50) else None) of
             None \<Rightarrow> None
           | Some version \<Rightarrow>
               (let prog_len = unat (bs ! 1)
                in if length bs \<noteq> 2 + prog_len then None
                   else if \<not> (2 \<le> prog_len \<and> prog_len \<le> 40) then None
                   else Some (version, drop 2 bs)))"

definition is_p2sh :: "bytes \<Rightarrow> bool" where
  "is_p2sh bs \<longleftrightarrow> length bs = 23 \<and> bs ! 0 = 0xa9 \<and> bs ! 1 = 0x14 \<and> bs ! 22 = 0x87"

section \<open>Signature operations\<close>

fun count_sigops_loop :: "bool \<Rightarrow> u32 \<Rightarrow> u8 \<Rightarrow> parsed \<Rightarrow> u32" where
  "count_sigops_loop accurate count last_op [] = count"
| "count_sigops_loop accurate count last_op (Inl e # is) = count"
| "count_sigops_loop accurate count last_op (Inr (PushBytes d) # is) =
     count_sigops_loop accurate count 0 is"
| "count_sigops_loop accurate count last_op (Inr (Op op) # is) =
     count_sigops_loop accurate
       (if op = 0xac \<or> op = 0xad then count + 1
        else if op = 0xae \<or> op = 0xaf
          then if accurate \<and> 0x51 \<le> last_op \<and> last_op \<le> 0x60
               then count + ucast (last_op - 0x50) else count + 20
        else count) op is"

definition count_sigops :: "script_crate \<Rightarrow> bytes \<Rightarrow> bool \<Rightarrow> u32" where
  "count_sigops S script accurate = count_sigops_loop accurate 0 0 (instructions S script)"

fun redeem_loop :: "bytes option \<Rightarrow> parsed \<Rightarrow> bytes option" where
  "redeem_loop found [] = found"
| "redeem_loop found (Inl e # is) = None"
| "redeem_loop found (Inr (PushBytes b) # is) = redeem_loop (Some b) is"
| "redeem_loop found (Inr (Op op) # is) = (if 0x60 < op then None else redeem_loop found is)"

definition p2sh_redeem_script :: "script_crate \<Rightarrow> bytes \<Rightarrow> bytes option" where
  "p2sh_redeem_script S sig = redeem_loop None (instructions S sig)"

definition witness_sigop_cost ::
    "script_crate \<Rightarrow> bytes \<Rightarrow> bytes \<Rightarrow> bytes list \<Rightarrow> u64" where
  "witness_sigop_cost S spk sig witness =
     (case (if script_is_p2sh S spk then p2sh_redeem_script S sig else Some spk) of
        None \<Rightarrow> 0
      | Some program \<Rightarrow>
          if script_is_p2wpkh S program then 1
          else if script_is_p2wsh S program
            then if witness = [] then 0 else ucast (count_sigops S (last witness) True)
          else 0)"

section \<open>Output and push limits of BIP 110\<close>

fun check_bip110_outputs :: "tx_out list \<Rightarrow> unit core_result" where
  "check_bip110_outputs [] = Inr ()"
| "check_bip110_outputs (out # outs) =
     (let spk = script_pubkey out;
          op_return = (spk \<noteq> [] \<and> hd spk = 0x6a);
          limit = (if op_return then bip110_max_op_return_size else bip110_max_scriptpubkey_size)
      in if limit < length spk then Inl (InvalidScript ''BIP-110: output scriptPubKey exceeds limit'')
         else check_bip110_outputs outs)"

definition check_bip110_output_scripts :: "transaction \<Rightarrow> unit core_result" where
  "check_bip110_output_scripts tx = check_bip110_outputs (tx_output tx)"

fun push_lens :: "parsed \<Rightarrow> nat list run" where
  "push_lens [] = Inr []"
| "push_lens (Inl e # is) = invalid ''script parse error''"
| "push_lens (Inr (PushBytes d) # is) = bindE (push_lens is) (\<lambda>ls. Inr (length d # ls))"
| "push_lens (Inr (Op op) # is) = push_lens is"

definition bip110_check_pushes :: "script_crate \<Rightarrow> bytes \<Rightarrow> bool \<Rightarrow> unit run" where
  "bip110_check_pushes S script exempt_last_push =
     bindE (push_lens (instructions S script)) (\<lambda>lens.
       foldE (\<lambda>_ (i, len).
                if exempt_last_push \<and> Suc i = length lens then Inr ()
                else if bip110_max_push_size < len then invalid ''BIP-110: push exceeds limit''
                else Inr ())
         () (enumerate 0 lens))"

definition bip110_check_witness_items :: "bytes list \<Rightarrow> unit run" where
  "bip110_check_witness_items items =
     foldE (\<lambda>_ item. if bip110_max_push_size < length item
                      then invalid ''BIP-110: witness item exceeds limit'' else Inr ()) () items"

end
