(* ===== verification/Script_Policy.thy ===== *)
theory Script_Policy
  imports Script_Base
begin

unbundle bit_operations_syntax

text \<open>
  The relay-policy detectors of \<^verbatim>\<open>bitcoinpr-core/src/script.rs\<close>: data envelopes in witnesses and token
  protocol markers. They look at parsed scripts only; block validation never calls them.
\<close>

section \<open>Carriers\<close>

definition witness_len_no_annex :: "bytes list \<Rightarrow> nat" where
  "witness_len_no_annex w =
     (let n = length w in
      if 2 \<le> n \<and> w ! (n - 1) \<noteq> [] \<and> hd (w ! (n - 1)) = 0x50 then n - 1 else n)"

definition taproot_leaf_script :: "bytes list \<Rightarrow> bytes option" where
  "taproot_leaf_script w =
     (let n = witness_len_no_annex w in
      if n < 2 then None
      else let control = w ! (n - 1) in
        if length control < 33 \<or> (length control - 33) mod 32 \<noteq> 0
             \<or> control ! 0 AND 0xfe \<noteq> 0xc0 then None
        else Some (w ! (n - 2)))"

definition taproot_arg_count :: "bytes list \<Rightarrow> nat option" where
  "taproot_arg_count w =
     (let n = witness_len_no_annex w in if n < 2 then None else Some (n - 2))"

fun position :: "('a \<Rightarrow> bool) \<Rightarrow> 'a list \<Rightarrow> nat option" where
  "position p [] = None"
| "position p (x # xs) = (if p x then Some 0 else map_option Suc (position p xs))"

definition witness_last :: "tx_in \<Rightarrow> bytes option" where
  "witness_last inp = (if in_witness inp = [] then None else Some (last (in_witness inp)))"

section \<open>Inscription envelopes\<close>

fun envelope_body :: "bytes \<Rightarrow> parsed \<Rightarrow> bytes option" where
  "envelope_body payload [] = Some payload"
| "envelope_body payload (Inl e # is) = None"
| "envelope_body payload (Inr (PushBytes d) # is) = envelope_body (payload @ d) is"
| "envelope_body payload (Inr (Op op) # is) =
     (if op = 0x68 then Some payload else envelope_body payload is)"

fun inscription_scan :: "bool \<Rightarrow> parsed \<Rightarrow> bytes option" where
  "inscription_scan prev_push_empty [] = None"
| "inscription_scan prev_push_empty (Inl e # is) = None"
| "inscription_scan prev_push_empty (Inr (PushBytes d) # is) = inscription_scan (d = []) is"
| "inscription_scan prev_push_empty (Inr (Op op) # is) =
     (if prev_push_empty \<and> op = 0x63 then envelope_body [] is else inscription_scan False is)"

definition inscription_envelope_payload :: "script_crate \<Rightarrow> bytes \<Rightarrow> bytes option" where
  "inscription_envelope_payload S script = inscription_scan False (instructions S script)"

definition input_inscription :: "script_crate \<Rightarrow> tx_in \<Rightarrow> bytes option" where
  "input_inscription S inp =
     Option.bind (taproot_leaf_script (in_witness inp)) (inscription_envelope_payload S)"

definition tx_first_inscription_input :: "script_crate \<Rightarrow> transaction \<Rightarrow> nat option" where
  "tx_first_inscription_input S tx = position (\<lambda>inp. input_inscription S inp \<noteq> None) (tx_input tx)"

section \<open>Dead branches of \<^verbatim>\<open>OP_NOTIF\<close>\<close>

definition closing_op1 :: "bytes \<Rightarrow> parsed \<Rightarrow> bytes option" where
  "closing_op1 payload is =
     (case is of Inr (Op op) # _ \<Rightarrow> (if op = 0x51 then Some payload else None) | _ \<Rightarrow> None)"

definition closing_endif :: "bytes \<Rightarrow> parsed \<Rightarrow> bytes option" where
  "closing_endif payload is =
     (case is of
        Inr (Op op) # rest \<Rightarrow> (if op = 0x68 then closing_op1 payload rest else None)
      | _ \<Rightarrow> None)"

fun notif_body :: "bytes \<Rightarrow> nat \<Rightarrow> parsed \<Rightarrow> bytes option" where
  "notif_body payload full_push_count [] = None"
| "notif_body payload full_push_count (Inl e # is) = None"
| "notif_body payload full_push_count (Inr (PushBytes d) # is) =
     (if length d = 255 then notif_body (payload @ d) (full_push_count + 1) is
      else if d \<noteq> [] \<and> 2 \<le> full_push_count then closing_endif (payload @ d) is
      else None)"
| "notif_body payload full_push_count (Inr (Op op) # is) =
     (if op = 0x68
      then if full_push_count < 2 then None else closing_op1 payload is
      else None)"

fun notif_scan :: "parsed \<Rightarrow> bytes option" where
  "notif_scan [] = None"
| "notif_scan (Inl e # is) = None"
| "notif_scan (Inr ins # is) =
     (if ins \<noteq> Op 0x51 then notif_scan is
      else case is of
        [] \<Rightarrow> None
      | item # rest \<Rightarrow> if item = Inr (Op 0x64) then notif_body [] 0 rest else notif_scan rest)"

definition notif_envelope_payload :: "script_crate \<Rightarrow> bytes \<Rightarrow> bytes option" where
  "notif_envelope_payload S script = notif_scan (instructions S script)"

definition tx_first_notif_envelope_input :: "script_crate \<Rightarrow> transaction \<Rightarrow> nat option" where
  "tx_first_notif_envelope_input S tx =
     position (\<lambda>inp. Option.bind (witness_last inp) (notif_envelope_payload S) \<noteq> None) (tx_input tx)"

section \<open>Pushes that are dropped\<close>

definition advent_min_run :: nat where "advent_min_run = 16"

fun advent_scan :: "bytes \<Rightarrow> nat \<Rightarrow> nat \<Rightarrow> parsed \<Rightarrow> bytes option" where
  "advent_scan payload pending drops [] = (if advent_min_run \<le> drops then Some payload else None)"
| "advent_scan payload pending drops (Inl e # is) =
     (if advent_min_run \<le> drops then Some payload else None)"
| "advent_scan payload pending drops (Inr (PushBytes d) # is) =
     advent_scan (payload @ d) (pending + 1) drops is"
| "advent_scan payload pending drops (Inr (Op op) # is) =
     (if op = 0x75 \<and> 0 < pending then advent_scan payload (pending - 1) (drops + 1) is
      else if op = 0x6d \<and> 2 \<le> pending then advent_scan payload (pending - 2) (drops + 2) is
      else if advent_min_run \<le> drops then Some payload
      else advent_scan [] 0 0 is)"

definition advent_payload :: "script_crate \<Rightarrow> bytes \<Rightarrow> bytes option" where
  "advent_payload S script = advent_scan [] 0 0 (instructions S script)"

definition tx_first_advent_input :: "script_crate \<Rightarrow> transaction \<Rightarrow> nat option" where
  "tx_first_advent_input S tx =
     position (\<lambda>inp.
         Option.bind (taproot_leaf_script (in_witness inp)) (advent_payload S) \<noteq> None
       \<or> Option.bind (witness_last inp) (advent_payload S) \<noteq> None) (tx_input tx)"

definition witness_arg_drop_min_run :: nat where "witness_arg_drop_min_run = 8"

fun bare_drop_scan :: "bool \<Rightarrow> nat \<Rightarrow> nat \<Rightarrow> parsed \<Rightarrow> nat" where
  "bare_drop_scan prev_was_push run_len max_run [] = max_run"
| "bare_drop_scan prev_was_push run_len max_run (Inl e # is) = max_run"
| "bare_drop_scan prev_was_push run_len max_run (Inr (PushBytes d) # is) =
     bare_drop_scan True 0 max_run is"
| "bare_drop_scan prev_was_push run_len max_run (Inr (Op op) # is) =
     (if op = 0x75 \<and> \<not> prev_was_push
      then bare_drop_scan False (run_len + 1) (max max_run (run_len + 1)) is
      else if op = 0x6d \<and> \<not> prev_was_push
      then bare_drop_scan False (run_len + 2) (max max_run (run_len + 2)) is
      else bare_drop_scan False 0 max_run is)"

definition bare_drop_run :: "script_crate \<Rightarrow> bytes \<Rightarrow> nat option" where
  "bare_drop_run S script =
     (let max_run = bare_drop_scan False 0 0 (instructions S script)
      in if witness_arg_drop_min_run \<le> max_run then Some max_run else None)"

definition witness_arg_drop_hit :: "script_crate \<Rightarrow> bytes list \<Rightarrow> bool" where
  "witness_arg_drop_hit S w \<longleftrightarrow>
     (case taproot_leaf_script w of
        None \<Rightarrow> False
      | Some leaf \<Rightarrow>
          (case (bare_drop_run S leaf, taproot_arg_count w) of
             (Some run_len, Some args) \<Rightarrow> run_len \<le> args | _ \<Rightarrow> False))
     \<or> (2 \<le> length w
        \<and> (case bare_drop_run S (last w) of Some run_len \<Rightarrow> run_len < length w | None \<Rightarrow> False))"

definition tx_first_witness_arg_drop_input :: "script_crate \<Rightarrow> transaction \<Rightarrow> nat option" where
  "tx_first_witness_arg_drop_input S tx =
     position (\<lambda>inp. witness_arg_drop_hit S (in_witness inp)) (tx_input tx)"

section \<open>Token protocols\<close>

fun op_return_scan :: "parsed \<Rightarrow> bytes option" where
  "op_return_scan [] = None"
| "op_return_scan (Inl e # is) = None"
| "op_return_scan (Inr (PushBytes d) # is) = (if d \<noteq> [] then Some d else op_return_scan is)"
| "op_return_scan (Inr (Op op) # is) = op_return_scan is"

definition op_return_payload :: "script_crate \<Rightarrow> bytes \<Rightarrow> bytes option" where
  "op_return_payload S script = op_return_scan (instructions S script)"

definition starts_with :: "bytes \<Rightarrow> bytes \<Rightarrow> bool" where
  "starts_with pre bs \<longleftrightarrow> take (length pre) bs = pre"

definition has_window :: "bytes \<Rightarrow> bytes \<Rightarrow> bool" where
  "has_window w bs \<longleftrightarrow>
     list_ex (\<lambda>i. take (length w) (drop i bs) = w) [0..<Suc (length bs) - length w]"

fun output_tokens :: "script_crate \<Rightarrow> tx_out list \<Rightarrow> string option" where
  "output_tokens S [] = None"
| "output_tokens S (out # outs) =
     (let spk = script_pubkey out in
      if \<not> (spk \<noteq> [] \<and> hd spk = 0x6a) then output_tokens S outs
      else if 1 < length spk \<and> spk ! 1 = 0x5d then Some ''runes''
      else case op_return_payload S spk of
        None \<Rightarrow> output_tokens S outs
      | Some payload \<Rightarrow>
          if starts_with (byte_str ''omni'') payload then Some ''omni''
          else if starts_with (byte_str ''CNTRPRTY'') payload then Some ''counterparty''
          else output_tokens S outs)"

fun input_tokens :: "script_crate \<Rightarrow> tx_in list \<Rightarrow> string option" where
  "input_tokens S [] = None"
| "input_tokens S (inp # inps) =
     (case input_inscription S inp of
        None \<Rightarrow> input_tokens S inps
      | Some payload \<Rightarrow>
          if has_window (byte_str ''brc-20'') payload then Some ''brc-20'' else input_tokens S inps)"

definition tx_token_protocol :: "script_crate \<Rightarrow> transaction \<Rightarrow> string option" where
  "tx_token_protocol S tx =
     (case output_tokens S (tx_output tx) of
        Some p \<Rightarrow> Some p
      | None \<Rightarrow> input_tokens S (tx_input tx))"

end
