(* ===== verification/Script_Cache.thy ===== *)
theory Script_Cache
  imports Script_Base
begin

unbundle bit_operations_syntax

text \<open>
  The cache of verified inputs: its key separates witness ids, input indexes and rule sets, so that
  a hit always means that this very input was verified under these very rules, and its size stays
  within the configured bound whatever is inserted.
\<close>

section \<open>Keys\<close>

lemma bit_bool_u32 [simp]: "bit (bool_u32 b) n \<longleftrightarrow> b \<and> n = 0"
  by (simp add: bool_u32_def bit_1_iff)

lemma bit_flag_bits:
  "bit (flag_bits f) 0 \<longleftrightarrow> verify_p2sh f" "bit (flag_bits f) 1 \<longleftrightarrow> verify_witness f"
  "bit (flag_bits f) 2 \<longleftrightarrow> verify_strictenc f"
  "bit (flag_bits f) 3 \<longleftrightarrow> verify_checklocktimeverify f"
  "bit (flag_bits f) 4 \<longleftrightarrow> verify_checksequenceverify f" "bit (flag_bits f) 5 \<longleftrightarrow> verify_taproot f"
  "bit (flag_bits f) 6 \<longleftrightarrow> verify_bip110 f" "bit (flag_bits f) 7 \<longleftrightarrow> verify_nulldummy f"
  by (simp_all only: flag_bits_def bit_or_iff bit_push_bit_iff) (simp_all add: bit_bool_u32)

lemma flag_bits_inject: "flag_bits f = flag_bits g \<longleftrightarrow> f = g"
proof
  assume eq: "flag_bits f = flag_bits g"
  show "f = g"
    using bit_flag_bits [of f] bit_flag_bits [of g] unfolding eq
    by (intro script_flags.equality) simp_all
qed simp

lemma sig_cache_key_inject:
  assumes "length w = 32" and "length w' = 32" and "i < 2 ^ 32" and "i' < 2 ^ 32"
    and "sig_cache_key w i f = sig_cache_key w' i' f'"
  shows "w = w' \<and> i = i' \<and> f = f'"
proof -
  have "w = w'" and "(of_nat i :: u32) = of_nat i'" and "f = f'"
    using assms(1,2,5) by (simp_all add: sig_cache_key_def flag_bits_inject)
  moreover have "i = i'"
    using arg_cong [OF \<open>of_nat i = (of_nat i' :: u32)\<close>, of unat] assms(3,4)
    by (simp add: unsigned_of_nat take_bit_nat_eq_self)
  ultimately show ?thesis by simp
qed

section \<open>Histories\<close>

datatype cache_call = CacheInsert bytes nat script_flags | CacheClear

primrec cache_step :: "(bytes list \<Rightarrow> bytes list) \<Rightarrow> cache_call \<Rightarrow> sig_cache \<Rightarrow> sig_cache" where
  "cache_step iter (CacheInsert w i f) c = sig_cache_insert iter w i f c"
| "cache_step iter CacheClear c = sig_cache_clear c"

text \<open>The entries inserted since the last clear.\<close>

fun live_calls :: "cache_call list \<Rightarrow> (bytes \<times> nat \<times> script_flags) set" where
  "live_calls [] = {}"
| "live_calls (CacheInsert w i f # cs) =
     (if CacheClear \<in> set cs then live_calls cs else insert (w, i, f) (live_calls cs))"
| "live_calls (CacheClear # cs) = live_calls cs"

lemma live_calls_snoc [simp]:
  "live_calls (cs @ [CacheInsert w i f]) = insert (w, i, f) (live_calls cs)"
  "live_calls (cs @ [CacheClear]) = {}"
  by (induction cs rule: live_calls.induct) auto

definition iteration_order :: "(bytes list \<Rightarrow> bytes list) \<Rightarrow> bool" where
  "iteration_order iter \<longleftrightarrow> (\<forall>s. set (iter s) = set s \<and> length (iter s) = length s)"

definition sig_cache_ok :: "sig_cache \<Rightarrow> (bytes \<times> nat \<times> script_flags) set \<Rightarrow> bool" where
  "sig_cache_ok c live \<longleftrightarrow>
     length (shards c) = 64 \<and> 0 < max_per_shard c \<and>
     (\<forall>s \<in> set (shards c). distinct s \<and> length s \<le> max_per_shard c \<and>
        set s \<subseteq> (\<lambda>(w, i, f). sig_cache_key w i f) ` live)"

lemma sig_cache_ok_shard:
  assumes "sig_cache_ok c live" and "j < 64"
  shows "distinct (shards c ! j)" and "length (shards c ! j) \<le> max_per_shard c"
    and "set (shards c ! j) \<subseteq> (\<lambda>(w, i, f). sig_cache_key w i f) ` live"
  using assms by (simp_all add: sig_cache_ok_def)

lemma shard_lt [simp]: "sig_cache_shard k < 64"
  by (simp add: sig_cache_shard_def sig_cache_shards_def)

text \<open>The shard after a possible eviction has room for one more member.\<close>

lemma evicted_shard:
  fixes n :: nat
  assumes iter: "iteration_order iter" and s: "distinct s" "length s \<le> m" "0 < m"
  defines "s' \<equiv> (if m \<le> length s
     then (let idx = n mod length s in
           if idx < length (iter s) then removeAll (iter s ! idx) s else s) else s)"
  shows "distinct s' \<and> Suc (length s') \<le> m \<and> set s' \<subseteq> set s"
proof (cases "m \<le> length s")
  case True
  then have len: "length s = m" and idx: "n mod length s < length (iter s)"
    using s iter by (auto simp: iteration_order_def)
  then have "iter s ! (n mod length s) \<in> set s"
    using iter nth_mem [OF idx] by (simp add: iteration_order_def)
  then have "length (removeAll (iter s ! (n mod length s)) s) = length s - 1"
    using s(1) by (simp add: distinct_remove1_removeAll [symmetric] length_remove1)
  then show ?thesis using True len idx s by (auto simp: s'_def distinct_removeAll)
next
  case False
  then show ?thesis using s by (simp add: s'_def)
qed

lemma sig_cache_ok_insert:
  assumes iter: "iteration_order iter" and ok: "sig_cache_ok c live"
  shows "sig_cache_ok (sig_cache_insert iter w i f c) (insert (w, i, f) live)"
    and "sig_cache_contains (sig_cache_insert iter w i f c) w i f"
proof -
  let ?k = "sig_cache_key w i f" and ?c' = "sig_cache_insert iter w i f c"
  let ?j = "sig_cache_shard ?k"
  let ?n = "unat (u32_from_le [?k ! 1, ?k ! 2, ?k ! 3, ?k ! 4])"
  define s' where "s' = (if max_per_shard c \<le> length (shards c ! ?j)
     then (let idx = ?n mod length (shards c ! ?j) in
           if idx < length (iter (shards c ! ?j)) then removeAll (iter (shards c ! ?j) ! idx) (shards c ! ?j)
           else shards c ! ?j) else shards c ! ?j)"
  have c': "?c' = c\<lparr>shards := (shards c)[?j := List.insert ?k s']\<rparr>"
    by (simp add: sig_cache_insert_def Let_def s'_def)
  have len: "length (shards c) = 64" "0 < max_per_shard c" using ok by (simp_all add: sig_cache_ok_def)
  note sh = sig_cache_ok_shard [OF ok shard_lt [of ?k]]
  have s': "distinct s' \<and> Suc (length s') \<le> max_per_shard c \<and> set s' \<subseteq> set (shards c ! ?j)"
    unfolding s'_def by (rule evicted_shard [OF iter sh(1,2) len(2)])
  have "distinct (List.insert ?k s')" "length (List.insert ?k s') \<le> max_per_shard c"
    using s' by (auto simp: List.insert_def)
  moreover have "set (List.insert ?k s') \<subseteq> (\<lambda>(w, i, f). sig_cache_key w i f) ` insert (w, i, f) live"
    using s' sh(3) by auto
  moreover have "\<forall>s \<in> set (shards c). distinct s \<and> length s \<le> max_per_shard c \<and>
      set s \<subseteq> (\<lambda>(w, i, f). sig_cache_key w i f) ` insert (w, i, f) live"
    using ok by (auto simp: sig_cache_ok_def)
  ultimately show "sig_cache_ok ?c' (insert (w, i, f) live)"
    using len unfolding sig_cache_ok_def c' by (auto dest!: set_update_subset_insert [THEN subsetD])
  show "sig_cache_contains ?c' w i f"
    using len by (simp add: sig_cache_contains_def c' Let_def)
qed

lemma sig_cache_ok_history:
  assumes "iteration_order iter"
  shows "sig_cache_ok (fold (cache_step iter) cs (sig_cache_new max_size)) (live_calls cs)"
proof (induction cs rule: rev_induct)
  case Nil
  show ?case
    by (simp add: sig_cache_ok_def sig_cache_new_def sig_cache_shards_def set_replicate_conv_if)
next
  case (snoc x cs)
  show ?case
  proof (cases x)
    case (CacheInsert w i f)
    then show ?thesis using sig_cache_ok_insert(1) [OF assms snoc.IH] by simp
  next
    case CacheClear
    then show ?thesis using snoc.IH by (auto simp: sig_cache_ok_def sig_cache_clear_def)
  qed
qed

lemma sig_cache_ok_len: "sig_cache_ok c live \<Longrightarrow> sig_cache_len c \<le> 64 * max_per_shard c"
proof -
  assume ok: "sig_cache_ok c live"
  have "sum_list (map length (shards c)) \<le> sum_list (map (\<lambda>_. max_per_shard c) (shards c))"
    using ok by (intro sum_list_mono) (simp add: sig_cache_ok_def)
  also have "\<dots> = 64 * max_per_shard c" using ok by (simp add: sum_list_triv sig_cache_ok_def)
  finally show ?thesis by (simp add: sig_cache_len_def)
qed

lemma max_per_shard_history:
  "max_per_shard (fold (cache_step iter) cs c) = max_per_shard c"
proof (induction cs arbitrary: c)
  case (Cons x cs)
  then show ?case
    by (cases x) (simp_all add: sig_cache_insert_def sig_cache_clear_def Let_def)
qed simp

text \<open>
  C22: after any sequence of insertions and clears on a new cache, whatever the order in which its
  hash sets are walked, a lookup succeeds only for a witness id, input index and rule set that were
  inserted together since the last clear (so a verification under one rule set or of another
  witness never vouches for this one), and the cache holds at most 64 times the per-shard limit.
\<close>

theorem sig_cache_sound:
  fixes max_size :: nat
  assumes "iteration_order iter"
    and "\<forall>(w, i, f) \<in> live_calls cs. length w = 32 \<and> i < 2 ^ 32"
    and "length wtxid = 32" and "input_index < 2 ^ 32"
  defines "c \<equiv> fold (cache_step iter) cs (sig_cache_new max_size)"
  shows "\<not> (sig_cache_contains c wtxid input_index flags \<and> (wtxid, input_index, flags) \<notin> live_calls cs)
    \<and> sig_cache_contains (sig_cache_insert iter wtxid input_index flags c) wtxid input_index flags
    \<and> sig_cache_len c \<le> 64 * max (max_size div 64) 1"
proof (intro conjI notI)
  have ok: "sig_cache_ok c (live_calls cs)"
    unfolding c_def by (rule sig_cache_ok_history [OF assms(1)])
  let ?k = "sig_cache_key wtxid input_index flags"
  show False if "sig_cache_contains c wtxid input_index flags \<and> (wtxid, input_index, flags) \<notin> live_calls cs"
  proof -
    have "?k \<in> set (shards c ! sig_cache_shard ?k)"
      using that by (simp add: sig_cache_contains_def Let_def)
    then obtain w i f where live: "(w, i, f) \<in> live_calls cs" and "?k = sig_cache_key w i f"
      using sig_cache_ok_shard(3) [OF ok shard_lt] by fastforce
    then have "wtxid = w \<and> input_index = i \<and> flags = f"
      using assms(2-4) by (intro sig_cache_key_inject) auto
    then show False using live that by simp
  qed
  show "sig_cache_contains (sig_cache_insert iter wtxid input_index flags c) wtxid input_index flags"
    by (rule sig_cache_ok_insert(2) [OF assms(1) ok])
  show "sig_cache_len c \<le> 64 * max (max_size div 64) 1"
    using sig_cache_ok_len [OF ok] max_per_shard_history [of iter cs "sig_cache_new max_size"]
    by (simp add: c_def sig_cache_new_def sig_cache_shards_def)
qed

theorem sig_cache_sound_witness:
  "let w = replicate 32 7; c = fold (cache_step (\<lambda>s. s))
         [CacheInsert w 0 flags_none, CacheClear, CacheInsert w 0 flags_all] (sig_cache_new 100)
   in \<not> sig_cache_contains c w 0 flags_none \<and> sig_cache_len c \<le> 64"
proof -
  let ?w = "replicate 32 7 :: bytes"
  let ?cs = "[CacheInsert ?w 0 flags_none, CacheClear, CacheInsert ?w 0 flags_all]"
  have "iteration_order (\<lambda>s. s)" by (simp add: iteration_order_def)
  then show ?thesis
    using sig_cache_sound [of "\<lambda>s. s" ?cs ?w 0 100 flags_none]
    by (simp add: Let_def flags_none_def flags_all_def del: fold.simps)
qed

end
