(* ===== verification/Script_Interp.thy ===== *)
theory Script_Interp
  imports Script_Base
begin

unbundle bit_operations_syntax

text \<open>
  The interpreter of legacy and SegWit version 0 scripts, \<^verbatim>\<open>execute_script_inner\<close> of
  \<^verbatim>\<open>bitcoinpr-core/src/script.rs\<close>: one definition per group of opcodes of its \<^verbatim>\<open>match\<close>, the step of
  its loop over the parsed instructions, and the loop.
\<close>

section \<open>Checking a signature\<close>

definition check_sig ::
    "script_crate \<Rightarrow> transaction \<Rightarrow> nat \<Rightarrow> u64 \<Rightarrow> bytes \<Rightarrow> bytes \<Rightarrow> bytes \<Rightarrow> script_flags \<Rightarrow> bool
       \<Rightarrow> bool" where
  "check_sig S tx input_index amount sig_data pubkey_data script_code flags segwit =
     (if sig_data = [] \<or> pubkey_data = [] then False
      else case public_key S pubkey_data of
        None \<Rightarrow> False
      | Some pubkey \<Rightarrow>
          (let sighash_type_byte = last sig_data; sig_der = butlast sig_data in
           case (if verify_strictenc flags then sig_from_der S sig_der
                 else sig_from_der_lax S sig_der) of
             None \<Rightarrow> False
           | Some parsed \<Rightarrow>
               (let signature = normalize_s S parsed in
                case (if segwit
                      then p2wsh_signature_hash S tx input_index script_code amount
                             (sighash_type_of S (ucast sighash_type_byte))
                      else legacy_signature_hash S tx input_index
                             (remove_codeseparators script_code) (ucast sighash_type_byte)) of
                  None \<Rightarrow> False
                | Some sighash \<Rightarrow> verify_ecdsa S sighash signature pubkey)))"

section \<open>Stack opcodes\<close>

text \<open>\<^verbatim>\<open>Vec::remove\<close>, \<^verbatim>\<open>Vec::insert\<close> and \<^verbatim>\<open>slice::swap\<close>.\<close>

definition vec_remove :: "nat \<Rightarrow> 'a list \<Rightarrow> 'a list" where
  "vec_remove i xs = take i xs @ drop (Suc i) xs"

definition vec_insert :: "nat \<Rightarrow> 'a \<Rightarrow> 'a list \<Rightarrow> 'a list" where
  "vec_insert i x xs = take i xs @ x # drop i xs"

definition vec_swap :: "nat \<Rightarrow> nat \<Rightarrow> 'a list \<Rightarrow> 'a list" where
  "vec_swap i j xs = xs[i := xs ! j, j := xs ! i]"

definition pop_num :: "stack \<Rightarrow> (i64 \<times> stack) run" where
  "pop_num s = bindE (stack_pop s) (\<lambda>(d, s'). bindE (decode_num d) (\<lambda>n. Inr (n, s')))"

definition pop_num2 :: "stack \<Rightarrow> (i64 \<times> i64 \<times> stack) run" where
  "pop_num2 s = bindE (pop_num s) (\<lambda>(b, s'). bindE (pop_num s') (\<lambda>(a, s''). Inr (a, b, s'')))"

type_synonym stacks = "stack \<times> stack"

text \<open>The operations on the main and the alternative stack.\<close>

definition stack_op :: "u8 \<Rightarrow> stack \<Rightarrow> stack \<Rightarrow> stacks run" where
  "stack_op op s alt =
     (if op = 0x00 then Inr (s @ [[]], alt)
      else if op = 0x4f then Inr (s @ [[0x81]], alt)
      else if 0x51 \<le> op \<and> op \<le> 0x60 then Inr (s @ [[op - 0x50]], alt)
      else if op = 0x69 then
        bindE (stack_pop s) (\<lambda>(v, s').
          if \<not> cast_to_bool v then invalid ''OP_VERIFY failed'' else Inr (s', alt))
      else if op = 0x6a then invalid ''OP_RETURN''
      else if op = 0x6b then bindE (stack_pop s) (\<lambda>(v, s'). Inr (s', alt @ [v]))
      else if op = 0x6c then
        (if alt = [] then invalid ''alt stack empty'' else Inr (s @ [last alt], butlast alt))
      else if op = 0x6d then
        bindE (stack_pop s) (\<lambda>(_, s'). bindE (stack_pop s') (\<lambda>(_, s''). Inr (s'', alt)))
      else if op = 0x6e then
        (if length s < 2 then invalid ''stack too small for 2DUP''
         else Inr (s @ [s ! (length s - 2), s ! (length s - 1)], alt))
      else if op = 0x6f then
        (if length s < 3 then invalid ''stack too small for 3DUP''
         else Inr (s @ [s ! (length s - 3), s ! (length s - 2), s ! (length s - 1)], alt))
      else if op = 0x70 then
        (if length s < 4 then invalid ''stack too small for 2OVER''
         else Inr (s @ [s ! (length s - 4), s ! (length s - 3)], alt))
      else if op = 0x71 then
        (if length s < 6 then invalid ''stack too small for 2ROT''
         else let i = length s - 6; a = s ! i; s1 = vec_remove i s; b = s1 ! i
              in Inr (vec_remove i s1 @ [a, b], alt))
      else if op = 0x72 then
        (if length s < 4 then invalid ''stack too small for 2SWAP''
         else Inr (vec_swap (length s - 3) (length s - 1)
                     (vec_swap (length s - 4) (length s - 2) s), alt))
      else if op = 0x73 then
        (if s = [] then invalid ''empty stack''
         else Inr (if cast_to_bool (last s) then s @ [last s] else s, alt))
      else if op = 0x74 then Inr (s @ [encode_num (of_nat (length s))], alt)
      else if op = 0x75 then bindE (stack_pop s) (\<lambda>(_, s'). Inr (s', alt))
      else if op = 0x76 then
        (if s = [] then invalid ''empty stack for DUP'' else Inr (s @ [last s], alt))
      else if op = 0x77 then
        (if length s < 2 then invalid ''stack too small for NIP''
         else Inr (vec_remove (length s - 2) s, alt))
      else if op = 0x78 then
        (if length s < 2 then invalid ''stack too small for OVER''
         else Inr (s @ [s ! (length s - 2)], alt))
      else if op = 0x79 then
        bindE (pop_num s) (\<lambda>(n, s').
          if length s' \<le> unat n then invalid ''stack too small for PICK''
          else Inr (s' @ [s' ! (length s' - 1 - unat n)], alt))
      else if op = 0x7a then
        bindE (pop_num s) (\<lambda>(n, s').
          if length s' \<le> unat n then invalid ''stack too small for ROLL''
          else let idx = length s' - 1 - unat n in Inr (vec_remove idx s' @ [s' ! idx], alt))
      else if op = 0x7b then
        (if length s < 3 then invalid ''stack too small for ROT''
         else Inr (vec_remove (length s - 3) s @ [s ! (length s - 3)], alt))
      else if op = 0x7c then
        (if length s < 2 then invalid ''stack too small for SWAP''
         else Inr (vec_swap (length s - 1) (length s - 2) s, alt))
      else if op = 0x7d then
        (if length s < 2 then invalid ''stack too small for TUCK''
         else Inr (vec_insert (length s - 2) (last s) s, alt))
      else if op = 0x82 then
        (if s = [] then invalid ''empty stack for SIZE''
         else Inr (s @ [encode_num (of_nat (length (last s)))], alt))
      else invalid ''unsupported opcode'')"

section \<open>Equality and arithmetic\<close>

definition num_bool :: "bool \<Rightarrow> bytes" where
  "num_bool b = encode_num (if b then 1 else 0)"

definition abs_i64 :: "i64 \<Rightarrow> i64" where
  "abs_i64 a = (if sint a < 0 then - a else a)"

definition arith_op :: "u8 \<Rightarrow> stack \<Rightarrow> stack run" where
  "arith_op op s =
     (if op = 0x87 then
        bindE (stack_pop s) (\<lambda>(b, s'). bindE (stack_pop s') (\<lambda>(a, s'').
          Inr (s'' @ [script_bool (a = b)])))
      else if op = 0x88 then
        bindE (stack_pop s) (\<lambda>(b, s'). bindE (stack_pop s') (\<lambda>(a, s'').
          if a \<noteq> b then invalid ''OP_EQUALVERIFY failed'' else Inr s''))
      else if op = 0x8b then bindE (pop_num s) (\<lambda>(a, s'). Inr (s' @ [encode_num (a + 1)]))
      else if op = 0x8c then bindE (pop_num s) (\<lambda>(a, s'). Inr (s' @ [encode_num (a - 1)]))
      else if op = 0x8f then bindE (pop_num s) (\<lambda>(a, s'). Inr (s' @ [encode_num (- a)]))
      else if op = 0x90 then bindE (pop_num s) (\<lambda>(a, s'). Inr (s' @ [encode_num (abs_i64 a)]))
      else if op = 0x91 then bindE (pop_num s) (\<lambda>(a, s'). Inr (s' @ [num_bool (a = 0)]))
      else if op = 0x92 then bindE (pop_num s) (\<lambda>(a, s'). Inr (s' @ [num_bool (a \<noteq> 0)]))
      else if op = 0x93 then bindE (pop_num2 s) (\<lambda>(a, b, s'). Inr (s' @ [encode_num (a + b)]))
      else if op = 0x94 then bindE (pop_num2 s) (\<lambda>(a, b, s'). Inr (s' @ [encode_num (a - b)]))
      else if op = 0x9a then
        bindE (pop_num2 s) (\<lambda>(a, b, s'). Inr (s' @ [num_bool (a \<noteq> 0 \<and> b \<noteq> 0)]))
      else if op = 0x9b then
        bindE (pop_num2 s) (\<lambda>(a, b, s'). Inr (s' @ [num_bool (a \<noteq> 0 \<or> b \<noteq> 0)]))
      else if op = 0x9c then bindE (pop_num2 s) (\<lambda>(a, b, s'). Inr (s' @ [num_bool (a = b)]))
      else if op = 0x9d then
        bindE (pop_num2 s) (\<lambda>(a, b, s').
          if a \<noteq> b then invalid ''OP_NUMEQUALVERIFY failed'' else Inr s')
      else if op = 0x9e then bindE (pop_num2 s) (\<lambda>(a, b, s'). Inr (s' @ [num_bool (a \<noteq> b)]))
      else if op = 0x9f then
        bindE (pop_num2 s) (\<lambda>(a, b, s'). Inr (s' @ [num_bool (sint a < sint b)]))
      else if op = 0xa0 then
        bindE (pop_num2 s) (\<lambda>(a, b, s'). Inr (s' @ [num_bool (sint b < sint a)]))
      else if op = 0xa1 then
        bindE (pop_num2 s) (\<lambda>(a, b, s'). Inr (s' @ [num_bool (sint a \<le> sint b)]))
      else if op = 0xa2 then
        bindE (pop_num2 s) (\<lambda>(a, b, s'). Inr (s' @ [num_bool (sint b \<le> sint a)]))
      else if op = 0xa3 then
        bindE (pop_num2 s) (\<lambda>(a, b, s'). Inr (s' @ [encode_num (if sint b < sint a then b else a)]))
      else if op = 0xa4 then
        bindE (pop_num2 s) (\<lambda>(a, b, s'). Inr (s' @ [encode_num (if sint b < sint a then a else b)]))
      else if op = 0xa5 then
        bindE (pop_num s) (\<lambda>(mx, s'). bindE (pop_num2 s') (\<lambda>(x, mn, s'').
          Inr (s'' @ [num_bool (sint mn \<le> sint x \<and> sint x < sint mx)])))
      else invalid ''unsupported opcode'')"

section \<open>Hashes and signatures\<close>

definition crypto_op :: "script_crate \<Rightarrow> u8 \<Rightarrow> stack \<Rightarrow> stack run" where
  "crypto_op S op s =
     bindE (stack_pop s) (\<lambda>(data, s').
       Inr (s' @ [if op = 0xa6 then ripemd160 S data
                  else if op = 0xa7 then sha1 S data
                  else if op = 0xa8 then sha256 S data
                  else if op = 0xa9 then hash160 S data
                  else hash256 S data]))"

record exec_ctx =
  ctx_tx :: transaction
  ctx_input_index :: nat
  ctx_amount :: u64
  ctx_flags :: script_flags
  ctx_segwit :: bool
  ctx_script :: bytes

definition ctx_check :: "script_crate \<Rightarrow> exec_ctx \<Rightarrow> bytes \<Rightarrow> bytes \<Rightarrow> bytes \<Rightarrow> bool" where
  "ctx_check S c sig pubkey script_code =
     check_sig S (ctx_tx c) (ctx_input_index c) (ctx_amount c) sig pubkey script_code (ctx_flags c)
       (ctx_segwit c)"

text \<open>The signature, the key and the script code of \<^verbatim>\<open>OP_CHECKSIG\<close> and \<^verbatim>\<open>OP_CHECKSIGVERIFY\<close>.\<close>

definition checksig_result ::
    "script_crate \<Rightarrow> exec_ctx \<Rightarrow> nat \<Rightarrow> stack \<Rightarrow> (bool \<times> stack) run" where
  "checksig_result S c codesep s =
     bindE (stack_pop s) (\<lambda>(pubkey_data, s').
     bindE (stack_pop s') (\<lambda>(sig_data, s'').
     bindE (slice_from codesep (ctx_script c)) (\<lambda>code.
       let sc = (if \<not> ctx_segwit c \<and> sig_data \<noteq> []
                 then find_and_delete code (serialize_script_push sig_data) else code)
       in Inr (ctx_check S c sig_data pubkey_data sc, s''))))"

definition op_checksig :: "script_crate \<Rightarrow> exec_ctx \<Rightarrow> nat \<Rightarrow> stack \<Rightarrow> stack run" where
  "op_checksig S c codesep s =
     bindE (checksig_result S c codesep s) (\<lambda>(ok, s'). Inr (s' @ [script_bool ok]))"

definition op_checksigverify :: "script_crate \<Rightarrow> exec_ctx \<Rightarrow> nat \<Rightarrow> stack \<Rightarrow> stack run" where
  "op_checksigverify S c codesep s =
     bindE (checksig_result S c codesep s) (\<lambda>(ok, s').
       if \<not> ok then invalid ''OP_CHECKSIGVERIFY failed'' else Inr s')"

fun pop_many :: "nat \<Rightarrow> stack \<Rightarrow> (bytes list \<times> stack) run" where
  "pop_many 0 s = Inr ([], s)"
| "pop_many (Suc n) s =
     bindE (stack_pop s) (\<lambda>(v, s'). bindE (pop_many n s') (\<lambda>(vs, s''). Inr (v # vs, s'')))"

text \<open>The two nested loops of \<^verbatim>\<open>OP_CHECKMULTISIG\<close>: the keys from \<^verbatim>\<open>key_idx\<close> on are the list.\<close>

fun match_key :: "(bytes \<Rightarrow> bytes \<Rightarrow> bool run) \<Rightarrow> bytes \<Rightarrow> bytes list \<Rightarrow> (bool \<times> bytes list) run" where
  "match_key chk sig [] = Inr (False, [])"
| "match_key chk sig (k # ks) =
     bindE (chk sig k) (\<lambda>ok. if ok then Inr (True, ks) else match_key chk sig ks)"

fun match_sigs :: "(bytes \<Rightarrow> bytes \<Rightarrow> bool run) \<Rightarrow> bytes list \<Rightarrow> bytes list \<Rightarrow> bool run" where
  "match_sigs chk [] keys = Inr True"
| "match_sigs chk (sig # sigs) keys =
     bindE (match_key chk sig keys) (\<lambda>(matched, rest).
       if matched then match_sigs chk sigs rest else Inr False)"

definition multisig_result ::
    "script_crate \<Rightarrow> exec_ctx \<Rightarrow> string \<Rightarrow> nat \<Rightarrow> u32 \<Rightarrow> stack \<Rightarrow> (bool \<times> u32 \<times> stack) run" where
  "multisig_result S c dummy_msg codesep ops s =
     bindE (pop_num s) (\<lambda>(n_keys, s1).
     if 20 < unat n_keys then invalid ''too many keys''
     else let ops' = ops + ucast n_keys in
     if 201 < ops' then invalid ''op count exceeded''
     else bindE (pop_many (unat n_keys) s1) (\<lambda>(keys, s2).
     bindE (pop_num s2) (\<lambda>(n_sigs, s3).
     if unat n_keys < unat n_sigs then invalid ''more sigs than keys''
     else bindE (pop_many (unat n_sigs) s3) (\<lambda>(sigs, s4).
     bindE (stack_pop s4) (\<lambda>(dummy, s5).
     if verify_nulldummy (ctx_flags c) \<and> dummy \<noteq> [] then invalid dummy_msg
     else
       bindE (if ctx_segwit c then Inr None
              else bindE (slice_from codesep (ctx_script c)) (\<lambda>code.
                Inr (Some (fold (\<lambda>sig sc. find_and_delete sc (serialize_script_push sig)) sigs code))))
       (\<lambda>cleaned.
       bindE (match_sigs
                (\<lambda>sig key. bindE (slice_from codesep (ctx_script c)) (\<lambda>code.
                   Inr (ctx_check S c sig key (case cleaned of Some sc \<Rightarrow> sc | None \<Rightarrow> code))))
                sigs keys)
       (\<lambda>success. Inr (success, ops', s5))))))))"

definition op_checkmultisig ::
    "script_crate \<Rightarrow> exec_ctx \<Rightarrow> nat \<Rightarrow> u32 \<Rightarrow> stack \<Rightarrow> (u32 \<times> stack) run" where
  "op_checkmultisig S c codesep ops s =
     bindE (multisig_result S c ''BIP 147: CHECKMULTISIG dummy element must be empty (NULLDUMMY)''
              codesep ops s)
       (\<lambda>(success, ops', s'). Inr (ops', s' @ [script_bool success]))"

definition op_checkmultisigverify ::
    "script_crate \<Rightarrow> exec_ctx \<Rightarrow> nat \<Rightarrow> u32 \<Rightarrow> stack \<Rightarrow> (u32 \<times> stack) run" where
  "op_checkmultisigverify S c codesep ops s =
     bindE (multisig_result S c
              ''BIP 147: CHECKMULTISIGVERIFY dummy element must be empty (NULLDUMMY)'' codesep ops s)
       (\<lambda>(success, ops', s').
          if \<not> success then invalid ''OP_CHECKMULTISIGVERIFY failed'' else Inr (ops', s'))"

section \<open>Lock times\<close>

definition op_checklocktime :: "exec_ctx \<Rightarrow> stack \<Rightarrow> unit run" where
  "op_checklocktime c s =
     (if verify_checklocktimeverify (ctx_flags c) then
        (if s = [] then invalid ''empty stack for CLTV''
         else bindE (decode_num_bounded (last s) 5) (\<lambda>locktime.
           if sint locktime < 0 then invalid ''negative locktime''
           else let tx_locktime = ucast (tx_lock_time (ctx_tx c)) :: u64;
                    script_is_time = (500000000 \<le> locktime);
                    tx_is_time = (500000000 \<le> tx_locktime)
                in if script_is_time \<noteq> tx_is_time then invalid ''CLTV: locktime type mismatch''
                   else if tx_locktime < locktime then invalid ''CLTV: locktime > tx locktime''
                   else bindE (index_at (tx_input (ctx_tx c)) (ctx_input_index c)) (\<lambda>inp.
                     if in_sequence inp = 0xffffffff then invalid ''CLTV: input sequence is final''
                     else Inr ())))
      else Inr ())"

definition op_checksequence :: "exec_ctx \<Rightarrow> stack \<Rightarrow> unit run" where
  "op_checksequence c s =
     (if verify_checksequenceverify (ctx_flags c) then
        (if s = [] then invalid ''empty stack for CSV''
         else bindE (decode_num_bounded (last s) 5) (\<lambda>n.
           if sint n < 0 then invalid ''negative sequence''
           else let sequence = ucast n :: u32 in
             if sequence AND push_bit 31 1 = 0 then
               bindE (index_at (tx_input (ctx_tx c)) (ctx_input_index c)) (\<lambda>inp.
                 let tx_sequence = in_sequence inp;
                     script_is_time = (sequence AND push_bit 22 1 \<noteq> 0);
                     tx_is_time = (tx_sequence AND push_bit 22 1 \<noteq> 0);
                     script_value = sequence AND 0xffff;
                     tx_value = tx_sequence AND 0xffff
                 in if tx_sequence AND push_bit 31 1 \<noteq> 0
                    then invalid ''CSV: tx sequence has disable flag''
                    else if script_is_time \<noteq> tx_is_time then invalid ''CSV: sequence type mismatch''
                    else if tx_value < script_value then invalid ''CSV: required > tx sequence''
                    else Inr ())
             else Inr ()))
      else Inr ())"

section \<open>The loop\<close>

record exec_state =
  main_stack :: stack
  alt_stack :: stack
  exec_stack :: "bool list"
  op_count :: u32
  codesep_pos :: nat
  byte_pos :: nat

definition executing :: "bool list \<Rightarrow> bool" where
  "executing es = list_all (\<lambda>b. b) es"

definition instr_size :: "instruction \<Rightarrow> nat" where
  "instr_size ins =
     (case ins of
        PushBytes d \<Rightarrow>
          (let len = length d
           in if len = 0 then 1 else if len \<le> 75 then 1 + len else if len \<le> 255 then 2 + len
              else if len \<le> 65535 then 3 + len else 5 + len)
      | Op _ \<Rightarrow> 1)"

definition exec_push :: "script_flags \<Rightarrow> bytes \<Rightarrow> exec_state \<Rightarrow> exec_state run" where
  "exec_push flags data st =
     (if max_script_element_size < length data then invalid ''push data size exceeds limit''
      else if verify_bip110 flags \<and> bip110_max_push_size < length data
        then invalid ''BIP-110: push exceeds limit''
      else if executing (exec_stack st)
        then if max_stack_size < length (main_stack st @ [data]) + length (alt_stack st)
             then invalid ''stack size exceeded''
             else Inr (st\<lparr>main_stack := main_stack st @ [data]\<rparr>)
      else Inr st)"

text \<open>The flow-control opcodes, which are handled whether or not the branch executes; the result
  \<open>None\<close> is any other opcode.\<close>

definition flow_op :: "u8 \<Rightarrow> stack \<Rightarrow> bool list \<Rightarrow> (stack \<times> bool list) run option" where
  "flow_op op s es =
     (if op = 0x63 then
        Some (if executing es
              then bindE (stack_pop s) (\<lambda>(v, s'). Inr (s', es @ [cast_to_bool v]))
              else Inr (s, es @ [False]))
      else if op = 0x64 then
        Some (if executing es
              then bindE (stack_pop s) (\<lambda>(v, s'). Inr (s', es @ [\<not> cast_to_bool v]))
              else Inr (s, es @ [False]))
      else if op = 0x67 then
        Some (if es = [] then invalid ''OP_ELSE without OP_IF''
              else Inr (s, butlast es @ [\<not> last es]))
      else if op = 0x68 then
        Some (if es = [] then invalid ''OP_ENDIF without OP_IF'' else Inr (s, butlast es))
      else None)"

text \<open>The opcode of an executing branch.\<close>

definition exec_opcode :: "script_crate \<Rightarrow> exec_ctx \<Rightarrow> u8 \<Rightarrow> exec_state \<Rightarrow> exec_state run" where
  "exec_opcode S c op st =
     (let s = main_stack st in
      if 0x87 \<le> op \<and> op \<le> 0xa5 then
        bindE (arith_op op s) (\<lambda>s'. Inr (st\<lparr>main_stack := s'\<rparr>))
      else if 0xa6 \<le> op \<and> op \<le> 0xaa then
        bindE (crypto_op S op s) (\<lambda>s'. Inr (st\<lparr>main_stack := s'\<rparr>))
      else if op = 0xac then
        bindE (op_checksig S c (codesep_pos st) s) (\<lambda>s'. Inr (st\<lparr>main_stack := s'\<rparr>))
      else if op = 0xad then
        bindE (op_checksigverify S c (codesep_pos st) s) (\<lambda>s'. Inr (st\<lparr>main_stack := s'\<rparr>))
      else if op = 0xae then
        bindE (op_checkmultisig S c (codesep_pos st) (op_count st) s) (\<lambda>(n, s').
          Inr (st\<lparr>main_stack := s', op_count := n\<rparr>))
      else if op = 0xaf then
        bindE (op_checkmultisigverify S c (codesep_pos st) (op_count st) s) (\<lambda>(n, s').
          Inr (st\<lparr>main_stack := s', op_count := n\<rparr>))
      else if op = 0xb1 then bindE (op_checklocktime c s) (\<lambda>_. Inr st)
      else if op = 0xb2 then bindE (op_checksequence c s) (\<lambda>_. Inr st)
      else if op = 0xab then Inr (st\<lparr>codesep_pos := byte_pos st\<rparr>)
      else if op = 0x61 \<or> op = 0xb0 \<or> 0xb3 \<le> op \<and> op \<le> 0xb9 then Inr st
      else bindE (stack_op op s (alt_stack st)) (\<lambda>(s', a').
             Inr (st\<lparr>main_stack := s', alt_stack := a'\<rparr>)))"

definition check_stack_size :: "exec_state \<Rightarrow> exec_state run" where
  "check_stack_size st =
     (if max_stack_size < length (main_stack st) + length (alt_stack st)
      then invalid ''stack size exceeded'' else Inr st)"

definition exec_op :: "script_crate \<Rightarrow> exec_ctx \<Rightarrow> u8 \<Rightarrow> exec_state \<Rightarrow> exec_state run" where
  "exec_op S c op st0 =
     (let st = (if 0x60 < op then st0\<lparr>op_count := op_count st0 + 1\<rparr> else st0) in
      if 0x60 < op \<and> 201 < op_count st then invalid ''op count exceeded''
      else if op = 0x65 \<or> op = 0x66 then invalid ''bad opcode''
      else if is_disabled_opcode op then invalid ''disabled opcode''
      else case flow_op op (main_stack st) (exec_stack st) of
        Some r \<Rightarrow> bindE r (\<lambda>(s', es'). Inr (st\<lparr>main_stack := s', exec_stack := es'\<rparr>))
      | None \<Rightarrow>
          if \<not> executing (exec_stack st) then Inr st
          else bindE (exec_opcode S c op st) check_stack_size)"

definition exec_instruction ::
    "script_crate \<Rightarrow> exec_ctx \<Rightarrow> exec_state \<Rightarrow> string + instruction \<Rightarrow> exec_state run" where
  "exec_instruction S c st item =
     (case item of
        Inl e \<Rightarrow> invalid ''script parse error''
      | Inr ins \<Rightarrow>
          (let st' = st\<lparr>byte_pos := byte_pos st + instr_size ins\<rparr> in
           case ins of
             PushBytes data \<Rightarrow> exec_push (ctx_flags c) data st'
           | Op op \<Rightarrow> exec_op S c op st'))"

definition execute_script_inner :: "script_crate \<Rightarrow> exec_ctx \<Rightarrow> stack \<Rightarrow> stack run" where
  "execute_script_inner S c s =
     (if max_script_size < length (ctx_script c) then invalid ''script size exceeds limit''
      else bindE (foldE (exec_instruction S c)
                    \<lparr>main_stack = s, alt_stack = [], exec_stack = [], op_count = 0,
                     codesep_pos = 0, byte_pos = 0\<rparr>
                    (instructions S (ctx_script c)))
             (\<lambda>st. if exec_stack st \<noteq> [] then invalid ''unbalanced IF/ENDIF''
                   else Inr (main_stack st)))"

definition execute_script ::
    "script_crate \<Rightarrow> bytes \<Rightarrow> stack \<Rightarrow> transaction \<Rightarrow> nat \<Rightarrow> u64 \<Rightarrow> script_flags \<Rightarrow> stack run" where
  "execute_script S script s tx input_index amount flags =
     execute_script_inner S
       \<lparr>ctx_tx = tx, ctx_input_index = input_index, ctx_amount = amount, ctx_flags = flags,
        ctx_segwit = False, ctx_script = script\<rparr> s"

definition execute_script_segwit ::
    "script_crate \<Rightarrow> bytes \<Rightarrow> stack \<Rightarrow> transaction \<Rightarrow> nat \<Rightarrow> u64 \<Rightarrow> script_flags \<Rightarrow> stack run" where
  "execute_script_segwit S script s tx input_index amount flags =
     execute_script_inner S
       \<lparr>ctx_tx = tx, ctx_input_index = input_index, ctx_amount = amount, ctx_flags = flags,
        ctx_segwit = True, ctx_script = script\<rparr> s"

end
