(* ===== verification/Script_Tap.thy ===== *)
theory Script_Tap
  imports Script_Interp
begin

unbundle bit_operations_syntax

text \<open>
  The tapscript interpreter \<^verbatim>\<open>execute_tapscript\<close> of \<^verbatim>\<open>bitcoinpr-core/src/script.rs\<close>. The code repeats the
  opcodes it shares with the legacy interpreter; so does the model, and \<^verbatim>\<open>Script_Parity\<close> compares the
  two copies.
\<close>

section \<open>Schnorr signatures\<close>

definition parse_schnorr_sig :: "script_crate \<Rightarrow> bytes \<Rightarrow> (bytes \<times> u8) run" where
  "parse_schnorr_sig S sig =
     (if length sig = 64 then
        (case schnorr_signature S sig of
           None \<Rightarrow> invalid ''invalid Schnorr signature''
         | Some s \<Rightarrow> Inr (s, tap_sighash_default S))
      else if length sig = 65 then
        (case tap_sighash_type S (sig ! 64) of
           None \<Rightarrow> invalid ''invalid taproot sighash type''
         | Some t \<Rightarrow>
             (case schnorr_signature S (take 64 sig) of
                None \<Rightarrow> invalid ''invalid Schnorr signature''
              | Some s \<Rightarrow> Inr (s, t)))
      else if length sig = 0 then invalid ''empty signature''
      else invalid ''invalid Schnorr signature length'')"

definition verify_taproot_key_spend ::
    "script_crate \<Rightarrow> transaction \<Rightarrow> nat \<Rightarrow> tx_out list \<Rightarrow> bytes \<Rightarrow> bytes \<Rightarrow> bytes option \<Rightarrow> unit run"
  where
  "verify_taproot_key_spend S tx input_index all_prevouts output_key sig_bytes annex =
     bindE (parse_schnorr_sig S sig_bytes) (\<lambda>(sig, sighash_type).
       case taproot_sighash S tx input_index all_prevouts annex None sighash_type of
         None \<Rightarrow> invalid ''taproot sighash error''
       | Some sighash \<Rightarrow>
           if verify_schnorr S sig sighash output_key then Inr ()
           else invalid ''Schnorr signature verification failed'')"

definition verify_taproot_script_sig ::
    "script_crate \<Rightarrow> transaction \<Rightarrow> nat \<Rightarrow> tx_out list \<Rightarrow> bytes \<Rightarrow> bytes \<Rightarrow> bytes \<Rightarrow> u32
       \<Rightarrow> bytes option \<Rightarrow> unit run" where
  "verify_taproot_script_sig S tx input_index all_prevouts pubkey sig_bytes tap_leaf codesep annex =
     bindE (parse_schnorr_sig S sig_bytes) (\<lambda>(sig, sighash_type).
       case taproot_sighash S tx input_index all_prevouts annex (Some (tap_leaf, codesep)) sighash_type of
         None \<Rightarrow> invalid ''tapscript sighash error''
       | Some sighash \<Rightarrow>
           if verify_schnorr S sig sighash pubkey then Inr ()
           else invalid ''Schnorr signature verification failed'')"

record tap_ctx =
  tap_tx :: transaction
  tap_input_index :: nat
  tap_prevouts :: "tx_out list"
  tap_leaf :: bytes
  tap_annex :: "bytes option"
  tap_bip110 :: bool
  tap_script :: bytes

definition tapscript_check_sig ::
    "script_crate \<Rightarrow> tap_ctx \<Rightarrow> bytes \<Rightarrow> bytes \<Rightarrow> u32 \<Rightarrow> bool" where
  "tapscript_check_sig S c sig_data pubkey_data codesep =
     (if sig_data = [] \<or> length pubkey_data \<noteq> 32 then False
      else case x_only_public_key S pubkey_data of
             None \<Rightarrow> False
           | Some pubkey \<Rightarrow>
               is_ok (verify_taproot_script_sig S (tap_tx c) (tap_input_index c) (tap_prevouts c)
                        pubkey sig_data (tap_leaf c) codesep (tap_annex c)))"

section \<open>The shared opcodes, second copy\<close>

definition tap_stack_op :: "u8 \<Rightarrow> stack \<Rightarrow> stack \<Rightarrow> stacks run" where
  "tap_stack_op op s alt =
     (if op = 0x00 then Inr (s @ [[]], alt)
      else if op = 0x4f then Inr (s @ [encode_num (- 1)], alt)
      else if 0x51 \<le> op \<and> op \<le> 0x60 then Inr (s @ [encode_num (ucast (op - 0x50))], alt)
      else if op = 0x69 then
        bindE (stack_pop s) (\<lambda>(v, s').
          if \<not> cast_to_bool v then invalid ''OP_VERIFY failed'' else Inr (s', alt))
      else if op = 0x6a then invalid ''OP_RETURN''
      else if op = 0x6b then bindE (stack_pop s) (\<lambda>(v, s'). Inr (s', alt @ [v]))
      else if op = 0x6c then
        (if alt = [] then invalid ''alt stack empty'' else Inr (s @ [last alt], butlast alt))
      else if op = 0x6d then
        bindE (stack_pop s) (\<lambda>(_, s'). bindE (stack_pop s') (\<lambda>(_, s''). Inr (s'', alt)))
      else if op = 0x6e then
        (if length s < 2 then invalid ''stack too small for 2DUP''
         else Inr (s @ [s ! (length s - 2), s ! (length s - 1)], alt))
      else if op = 0x6f then
        (if length s < 3 then invalid ''stack too small for 3DUP''
         else Inr (s @ [s ! (length s - 3), s ! (length s - 2), s ! (length s - 1)], alt))
      else if op = 0x70 then
        (if length s < 4 then invalid ''stack too small for 2OVER''
         else Inr (s @ [s ! (length s - 4), s ! (length s - 3)], alt))
      else if op = 0x71 then
        (if length s < 6 then invalid ''stack too small for 2ROT''
         else let i = length s - 6; a = s ! i; s1 = vec_remove i s; b = s1 ! i
              in Inr (vec_remove i s1 @ [a, b], alt))
      else if op = 0x72 then
        (if length s < 4 then invalid ''stack too small for 2SWAP''
         else Inr (vec_swap (length s - 3) (length s - 1)
                     (vec_swap (length s - 4) (length s - 2) s), alt))
      else if op = 0x73 then
        (if s = [] then invalid ''empty stack''
         else Inr (if cast_to_bool (last s) then s @ [last s] else s, alt))
      else if op = 0x74 then Inr (s @ [encode_num (of_nat (length s))], alt)
      else if op = 0x75 then bindE (stack_pop s) (\<lambda>(_, s'). Inr (s', alt))
      else if op = 0x76 then
        (if s = [] then invalid ''stack underflow'' else Inr (s @ [last s], alt))
      else if op = 0x77 then
        (if length s < 2 then invalid ''stack too small for NIP''
         else Inr (vec_remove (length s - 2) s, alt))
      else if op = 0x78 then
        (if length s < 2 then invalid ''stack too small for OVER''
         else Inr (s @ [s ! (length s - 2)], alt))
      else if op = 0x79 then
        bindE (pop_num s) (\<lambda>(n, s').
          if length s' \<le> unat n then invalid ''stack too small for PICK''
          else Inr (s' @ [s' ! (length s' - 1 - unat n)], alt))
      else if op = 0x7a then
        bindE (pop_num s) (\<lambda>(n, s').
          if length s' \<le> unat n then invalid ''stack too small for ROLL''
          else let idx = length s' - 1 - unat n in Inr (vec_remove idx s' @ [s' ! idx], alt))
      else if op = 0x7b then
        (if length s < 3 then invalid ''stack too small for ROT''
         else Inr (vec_remove (length s - 3) s @ [s ! (length s - 3)], alt))
      else if op = 0x7c then
        (if length s < 2 then invalid ''stack too small for SWAP''
         else Inr (vec_swap (length s - 1) (length s - 2) s, alt))
      else if op = 0x7d then
        (if length s < 2 then invalid ''stack too small for TUCK''
         else Inr (vec_insert (length s - 2) (last s) s, alt))
      else if op = 0x82 then
        (if s = [] then invalid ''empty stack for SIZE''
         else Inr (s @ [encode_num (of_nat (length (last s)))], alt))
      else invalid ''unknown tapscript opcode'')"

definition tap_arith_op :: "u8 \<Rightarrow> stack \<Rightarrow> stack run" where
  "tap_arith_op op s =
     (if op = 0x87 then
        bindE (stack_pop s) (\<lambda>(b, s'). bindE (stack_pop s') (\<lambda>(a, s'').
          Inr (s'' @ [script_bool (a = b)])))
      else if op = 0x88 then
        bindE (stack_pop s) (\<lambda>(b, s'). bindE (stack_pop s') (\<lambda>(a, s'').
          if a \<noteq> b then invalid ''OP_EQUALVERIFY failed'' else Inr s''))
      else if op = 0x8b then bindE (pop_num s) (\<lambda>(a, s'). Inr (s' @ [encode_num (a + 1)]))
      else if op = 0x8c then bindE (pop_num s) (\<lambda>(a, s'). Inr (s' @ [encode_num (a - 1)]))
      else if op = 0x8f then bindE (pop_num s) (\<lambda>(a, s'). Inr (s' @ [encode_num (- a)]))
      else if op = 0x90 then bindE (pop_num s) (\<lambda>(a, s'). Inr (s' @ [encode_num (abs_i64 a)]))
      else if op = 0x91 then bindE (pop_num s) (\<lambda>(a, s'). Inr (s' @ [num_bool (a = 0)]))
      else if op = 0x92 then bindE (pop_num s) (\<lambda>(a, s'). Inr (s' @ [num_bool (a \<noteq> 0)]))
      else if op = 0x93 then bindE (pop_num2 s) (\<lambda>(a, b, s'). Inr (s' @ [encode_num (a + b)]))
      else if op = 0x94 then bindE (pop_num2 s) (\<lambda>(a, b, s'). Inr (s' @ [encode_num (a - b)]))
      else if op = 0x9a then
        bindE (pop_num2 s) (\<lambda>(a, b, s'). Inr (s' @ [num_bool (a \<noteq> 0 \<and> b \<noteq> 0)]))
      else if op = 0x9b then
        bindE (pop_num2 s) (\<lambda>(a, b, s'). Inr (s' @ [num_bool (a \<noteq> 0 \<or> b \<noteq> 0)]))
      else if op = 0x9c then bindE (pop_num2 s) (\<lambda>(a, b, s'). Inr (s' @ [script_bool (a = b)]))
      else if op = 0x9d then
        bindE (pop_num2 s) (\<lambda>(a, b, s').
          if a \<noteq> b then invalid ''OP_NUMEQUALVERIFY failed'' else Inr s')
      else if op = 0x9e then bindE (pop_num2 s) (\<lambda>(a, b, s'). Inr (s' @ [num_bool (a \<noteq> b)]))
      else if op = 0x9f then
        bindE (pop_num2 s) (\<lambda>(a, b, s'). Inr (s' @ [num_bool (sint a < sint b)]))
      else if op = 0xa0 then
        bindE (pop_num2 s) (\<lambda>(a, b, s'). Inr (s' @ [num_bool (sint b < sint a)]))
      else if op = 0xa1 then
        bindE (pop_num2 s) (\<lambda>(a, b, s'). Inr (s' @ [num_bool (sint a \<le> sint b)]))
      else if op = 0xa2 then
        bindE (pop_num2 s) (\<lambda>(a, b, s'). Inr (s' @ [num_bool (sint b \<le> sint a)]))
      else if op = 0xa3 then
        bindE (pop_num2 s) (\<lambda>(a, b, s'). Inr (s' @ [encode_num (if sint b < sint a then b else a)]))
      else if op = 0xa4 then
        bindE (pop_num2 s) (\<lambda>(a, b, s'). Inr (s' @ [encode_num (if sint b < sint a then a else b)]))
      else if op = 0xa5 then
        bindE (pop_num s) (\<lambda>(mx, s'). bindE (pop_num2 s') (\<lambda>(x, mn, s'').
          Inr (s'' @ [num_bool (sint mn \<le> sint x \<and> sint x < sint mx)])))
      else invalid ''unknown tapscript opcode'')"

definition tap_crypto_op :: "script_crate \<Rightarrow> u8 \<Rightarrow> stack \<Rightarrow> stack run" where
  "tap_crypto_op S op s =
     bindE (stack_pop s) (\<lambda>(data, s').
       Inr (s' @ [if op = 0xa6 then ripemd160 S data
                  else if op = 0xa7 then sha1 S data
                  else if op = 0xa8 then sha256 S data
                  else if op = 0xa9 then hash160 S data
                  else hash256 S data]))"

definition tap_checklocktime :: "tap_ctx \<Rightarrow> stack \<Rightarrow> unit run" where
  "tap_checklocktime c s =
     (if s = [] then invalid ''empty stack for CLTV''
      else bindE (decode_num_bounded (last s) 5) (\<lambda>locktime.
        if sint locktime < 0 then invalid ''negative locktime''
        else let tx_locktime = ucast (tx_lock_time (tap_tx c)) :: u64;
                 script_is_time = (500000000 \<le> locktime);
                 tx_is_time = (500000000 \<le> tx_locktime)
             in if script_is_time \<noteq> tx_is_time then invalid ''CLTV: locktime type mismatch''
                else if tx_locktime < locktime then invalid ''CLTV: locktime > tx locktime''
                else bindE (index_at (tx_input (tap_tx c)) (tap_input_index c)) (\<lambda>inp.
                  if in_sequence inp = 0xffffffff then invalid ''CLTV: input sequence is final''
                  else Inr ())))"

definition tap_checksequence :: "tap_ctx \<Rightarrow> stack \<Rightarrow> unit run" where
  "tap_checksequence c s =
     (if s = [] then invalid ''empty stack for CSV''
      else bindE (decode_num_bounded (last s) 5) (\<lambda>n.
        if sint n < 0 then invalid ''negative sequence''
        else let sequence = ucast n :: u32 in
          if sequence AND push_bit 31 1 = 0 then
            bindE (index_at (tx_input (tap_tx c)) (tap_input_index c)) (\<lambda>inp.
              let tx_sequence = in_sequence inp;
                  script_is_time = (sequence AND push_bit 22 1 \<noteq> 0);
                  tx_is_time = (tx_sequence AND push_bit 22 1 \<noteq> 0);
                  script_value = sequence AND 0xffff;
                  tx_value = tx_sequence AND 0xffff
              in if tx_sequence AND push_bit 31 1 \<noteq> 0
                 then invalid ''CSV: tx sequence has disable flag''
                 else if script_is_time \<noteq> tx_is_time then invalid ''CSV: sequence type mismatch''
                 else if tx_value < script_value then invalid ''CSV: required > tx sequence''
                 else Inr ())
          else Inr ()))"

section \<open>Signature opcodes\<close>

record tap_state =
  tap_stack :: stack
  tap_alt :: stack
  tap_exec :: "bool list"
  sigops_budget :: i64
  tap_codesep :: u32
  opcode_pos :: u32

text \<open>
  The check all three signature opcodes share, on a signature that is not empty: 50 units of the
  budget, then an unknown key type counts as valid and a 32-byte key must verify.
\<close>

definition tap_sig_budget ::
    "script_crate \<Rightarrow> tap_ctx \<Rightarrow> string \<Rightarrow> bytes \<Rightarrow> bytes \<Rightarrow> tap_state \<Rightarrow> tap_state run" where
  "tap_sig_budget S c msg sig_data pubkey_data st =
     (let st' = st\<lparr>sigops_budget := sigops_budget st - 50\<rparr> in
      if sint (sigops_budget st') < 0 then invalid ''tapscript sigops budget exceeded''
      else if length pubkey_data \<noteq> 32 then Inr st'
      else if tapscript_check_sig S c sig_data pubkey_data (tap_codesep st) then Inr st'
      else invalid msg)"

definition tap_checksig :: "script_crate \<Rightarrow> tap_ctx \<Rightarrow> tap_state \<Rightarrow> tap_state run" where
  "tap_checksig S c st =
     bindE (stack_pop (tap_stack st)) (\<lambda>(pubkey_data, s').
     bindE (stack_pop s') (\<lambda>(sig_data, s'').
       if pubkey_data = [] then invalid ''tapscript: empty pubkey''
       else if sig_data = [] then Inr (st\<lparr>tap_stack := s'' @ [[]]\<rparr>)
       else bindE (tap_sig_budget S c ''OP_CHECKSIG: Schnorr signature verification failed''
                     sig_data pubkey_data st)
              (\<lambda>st'. Inr (st'\<lparr>tap_stack := s'' @ [[1]]\<rparr>))))"

definition tap_checksigverify :: "script_crate \<Rightarrow> tap_ctx \<Rightarrow> tap_state \<Rightarrow> tap_state run" where
  "tap_checksigverify S c st =
     bindE (stack_pop (tap_stack st)) (\<lambda>(pubkey_data, s').
     bindE (stack_pop s') (\<lambda>(sig_data, s'').
       if pubkey_data = [] then invalid ''tapscript: empty pubkey''
       else if sig_data = [] then invalid ''OP_CHECKSIGVERIFY failed: empty signature''
       else bindE (tap_sig_budget S c ''OP_CHECKSIGVERIFY failed in tapscript''
                     sig_data pubkey_data st)
              (\<lambda>st'. Inr (st'\<lparr>tap_stack := s''\<rparr>))))"

definition tap_checksigadd :: "script_crate \<Rightarrow> tap_ctx \<Rightarrow> tap_state \<Rightarrow> tap_state run" where
  "tap_checksigadd S c st =
     bindE (stack_pop (tap_stack st)) (\<lambda>(pubkey_data, s1).
     bindE (stack_pop s1) (\<lambda>(n_data, s2).
     bindE (stack_pop s2) (\<lambda>(sig_data, s3).
     bindE (decode_num n_data) (\<lambda>n.
       if pubkey_data = [] then invalid ''tapscript: empty pubkey''
       else if sig_data = [] then Inr (st\<lparr>tap_stack := s3 @ [encode_num n]\<rparr>)
       else bindE (tap_sig_budget S c ''OP_CHECKSIGADD: non-empty signature failed verification''
                     sig_data pubkey_data st)
              (\<lambda>st'. Inr (st'\<lparr>tap_stack := s3 @ [encode_num (n + 1)]\<rparr>))))))"

section \<open>The loop\<close>

definition tap_prescan_item :: "unit \<Rightarrow> string + instruction \<Rightarrow> unit run" where
  "tap_prescan_item u item =
     (case item of
        Inl e \<Rightarrow> invalid ''tapscript parse error''
      | Inr (PushBytes data) \<Rightarrow>
          if bip110_max_push_size < length data then invalid ''BIP-110: tapscript push exceeds limit''
          else Inr ()
      | Inr (Op op) \<Rightarrow>
          if is_tapscript_success_opcode op
          then invalid ''BIP-110: tapscript contains OP_SUCCESS opcode'' else Inr ())"

definition tap_flow_op :: "u8 \<Rightarrow> stack \<Rightarrow> bool list \<Rightarrow> (stack \<times> bool list) run option" where
  "tap_flow_op op s es =
     (if op = 0x63 then
        Some (if executing es
              then bindE (stack_pop s) (\<lambda>(v, s'). Inr (s', es @ [cast_to_bool v]))
              else Inr (s, es @ [False]))
      else if op = 0x64 then
        Some (if executing es
              then bindE (stack_pop s) (\<lambda>(v, s'). Inr (s', es @ [\<not> cast_to_bool v]))
              else Inr (s, es @ [False]))
      else if op = 0x67 then
        Some (if es = [] then invalid ''OP_ELSE without OP_IF''
              else Inr (s, butlast es @ [\<not> last es]))
      else if op = 0x68 then
        Some (if es = [] then invalid ''OP_ENDIF without OP_IF'' else Inr (s, butlast es))
      else None)"

definition tap_push :: "bytes \<Rightarrow> tap_state \<Rightarrow> tap_state run" where
  "tap_push data st =
     (if executing (tap_exec st) then
        (if max_script_element_size < length data then invalid ''push data size exceeds limit''
         else if max_stack_size < length (tap_stack st @ [data]) + length (tap_alt st)
           then invalid ''stack size exceeded''
         else Inr (st\<lparr>tap_stack := tap_stack st @ [data]\<rparr>))
      else Inr st)"

definition tap_opcode :: "script_crate \<Rightarrow> tap_ctx \<Rightarrow> u8 \<Rightarrow> tap_state \<Rightarrow> tap_state run" where
  "tap_opcode S c op st =
     (let s = tap_stack st in
      if op = 0xac then tap_checksig S c st
      else if op = 0xad then tap_checksigverify S c st
      else if op = 0xae \<or> op = 0xaf then invalid ''OP_CHECKMULTISIG disabled in tapscript''
      else if op = 0xba then tap_checksigadd S c st
      else if 0x87 \<le> op \<and> op \<le> 0xa5 then
        bindE (tap_arith_op op s) (\<lambda>s'. Inr (st\<lparr>tap_stack := s'\<rparr>))
      else if 0xa6 \<le> op \<and> op \<le> 0xaa then
        bindE (tap_crypto_op S op s) (\<lambda>s'. Inr (st\<lparr>tap_stack := s'\<rparr>))
      else if op = 0xab then Inr (st\<lparr>tap_codesep := opcode_pos st\<rparr>)
      else if op = 0x61 \<or> op = 0xb0 \<or> 0xb3 \<le> op \<and> op \<le> 0xb9 then Inr st
      else if op = 0xb1 then bindE (tap_checklocktime c s) (\<lambda>_. Inr st)
      else if op = 0xb2 then bindE (tap_checksequence c s) (\<lambda>_. Inr st)
      else bindE (tap_stack_op op s (tap_alt st)) (\<lambda>(s', a').
             Inr (st\<lparr>tap_stack := s', tap_alt := a'\<rparr>)))"

definition tap_check_size :: "tap_state \<Rightarrow> tap_state run" where
  "tap_check_size st =
     (if max_stack_size < length (tap_stack st) + length (tap_alt st)
      then invalid ''stack size exceeded'' else Inr st)"

text \<open>An opcode that is not an \<^verbatim>\<open>OP_SUCCESS\<close>.\<close>

definition tap_op :: "script_crate \<Rightarrow> tap_ctx \<Rightarrow> u8 \<Rightarrow> tap_state \<Rightarrow> tap_state run" where
  "tap_op S c op st =
     (if tap_bip110 c \<and> executing (tap_exec st) \<and> (op = 0x63 \<or> op = 0x64)
      then invalid ''BIP-110: tapscript executes OP_IF/OP_NOTIF''
      else case tap_flow_op op (tap_stack st) (tap_exec st) of
        Some r \<Rightarrow> bindE r (\<lambda>(s', es'). Inr (st\<lparr>tap_stack := s', tap_exec := es'\<rparr>))
      | None \<Rightarrow>
          if \<not> executing (tap_exec st) then Inr st
          else bindE (tap_opcode S c op st) tap_check_size)"

text \<open>The loop: an \<^verbatim>\<open>OP_SUCCESS\<close> returns the stack as it is, before the check of the nesting.\<close>

definition tap_next :: "tap_state \<Rightarrow> tap_state" where
  "tap_next st = st\<lparr>opcode_pos := opcode_pos st + 1\<rparr>"

fun tap_loop :: "script_crate \<Rightarrow> tap_ctx \<Rightarrow> tap_state \<Rightarrow> parsed \<Rightarrow> stack run" where
  "tap_loop S c st [] =
     (if tap_exec st \<noteq> [] then invalid ''unbalanced IF/ENDIF in tapscript'' else Inr (tap_stack st))"
| "tap_loop S c st (Inl e # is) = invalid ''tapscript parse error''"
| "tap_loop S c st (Inr (PushBytes data) # is) =
     bindE (tap_push data st) (\<lambda>st'. tap_loop S c (tap_next st') is)"
| "tap_loop S c st (Inr (Op op) # is) =
     (if is_tapscript_success_opcode op then Inr (tap_stack st)
      else bindE (tap_op S c op st) (\<lambda>st'. tap_loop S c (tap_next st') is))"

definition execute_tapscript :: "script_crate \<Rightarrow> tap_ctx \<Rightarrow> stack \<Rightarrow> stack run" where
  "execute_tapscript S c s =
     bindE (if tap_bip110 c then foldE tap_prescan_item () (instructions S (tap_script c)) else Inr ())
     (\<lambda>_. bindE (index_at (tx_input (tap_tx c)) (tap_input_index c)) (\<lambda>inp.
        tap_loop S c
          \<lparr>tap_stack = s, tap_alt = [], tap_exec = [],
           sigops_budget = 50 + of_nat (sum_list (map length (in_witness inp))),
           tap_codesep = 0xFFFFFFFF, opcode_pos = 0\<rparr>
          (instructions S (tap_script c))))"

end
