(* ===== verification/Script_Verify.thy ===== *)
theory Script_Verify
  imports Script_Tap
begin

text \<open>
  The verification of one transaction input, \<^verbatim>\<open>verify_script\<close> of \<^verbatim>\<open>bitcoinpr-core/src/script.rs\<close>, with
  its SegWit version 0 and taproot branches.
\<close>

definition verify_ecdsa_signature ::
    "script_crate \<Rightarrow> transaction \<Rightarrow> nat \<Rightarrow> u64 \<Rightarrow> bytes \<Rightarrow> bytes \<Rightarrow> unit run" where
  "verify_ecdsa_signature S tx input_index amount sig_bytes pubkey_bytes =
     (if sig_bytes = [] then invalid ''empty signature''
      else case public_key S pubkey_bytes of
        None \<Rightarrow> invalid ''invalid pubkey''
      | Some pubkey \<Rightarrow>
          (case sig_from_der S (butlast sig_bytes) of
             None \<Rightarrow> invalid ''invalid DER signature''
           | Some signature \<Rightarrow>
               (case p2wpkh_signature_hash S tx input_index (new_p2wpkh S (hash160 S pubkey_bytes))
                       amount (sighash_type_of S (ucast (last sig_bytes))) of
                  None \<Rightarrow> invalid ''sighash error''
                | Some sighash \<Rightarrow>
                    if verify_ecdsa S sighash signature pubkey then Inr ()
                    else invalid ''signature verification failed'')))"

definition top_true :: "stack \<Rightarrow> bool" where
  "top_true s \<longleftrightarrow> s \<noteq> [] \<and> cast_to_bool (last s)"

definition verify_witness_v0 ::
    "script_crate \<Rightarrow> transaction \<Rightarrow> nat \<Rightarrow> u64 \<Rightarrow> bytes \<Rightarrow> bytes list \<Rightarrow> bool \<Rightarrow> unit run" where
  "verify_witness_v0 S tx input_index amount prog witness enforce_bip110 =
     (if length prog = 20 then
        (if length witness \<noteq> 2 then invalid ''P2WPKH requires exactly 2 witness items''
         else let sig = witness ! 0; pubkey = witness ! 1 in
           bindE (if enforce_bip110 then bip110_check_witness_items [sig, pubkey] else Inr ()) (\<lambda>_.
             if hash160 S pubkey \<noteq> prog then invalid ''P2WPKH pubkey hash mismatch''
             else verify_ecdsa_signature S tx input_index amount sig pubkey))
      else if length prog = 32 then
        (if witness = [] then invalid ''P2WSH: empty witness''
         else let witness_script = last witness in
           if sha256 S witness_script \<noteq> prog then invalid ''P2WSH script hash mismatch''
           else
             bindE (if enforce_bip110 then bip110_check_witness_items (butlast witness) else Inr ()) (\<lambda>_.
             bindE (execute_script_segwit S witness_script (butlast witness) tx input_index amount
                      (flags_all\<lparr>verify_bip110 := enforce_bip110\<rparr>)) (\<lambda>s.
               if \<not> top_true s then invalid ''P2WSH script evaluation failed'' else Inr ())))
      else invalid ''invalid witness program length'')"

definition has_annex :: "bytes list \<Rightarrow> bool" where
  "has_annex witness \<longleftrightarrow> 2 \<le> length witness \<and> last witness \<noteq> [] \<and> hd (last witness) = 0x50"

text \<open>The script-path branch of a taproot spend; the items are the witness without its annex.\<close>

definition verify_tap_script_path ::
    "script_crate \<Rightarrow> transaction \<Rightarrow> nat \<Rightarrow> tx_out list \<Rightarrow> bytes \<Rightarrow> bytes list \<Rightarrow> bytes option \<Rightarrow> bool
       \<Rightarrow> unit run" where
  "verify_tap_script_path S tx input_index all_prevouts output_key items annex enforce_bip110 =
     (let n = length items; control = items ! (n - 1); script = items ! (n - 2) in
      if enforce_bip110 \<and> bip110_max_control_block_size < length control
      then invalid ''BIP-110: control block exceeds limit''
      else if \<not> control_block_ok S control then invalid ''invalid control block''
      else if \<not> verify_taproot_commitment S control output_key script
      then invalid ''Taproot script path merkle proof verification failed''
      else if is_tapscript_leaf S control then
        bindE (if enforce_bip110 then bip110_check_witness_items (take (n - 2) items) else Inr ()) (\<lambda>_.
        bindE (execute_tapscript S
                 \<lparr>tap_tx = tx, tap_input_index = input_index, tap_prevouts = all_prevouts,
                  tap_leaf = tap_leaf_hash S script, tap_annex = annex,
                  tap_bip110 = enforce_bip110, tap_script = script\<rparr>
                 (take (n - 2) items)) (\<lambda>s.
          if \<not> top_true s then invalid ''Tapscript evaluation failed'' else Inr ()))
      else if enforce_bip110 then invalid ''BIP-110: spending undefined Tapleaf version''
      else Inr ())"

definition verify_witness_v1 ::
    "script_crate \<Rightarrow> transaction \<Rightarrow> nat \<Rightarrow> tx_out list \<Rightarrow> bytes \<Rightarrow> bytes list \<Rightarrow> bool \<Rightarrow> unit run" where
  "verify_witness_v1 S tx input_index all_prevouts prog witness enforce_bip110 =
     (if witness = [] then invalid ''Taproot: empty witness''
      else if enforce_bip110 \<and> has_annex witness then invalid ''BIP-110: Taproot annex is invalid''
      else
        let items = (if has_annex witness then butlast witness else witness) in
        bindE (if has_annex witness
               then (case annex_new S (last witness) of
                       None \<Rightarrow> invalid ''invalid annex'' | Some a \<Rightarrow> Inr (Some a))
               else Inr None) (\<lambda>annex.
        case x_only_public_key S prog of
          None \<Rightarrow> invalid ''invalid taproot output key''
        | Some output_key \<Rightarrow>
            if length items = 1 then
              bindE (if enforce_bip110 then bip110_check_witness_items [items ! 0] else Inr ()) (\<lambda>_.
                verify_taproot_key_spend S tx input_index all_prevouts output_key (items ! 0) annex)
            else verify_tap_script_path S tx input_index all_prevouts output_key items annex
                   enforce_bip110))"

text \<open>The redeem script of a P2SH spend: \<open>Inr True\<close> when a witness program was found in it and
  accepted, so that the caller returns at once.\<close>

definition verify_p2sh_spend ::
    "script_crate \<Rightarrow> transaction \<Rightarrow> nat \<Rightarrow> u64 \<Rightarrow> script_flags \<Rightarrow> bytes \<Rightarrow> bytes list \<Rightarrow> stack
       \<Rightarrow> bool run" where
  "verify_p2sh_spend S tx input_index amount flags spk witness saved_stack =
     (let redeem = last saved_stack in
      if hash160 S redeem \<noteq> take 20 (drop 2 spk) then invalid ''P2SH hash mismatch''
      else case (if verify_witness flags then parse_witness_program redeem else None) of
        Some (version, prog) \<Rightarrow>
          if version = 0
          then bindE (verify_witness_v0 S tx input_index amount prog witness (verify_bip110 flags))
                 (\<lambda>_. Inr True)
          else if verify_bip110 flags \<and> \<not> (version = 1 \<and> prog = p2a_witness_program)
            then invalid ''BIP-110: spending undefined witness version''
          else Inr True
      | None \<Rightarrow>
          bindE (execute_script S redeem (butlast saved_stack) tx input_index amount flags) (\<lambda>s.
            if \<not> top_true s then invalid ''P2SH script evaluation failed'' else Inr False))"

text \<open>A native witness program.\<close>

definition verify_witness_program ::
    "script_crate \<Rightarrow> transaction \<Rightarrow> nat \<Rightarrow> tx_out list \<Rightarrow> u64 \<Rightarrow> script_flags \<Rightarrow> tx_in \<Rightarrow> u8 \<Rightarrow> bytes
       \<Rightarrow> unit run" where
  "verify_witness_program S tx input_index all_prevouts amount flags inp version prog =
     (if script_sig inp \<noteq> [] then invalid ''witness malleated''
      else if version = 0
      then verify_witness_v0 S tx input_index amount prog (in_witness inp) (verify_bip110 flags)
      else if version = 1 \<and> verify_taproot flags \<and> length prog = 32
      then verify_witness_v1 S tx input_index all_prevouts prog (in_witness inp) (verify_bip110 flags)
      else if verify_bip110 flags \<and> \<not> (version = 1 \<and> prog = p2a_witness_program)
      then invalid ''BIP-110: spending undefined witness version''
      else Inr ())"

text \<open>A script that is not a witness program.\<close>

definition verify_legacy ::
    "script_crate \<Rightarrow> transaction \<Rightarrow> nat \<Rightarrow> u64 \<Rightarrow> script_flags \<Rightarrow> tx_in \<Rightarrow> bytes \<Rightarrow> unit run" where
  "verify_legacy S tx input_index amount flags inp spk =
     (let p2sh_spend = (verify_p2sh flags \<and> is_p2sh spk) in
      bindE (if verify_bip110 flags then bip110_check_pushes S (script_sig inp) p2sh_spend else Inr ()) (\<lambda>_.
      bindE (execute_script S (script_sig inp) [] tx input_index amount
               (flags\<lparr>verify_bip110 := False\<rparr>)) (\<lambda>saved.
      bindE (execute_script S spk saved tx input_index amount flags) (\<lambda>s.
        if \<not> top_true s then invalid ''script evaluation failed''
        else
          bindE (if p2sh_spend \<and> saved \<noteq> []
                 then verify_p2sh_spend S tx input_index amount flags spk (in_witness inp) saved
                 else Inr False) (\<lambda>done.
            if \<not> done \<and> verify_witness flags \<and> in_witness inp \<noteq> []
            then invalid ''witness unexpected'' else Inr ())))))"

definition verify_script ::
    "script_crate \<Rightarrow> transaction \<Rightarrow> nat \<Rightarrow> tx_out list \<Rightarrow> script_flags \<Rightarrow> unit run" where
  "verify_script S tx input_index all_prevouts flags =
     bindE (index_at all_prevouts input_index) (\<lambda>prev_output.
     bindE (index_at (tx_input tx) input_index) (\<lambda>inp.
       case (if verify_witness flags then parse_witness_program (script_pubkey prev_output) else None) of
         Some (version, prog) \<Rightarrow>
           verify_witness_program S tx input_index all_prevouts (out_value prev_output) flags inp
             version prog
       | None \<Rightarrow>
           verify_legacy S tx input_index (out_value prev_output) flags inp
             (script_pubkey prev_output)))"

end
