(* ===== verification/Script_Num.thy ===== *)
theory Script_Num
  imports Script_Base
begin

unbundle bit_operations_syntax

text \<open>
  Script numbers: the value of a byte string in sign-and-magnitude form, the loops of
  \<^verbatim>\<open>decode_num_bounded\<close> and \<^verbatim>\<open>encode_num\<close> against it, and the truth value of a stack element.
\<close>

section \<open>Disjoint bits\<close>

lemma pow256: "(256 :: nat) ^ n = 2 ^ (8 * n)"
  by (simp add: power_mult)

lemma or_push_bit_nat:
  fixes a b :: nat
  assumes "a < 2 ^ n"
  shows "a OR push_bit n b = a + 2 ^ n * b"
proof -
  have a: "take_bit n a = a" using assms by (simp add: take_bit_nat_eq_self)
  have "a + push_bit n b = a OR push_bit n b"
  proof (rule disjunctive_add)
    fix m
    show "\<not> bit a m \<or> \<not> bit (push_bit n b) m"
      using arg_cong [OF a, of "\<lambda>x. bit x m"] by (auto simp: bit_take_bit_iff bit_push_bit_iff)
  qed
  then show ?thesis by (simp add: push_bit_eq_mult ac_simps)
qed

lemma top_bit_iff: "b AND 0x80 \<noteq> 0 \<longleftrightarrow> 128 \<le> unat (b :: u8)"
proof -
  have "b AND 0x80 \<noteq> 0 \<longleftrightarrow> bit b 7"
    using and_exp_eq_0_iff_not_bit [of b 7] by simp
  also have "\<dots> \<longleftrightarrow> odd (unat b div 128)"
  proof -
    have "bit (unat b) 7 \<longleftrightarrow> bit b 7" by (simp add: bit_unsigned_iff)
    then show ?thesis by (simp add: bit_iff_odd [of "unat b"])
  qed
  also have "\<dots> \<longleftrightarrow> 128 \<le> unat b"
  proof -
    have "unat b div 128 < 2" using unat_u8_lt [of b] by (simp add: div_less_iff_less_mult)
    then have "odd (unat b div 128) \<longleftrightarrow> unat b div 128 \<noteq> 0" by (auto simp: less_2_cases_iff)
    then show ?thesis by (simp add: div_eq_0_iff not_less)
  qed
  finally show ?thesis .
qed

lemma unat_and_7f: "unat (b AND 0x7f :: u8) = unat b mod 128"
proof -
  have "(0x7f :: u8) = mask 7" by (simp add: mask_eq_exp_minus_1)
  then have "b AND 0x7f = take_bit 7 b" by (simp only: take_bit_eq_mask)
  then show ?thesis by (simp add: take_bit_eq_mod unat_mod)
qed

lemma unat_or_80: "unat (b :: u8) < 128 \<Longrightarrow> unat (b OR 0x80) = unat b + 128"
  using or_push_bit_nat [of "unat b" 7 1] by (simp add: unsigned_or_eq push_bit_eq_mult)

section \<open>The value of a script number\<close>

definition num_val :: "bytes \<Rightarrow> int" where
  "num_val bs =
     (if bs = [] then 0
      else let m = int (le_val (butlast bs) + 256 ^ (length bs - 1) * (unat (last bs) mod 128))
           in if 128 \<le> unat (last bs) then - m else m)"

lemma num_val_snoc:
  "num_val (xs @ [b]) =
     (if 128 \<le> unat b then - 1 else 1) * int (le_val xs + 256 ^ length xs * (unat b mod 128))"
  by (simp add: num_val_def Let_def)

lemma le_val_snoc: "le_val (xs @ [b]) = le_val xs + 256 ^ length xs * unat b"
  by (simp add: le_val_append)

lemma magnitude_bound:
  "le_val xs + 256 ^ length xs * (unat (b :: u8) mod 128) < 2 ^ (8 * length xs + 7)"
proof -
  have "le_val xs + 256 ^ length xs * (unat b mod 128) < 256 ^ length xs * (unat b mod 128 + 1)"
    using le_val_bound [of xs] by simp
  also have "\<dots> \<le> 256 ^ length xs * 128"
    by (intro mult_le_mono2) (simp add: Suc_le_eq)
  also have "\<dots> = 2 ^ (8 * length xs + 7)"
    by (simp add: pow256 power_add)
  finally show ?thesis .
qed

lemma num_val_magnitude: "bs \<noteq> [] \<Longrightarrow> \<bar>num_val bs\<bar> < 2 ^ (8 * length bs - 1)"
proof (induction bs rule: rev_induct)
  case (snoc b xs)
  have "int (le_val xs + 256 ^ length xs * (unat b mod 128)) < int (2 ^ (8 * length xs + 7))"
    using magnitude_bound by (simp only: of_nat_less_iff)
  moreover have "8 * length (xs @ [b]) - 1 = 8 * length xs + 7" by simp
  ultimately show ?case
    by (cases "128 \<le> unat b") (simp_all add: num_val_snoc abs_mult add.commute [of 7] del: of_nat_add of_nat_mult)
qed simp

section \<open>Decoding\<close>

lemma decode_loop_value:
  "\<lbrakk>unat r < 256 ^ i; i + length bs \<le> 8\<rbrakk>
     \<Longrightarrow> unat (decode_loop i r bs) = unat r + 256 ^ i * le_val bs"
proof (induction bs arbitrary: i r)
  case (Cons b bs)
  let ?r' = "r OR push_bit (8 * i) (ucast b)"
  have i: "i < 8" using Cons.prems by simp
  have bound: "unat r + 256 ^ i * unat b < 256 ^ Suc i"
  proof -
    have "unat r + 256 ^ i * unat b < 256 ^ i * (unat b + 1)" using Cons.prems by simp
    also have "\<dots> \<le> 256 ^ i * 256" using unat_u8_lt [of b] by (intro mult_le_mono2) linarith
    finally show ?thesis by simp
  qed
  have "(256 :: nat) ^ Suc i \<le> 256 ^ 8" using i by (intro power_increasing) simp_all
  then have "unat b * 2 ^ (8 * i) < 2 ^ 64"
    using bound by (simp add: pow256 mult.commute)
  then have "take_bit 64 (push_bit (8 * i) (unat b)) = push_bit (8 * i) (unat b)"
    by (simp add: push_bit_eq_mult take_bit_nat_eq_self)
  moreover have "take_bit 64 (unat b) = unat b"
    by (rule take_bit_nat_eq_self, rule less_trans [OF unat_u8_lt]) simp
  ultimately have "unat ?r' = unat r OR push_bit (8 * i) (unat b)"
    by (simp add: unsigned_or_eq unsigned_push_bit_eq unsigned_ucast_eq)
  also have "\<dots> = unat r + 256 ^ i * unat b"
    using or_push_bit_nat [of "unat r" "8 * i" "unat b"] Cons.prems(1) by (simp add: pow256)
  finally have r': "unat ?r' = unat r + 256 ^ i * unat b" .
  have "unat (decode_loop (Suc i) ?r' bs) = unat ?r' + 256 ^ Suc i * le_val bs"
    using Cons.IH [of ?r' "Suc i"] bound Cons.prems by (simp add: r')
  then show ?case by (simp add: r' distrib_left)
qed simp

lemma decode_result:
  assumes "data \<noteq> []" and "length data \<le> 8"
  shows "unat (decode_loop 0 0 data) = le_val data"
  using decode_loop_value [of 0 0 data] assms by simp

text \<open>Removing the sign bit subtracts it.\<close>

lemma clear_bit_value:
  fixes w :: u64
  assumes "bit w n"
  shows "unat (w AND NOT (push_bit n 1)) = unat w - 2 ^ n"
proof -
  have n: "n < 64" using assms bit_imp_le_length [OF assms] by simp
  let ?c = "w AND NOT (push_bit n 1)"
  have "?c + push_bit n 1 = ?c OR push_bit n 1"
    by (rule disjunctive_add) (auto simp: bit_simps)
  also have "\<dots> = w"
    by (rule bit_eqI) (use assms in \<open>auto simp: bit_simps\<close>)
  finally have w: "?c = w - push_bit n 1" by (simp add: eq_diff_eq)
  have p: "unat (push_bit n 1 :: u64) = 2 ^ n"
    using n unsigned_push_bit_eq [of n "1 :: u64", where ?'a = nat]
    by (simp add: push_bit_eq_mult take_bit_nat_eq_self)
  have "bit (unat w) n" using assms by (simp add: bit_unsigned_iff)
  then have "2 ^ n \<le> unat w" by (metis bit_iff_odd div_less even_zero not_le)
  then have "push_bit n 1 \<le> w" unfolding word_le_nat_alt p .
  then show ?thesis by (simp only: w unat_sub p)
qed

lemma num_val_word:
  assumes "unat (w :: u64) = m"
  shows "w = word_of_int (int m)" and "- w = word_of_int (- int m)"
proof -
  show *: "w = word_of_int (int m)"
    by (simp add: assms [symmetric])
  show "- w = word_of_int (- int m)" by (subst *) (simp only: wi_hom_neg)
qed

lemma sign_bit:
  assumes "m < 2 ^ k" and "unat (w :: u64) = m + 2 ^ k"
  shows "bit w k" and "unat (w AND NOT (push_bit k 1)) = m"
proof -
  have "(m + 2 ^ k) div 2 ^ k = Suc 0" using assms(1) by (simp add: div_add_self2)
  then have "bit (unat w) k" by (simp add: bit_iff_odd assms(2))
  then show *: "bit w k" by (simp add: bit_unsigned_iff)
  show "unat (w AND NOT (push_bit k 1)) = m"
    using clear_bit_value [OF *] assms(2) by simp
qed

lemma decode_num_bounded_value:
  assumes "max_size \<le> 8"
  shows "decode_num_bounded data max_size =
     (if max_size < length data then invalid ''number too large''
      else Inr (word_of_int (num_val data)))"
proof (cases "data = [] \<or> max_size < length data")
  case True
  then show ?thesis by (auto simp: decode_num_bounded_def num_val_def)
next
  case False
  then obtain xs b where data: "data = xs @ [b]" by (metis rev_exhaust)
  let ?n = "length xs" and ?r = "decode_loop 0 0 data"
  let ?m = "le_val xs + 256 ^ ?n * (unat b mod 128)"
  have r: "unat ?r = le_val xs + 256 ^ ?n * unat b"
    using decode_result [of data] False assms by (simp add: data le_val_snoc)
  show ?thesis
  proof (cases "128 \<le> unat b")
    case pos: False
    then have "unat ?r = ?m" using r by simp
    then have "?r = word_of_int (num_val data)"
      using num_val_word(1) [of ?r ?m] pos by (simp only: data num_val_snoc if_False mult_1)
    then show ?thesis
      using False pos top_bit_iff [of b] by (simp add: decode_num_bounded_def data)
  next
    case neg: True
    have "unat b - 128 < 128" using unat_u8_lt [of b] by linarith
    then have "unat b mod 128 = unat b - 128" using neg by (simp add: le_mod_geq)
    with neg have b: "unat b = unat b mod 128 + 128" by linarith
    have "unat ?r = ?m + 2 ^ (8 * ?n + 7)"
    proof -
      have "256 ^ ?n * (unat b mod 128 + 128) = 256 ^ ?n * (unat b mod 128) + 2 ^ (8 * ?n + 7)"
        by (simp add: pow256 power_add distrib_left)
      then show ?thesis by (subst r, subst b) linarith
    qed
    moreover have "?m < 2 ^ (8 * ?n + 7)" by (rule magnitude_bound)
    ultimately have c: "unat (?r AND NOT (push_bit (8 * ?n + 7) 1)) = ?m"
      by (rule sign_bit(2) [rotated])
    have "push_bit (8 * ?n) (0x80 :: i64) = push_bit (8 * ?n + 7) 1"
      by (simp add: push_bit_eq_mult power_add)
    then have "- (?r AND NOT (push_bit (8 * ?n) 0x80)) = word_of_int (num_val data)"
      using num_val_word(2) [OF c] neg by (simp only: data num_val_snoc if_True mult_minus1)
    then show ?thesis
      using False neg top_bit_iff [of b] by (simp add: decode_num_bounded_def data)
  qed
qed

section \<open>Encoding\<close>

lemma unsigned_abs:
  fixes v :: i64
  shows "unat (if sint v < 0 then - v else v) = nat \<bar>sint v\<bar>"
proof (cases "sint v < 0")
  case True
  have "uint (- v) = (- uint v) mod 2 ^ 64" by (simp add: uint_word_ariths)
  also have "\<dots> = (- sint v) mod 2 ^ 64"
    by (simp add: uint_sint take_bit_eq_mod mod_minus_eq)
  also have "\<dots> = - sint v"
    using True sint_ge [of v] by (intro mod_pos_pos_trivial) simp_all
  finally show ?thesis using True by (simp add: unat_eq_nat_uint)
next
  case False
  have "uint v = sint v mod 2 ^ 64" by (simp add: uint_sint take_bit_eq_mod)
  also have "\<dots> = sint v"
    using False sint_lt [of v] by (intro mod_pos_pos_trivial) simp_all
  finally show ?thesis using False by (simp add: unat_eq_nat_uint)
qed

lemma ucast_low_byte: "unat (ucast (v AND 0xff) :: u8) = unat (v :: u64) mod 256"
proof -
  have "(0xff :: u64) = mask 8" by (simp add: mask_eq_exp_minus_1)
  then have "v AND 0xff = take_bit 8 v" by (simp only: take_bit_eq_mask)
  then show ?thesis by (simp add: unsigned_ucast_eq take_bit_eq_mod unat_mod)
qed

lemma unat_shift_byte: "unat (drop_bit 8 (v :: u64)) = unat v div 256"
  by (simp add: drop_bit_eq_div unat_div)

lemma le_val_encode_loop: "le_val (encode_loop v) = unat v"
proof (induction v rule: encode_loop.induct)
  case (1 v)
  show ?case
    by (subst encode_loop.simps) (simp add: 1 ucast_low_byte unat_shift_byte)
qed

lemma encode_loop_Nil [simp]: "encode_loop v = [] \<longleftrightarrow> v = 0"
  by (subst encode_loop.simps) simp

lemma last_encode_loop: "v \<noteq> 0 \<Longrightarrow> last (encode_loop v) \<noteq> 0"
proof (induction v rule: encode_loop.induct)
  case (1 v)
  show ?case
  proof (cases "drop_bit 8 v = 0")
    case True
    then have "unat v div 256 = 0" using unat_shift_byte [of v] by simp
    then have "unat v mod 256 \<noteq> 0" using \<open>v \<noteq> 0\<close> by (simp add: div_eq_0_iff unat_eq_zero)
    then have "ucast (v AND 0xff) \<noteq> (0 :: u8)" using ucast_low_byte [of v] by auto
    then show ?thesis using True \<open>v \<noteq> 0\<close> by (subst encode_loop.simps) simp
  next
    case False
    then show ?thesis using 1 by (subst encode_loop.simps) simp
  qed
qed

lemma encode_num_cases:
  assumes "v \<noteq> 0"
  obtains xs b where "le_val (xs @ [b]) = nat \<bar>sint v\<bar>" and "b \<noteq> 0"
    and "encode_num v =
       (if 128 \<le> unat b then xs @ [b, if sint v < 0 then 0x80 else 0x00]
        else xs @ [if sint v < 0 then b OR 0x80 else b])"
proof -
  define a where "a = (if sint v < 0 then - v else v)"
  have "a \<noteq> 0" using assms by (simp add: a_def)
  obtain xs b where r: "encode_loop a = xs @ [b]"
    using \<open>a \<noteq> 0\<close> by (cases "encode_loop a" rule: rev_cases) simp_all
  have "le_val (xs @ [b]) = nat \<bar>sint v\<bar>"
    using le_val_encode_loop [of a] unsigned_abs [of v, folded a_def] by (simp only: r)
  moreover have "b \<noteq> 0" using last_encode_loop [OF \<open>a \<noteq> 0\<close>] by (simp add: r)
  moreover have "encode_num v =
       (if 128 \<le> unat b then xs @ [b, if sint v < 0 then 0x80 else 0x00]
        else xs @ [if sint v < 0 then b OR 0x80 else b])"
    unfolding encode_num_def Let_def a_def [symmetric] r using assms top_bit_iff [of b] by simp
  ultimately show ?thesis by (rule that)
qed

lemma num_val_encode_num: "num_val (encode_num v) = sint v"
proof (cases "v = 0")
  case True
  then show ?thesis by (simp add: encode_num_def num_val_def)
next
  case False
  then obtain xs b where m: "le_val (xs @ [b]) = nat \<bar>sint v\<bar>" and e: "encode_num v =
       (if 128 \<le> unat b then xs @ [b, if sint v < 0 then 0x80 else 0x00]
        else xs @ [if sint v < 0 then b OR 0x80 else b])" by (rule encode_num_cases)
  show ?thesis
  proof (cases "128 \<le> unat b")
    case True
    let ?d = "if sint v < 0 then 0x80 else 0x00 :: u8"
    have "encode_num v = (xs @ [b]) @ [?d]" using e True by simp
    moreover have "num_val ((xs @ [b]) @ [?d]) = (if 128 \<le> unat ?d then - 1 else 1) * \<bar>sint v\<bar>"
      by (subst num_val_snoc, subst m) simp
    moreover have "128 \<le> unat ?d \<longleftrightarrow> sint v < 0" by simp
    ultimately show ?thesis by simp
  next
    case False
    let ?d = "if sint v < 0 then b OR 0x80 else b"
    have "encode_num v = xs @ [?d]" using e False by simp
    moreover have "num_val (xs @ [?d]) =
        (if 128 \<le> unat ?d then - 1 else 1) * int (le_val xs + 256 ^ length xs * (unat ?d mod 128))"
      by (rule num_val_snoc)
    moreover have "(128 \<le> unat ?d) = (sint v < 0)" "unat ?d mod 128 = unat b"
      using False unat_or_80 [of b] by simp_all
    moreover have "int (le_val xs + 256 ^ length xs * unat b) = \<bar>sint v\<bar>"
      using m by (simp only: le_val_snoc)
    ultimately show ?thesis by (simp only:) (simp add: abs_if)
  qed
qed

lemma encode_num_minimal:
  assumes "1 < length (encode_num v)"
  shows "2 ^ (8 * (length (encode_num v) - 1) - 1) \<le> \<bar>sint v\<bar>"
proof -
  have "v \<noteq> 0" using assms by (auto simp: encode_num_def)
  then obtain xs b where m: "le_val (xs @ [b]) = nat \<bar>sint v\<bar>" and "b \<noteq> 0" and e: "encode_num v =
       (if 128 \<le> unat b then xs @ [b, if sint v < 0 then 0x80 else 0x00]
        else xs @ [if sint v < 0 then b OR 0x80 else b])" by (rule encode_num_cases)
  have "2 ^ (8 * (length (encode_num v) - 1) - 1) \<le> 256 ^ length xs * unat b"
  proof (cases "128 \<le> unat b")
    case True
    have "2 ^ (8 * (length (encode_num v) - 1) - 1) = 256 ^ length xs * (128 :: nat)"
      using e True by (simp add: pow256 power_add)
    also have "\<dots> \<le> 256 ^ length xs * unat b" using True by (rule mult_le_mono2)
    finally show ?thesis .
  next
    case False
    then have "2 ^ (8 * (length (encode_num v) - 1) - 1) \<le> (2 :: nat) ^ (8 * length xs)"
      using e by (intro power_increasing) simp_all
    also have "\<dots> = 256 ^ length xs * 1" by (simp add: pow256)
    also have "\<dots> \<le> 256 ^ length xs * unat b"
      using \<open>b \<noteq> 0\<close> by (intro mult_le_mono2) (simp add: Suc_le_eq unat_gt_0)
    finally show ?thesis .
  qed
  then have "2 ^ (8 * (length (encode_num v) - 1) - 1) \<le> nat \<bar>sint v\<bar>"
    using m by (simp only: le_val_snoc)
  then show ?thesis by (simp add: le_nat_iff)
qed

lemma length_encode_num_iff:
  assumes "0 < n"
  shows "length (encode_num v) \<le> n \<longleftrightarrow> \<bar>sint v\<bar> < 2 ^ (8 * n - 1)"
proof
  assume *: "length (encode_num v) \<le> n"
  show "\<bar>sint v\<bar> < 2 ^ (8 * n - 1)"
  proof (cases "encode_num v = []")
    case True
    then show ?thesis using num_val_encode_num [of v] by (simp add: num_val_def)
  next
    case False
    have "(2 :: int) ^ (8 * length (encode_num v) - 1) \<le> 2 ^ (8 * n - 1)"
      using * by (intro power_increasing) simp_all
    then show ?thesis
      using num_val_magnitude [OF False] by (simp only: num_val_encode_num)
  qed
next
  assume *: "\<bar>sint v\<bar> < 2 ^ (8 * n - 1)"
  show "length (encode_num v) \<le> n"
  proof (rule ccontr)
    assume "\<not> length (encode_num v) \<le> n"
    then have l: "n \<le> length (encode_num v) - 1" "1 < length (encode_num v)" using assms by simp_all
    have "(2 :: int) ^ (8 * n - 1) \<le> 2 ^ (8 * (length (encode_num v) - 1) - 1)"
      using l(1) by (intro power_increasing) simp_all
    then show False using encode_num_minimal [OF l(2)] * by linarith
  qed
qed

lemma length_encode_num_le: "length (encode_num v) \<le> 9"
proof -
  have "\<bar>sint v\<bar> \<le> 2 ^ 63" using sint_ge [of v] sint_lt [of v] by simp
  then show ?thesis by (simp add: length_encode_num_iff)
qed

section \<open>Truth values\<close>

lemma num_val_zero_iff: "num_val (xs @ [c]) = 0 \<longleftrightarrow> le_val xs = 0 \<and> unat c mod 128 = 0"
  by (simp add: num_val_snoc del: of_nat_add of_nat_mult)

lemma byte_mod_128: "unat (b :: u8) mod 128 = 0 \<longleftrightarrow> b = 0 \<or> b = 0x80"
proof
  assume "unat b mod 128 = 0"
  then obtain q where q: "unat b = 128 * q" by (metis mod_0_imp_dvd dvdE)
  then have "q = 0 \<or> q = 1" using unat_u8_lt [of b] by linarith
  then have "unat b = unat (0 :: u8) \<or> unat b = unat (0x80 :: u8)" using q by auto
  then show "b = 0 \<or> b = 0x80" by (simp only: word_unat_eq_iff)
qed auto

lemma cast_to_bool_num_val: "cast_to_bool bs \<longleftrightarrow> num_val bs \<noteq> 0"
proof (induction bs)
  case (Cons b bs)
  show ?case
  proof (cases bs rule: rev_cases)
    case Nil
    then show ?thesis using num_val_zero_iff [of "[]" b] byte_mod_128 [of b] by auto
  next
    case (snoc ys c)
    have "num_val (b # bs) = 0 \<longleftrightarrow> le_val (b # ys) = 0 \<and> unat c mod 128 = 0"
      using num_val_zero_iff [of "b # ys" c] by (simp add: snoc)
    also have "\<dots> \<longleftrightarrow> b = 0 \<and> num_val bs = 0"
      using num_val_zero_iff [of ys c] by (auto simp: snoc unat_eq_zero)
    finally show ?thesis using Cons.IH snoc by auto
  qed
qed (simp add: num_val_def)

section \<open>The round trip\<close>

text \<open>
  C23: encoding a 64-bit number as a script number and decoding it with a limit of \<open>n\<close> bytes gives
  the number back exactly when its magnitude fits in \<open>8n - 1\<close> bits, and the size error otherwise;
  the encoded number is a true stack element exactly when it is not zero.
\<close>

theorem script_number_round_trip:
  assumes "0 < n" and "n \<le> 8"
  shows "decode_num_bounded (encode_num v) n =
      (if \<bar>sint v\<bar> < 2 ^ (8 * n - 1) then Inr v else invalid ''number too large'')
    \<and> (cast_to_bool (encode_num v) \<longleftrightarrow> v \<noteq> 0)"
proof
  show "decode_num_bounded (encode_num v) n =
      (if \<bar>sint v\<bar> < 2 ^ (8 * n - 1) then Inr v else invalid ''number too large'')"
    using length_encode_num_iff [OF assms(1), of v]
    unfolding decode_num_bounded_value [OF assms(2)] num_val_encode_num
    by (cases "length (encode_num v) \<le> n") simp_all
  show "cast_to_bool (encode_num v) \<longleftrightarrow> v \<noteq> 0"
    using signed_word_eqI [of v 0] by (auto simp: cast_to_bool_num_val num_val_encode_num)
qed

theorem script_number_round_trip_witness:
  "decode_num_bounded (encode_num (- 255)) 4 = Inr (- 255) \<and> cast_to_bool (encode_num (- 255))
   \<and> decode_num_bounded (encode_num 2147483648) 4 = invalid ''number too large''"
  using script_number_round_trip [of 4 "- 255"] script_number_round_trip [of 4 2147483648] by simp

end
