(* ===== verification/Script_Safety.thy ===== *)
theory Script_Safety
  imports Script_Verify Script_Num
begin

text \<open>
  Safety of the interpreters: from a well-sized stack every run keeps elements and stack within
  their limits, and no run panics. A predicate transformer on results carries the proofs: its rules
  follow the shape of the code.
\<close>

section \<open>Runs without a panic\<close>

definition runs :: "('a \<Rightarrow> bool) \<Rightarrow> 'a run \<Rightarrow> bool" where
  "runs P r = (case r of Inl e \<Rightarrow> e \<noteq> Panic | Inr x \<Rightarrow> P x)"

named_theorems runs_rules

lemma runs_Inr [runs_rules]: "runs P (Inr x) \<longleftrightarrow> P x"
  by (simp add: runs_def)

lemma runs_invalid [runs_rules]: "runs P (invalid msg)"
  by (simp add: runs_def)

lemma runs_bind [runs_rules]: "runs P (bindE m f) \<longleftrightarrow> runs (\<lambda>x. runs P (f x)) m"
  by (cases m) (simp_all add: runs_def)

lemma runs_if [runs_rules]:
  "runs P (if c then a else b) \<longleftrightarrow> (c \<longrightarrow> runs P a) \<and> (\<not> c \<longrightarrow> runs P b)"
  by simp

lemma runs_mono: "runs P r \<Longrightarrow> (\<And>x. P x \<Longrightarrow> Q x) \<Longrightarrow> runs Q r"
  by (auto simp: runs_def split: sum.splits)

lemma runs_stack_pop [runs_rules]: "runs P (stack_pop s) \<longleftrightarrow> (s \<noteq> [] \<longrightarrow> P (last s, butlast s))"
  by (simp add: stack_pop_def runs_rules)

lemma runs_decode_num_bounded [runs_rules]:
  "n \<le> 8 \<Longrightarrow> runs P (decode_num_bounded d n) \<longleftrightarrow> (length d \<le> n \<longrightarrow> P (word_of_int (num_val d)))"
  by (auto simp: decode_num_bounded_value runs_rules)

lemma runs_decode_num [runs_rules]:
  "runs P (decode_num d) \<longleftrightarrow> (length d \<le> 4 \<longrightarrow> P (word_of_int (num_val d)))"
  by (simp add: decode_num_def runs_rules)

lemma runs_pop_num [runs_rules]:
  "runs P (pop_num s) \<longleftrightarrow>
     (s \<noteq> [] \<longrightarrow> length (last s) \<le> 4 \<longrightarrow> P (word_of_int (num_val (last s)), butlast s))"
  by (simp add: pop_num_def runs_rules)

lemma runs_pop_num2 [runs_rules]:
  "runs P (pop_num2 s) \<longleftrightarrow>
     (s \<noteq> [] \<longrightarrow> length (last s) \<le> 4 \<longrightarrow> butlast s \<noteq> [] \<longrightarrow> length (last (butlast s)) \<le> 4 \<longrightarrow>
      P (word_of_int (num_val (last (butlast s))), word_of_int (num_val (last s)),
         butlast (butlast s)))"
  by (simp add: pop_num2_def runs_rules)

section \<open>Element sizes\<close>

definition elems :: "nat \<Rightarrow> stack \<Rightarrow> bool" where
  "elems B s \<longleftrightarrow> (\<forall>x \<in> set s. length x \<le> B)"

lemma elems_Nil [simp]: "elems B []"
  and elems_Cons [simp]: "elems B (x # s) \<longleftrightarrow> length x \<le> B \<and> elems B s"
  and elems_append [simp]: "elems B (s @ t) \<longleftrightarrow> elems B s \<and> elems B t"
  by (auto simp: elems_def)

lemma elems_butlast: "elems B s \<Longrightarrow> elems B (butlast s)"
  by (auto simp: elems_def dest: in_set_butlastD)

lemma elems_take: "elems B s \<Longrightarrow> elems B (take n s)"
  by (auto simp: elems_def dest: in_set_takeD)

lemma elems_drop: "elems B s \<Longrightarrow> elems B (drop n s)"
  by (auto simp: elems_def dest: in_set_dropD)

lemma elems_nth: "elems B s \<Longrightarrow> i < length s \<Longrightarrow> length (s ! i) \<le> B"
  by (simp add: elems_def)

lemma elems_last: "elems B s \<Longrightarrow> s \<noteq> [] \<Longrightarrow> length (last s) \<le> B"
  by (simp add: elems_def)

lemma elems_update: "elems B s \<Longrightarrow> length x \<le> B \<Longrightarrow> elems B (s[i := x])"
  by (auto simp: elems_def dest!: set_update_subset_insert [THEN subsetD])

lemma elems_remove: "elems B s \<Longrightarrow> elems B (vec_remove i s)"
  by (simp add: vec_remove_def elems_take elems_drop)

lemma elems_insert: "elems B s \<Longrightarrow> length x \<le> B \<Longrightarrow> elems B (vec_insert i x s)"
  by (simp add: vec_insert_def elems_take elems_drop)

lemma elems_swap: "elems B s \<Longrightarrow> i < length s \<Longrightarrow> j < length s \<Longrightarrow> elems B (vec_swap i j s)"
  by (simp add: vec_swap_def elems_update elems_nth)

lemma length_vec [simp]:
  "length (vec_swap i j s) = length s" "i < length s \<Longrightarrow> length (vec_remove i s) = length s - 1"
  by (simp_all add: vec_swap_def vec_remove_def)

lemmas elems_intros =
  elems_butlast elems_take elems_drop elems_nth elems_last elems_update elems_remove elems_insert
  elems_swap

lemma length_script_bool: "length (script_bool b) \<le> 1"
  by (simp add: script_bool_def)

lemma length_encode_num_520: "520 \<le> B \<Longrightarrow> length (encode_num v) \<le> B"
  using length_encode_num_le [of v] by simp

lemma length_num_bool: "520 \<le> B \<Longrightarrow> length (num_bool b) \<le> B"
  by (simp add: num_bool_def length_encode_num_520)

lemma length_script_bool_520: "520 \<le> B \<Longrightarrow> length (script_bool b) \<le> B"
  using length_script_bool [of b] by simp

lemmas size_intros = length_encode_num_520 length_num_bool length_script_bool_520

section \<open>Opcodes\<close>

lemma stack_op_runs:
  assumes "elems B s" and "elems B alt" and "520 \<le> B"
  shows "runs (\<lambda>(s', alt'). elems B s' \<and> elems B alt') (stack_op op s alt)"
proof -
  have B: "Suc 0 \<le> B" using assms(3) by simp
  have last: "length (last s) \<le> B" if "\<not> length s < 2"
    using that assms(1) by (auto intro!: elems_last)
  show ?thesis
    unfolding stack_op_def Let_def
    by (simp only: runs_rules prod.case, intro conjI impI)
      (simp_all add: assms B last elems_intros size_intros)
qed

lemma arith_op_runs:
  assumes "elems B s" and "520 \<le> B"
  shows "runs (elems B) (arith_op op s)"
  unfolding arith_op_def
  by (simp only: runs_rules prod.case, intro conjI impI)
    (simp_all add: assms elems_intros size_intros)

text \<open>The digests are 20 or 32 bytes long.\<close>

definition digests_ok :: "script_crate \<Rightarrow> bool" where
  "digests_ok S \<longleftrightarrow>
     (\<forall>d. length (ripemd160 S d) = 20 \<and> length (sha1 S d) = 20 \<and> length (sha256 S d) = 32
        \<and> length (hash160 S d) = 20 \<and> length (hash256 S d) = 32)"

lemma crypto_op_runs:
  assumes "elems B s" and "520 \<le> B" and "digests_ok S"
  shows "runs (elems B) (crypto_op S op s)"
  using assms unfolding crypto_op_def digests_ok_def
  by (simp add: runs_rules elems_intros)

lemma runs_slice_from [runs_rules]:
  "runs P (slice_from n bs) \<longleftrightarrow> n \<le> length bs \<and> P (drop n bs)"
  by (simp add: slice_from_def runs_def)

lemma runs_index_at [runs_rules]: "runs P (index_at xs i) \<longleftrightarrow> i < length xs \<and> P (xs ! i)"
  by (simp add: index_at_def runs_def)

lemma pop_many_runs:
  "elems B s \<Longrightarrow> runs (\<lambda>(vs, s'). elems B s') (pop_many n s)"
proof (induction n arbitrary: s)
  case (Suc n)
  then show ?case
    by (auto simp: runs_rules elems_butlast intro!: runs_mono [OF Suc.IH])
qed (simp add: runs_rules)

lemma match_key_runs:
  "(\<And>k. runs (\<lambda>_. True) (chk sig k)) \<Longrightarrow> runs (\<lambda>_. True) (match_key chk sig keys)"
proof (induction keys)
  case (Cons k keys)
  then show ?case
    by (auto simp: runs_rules intro!: runs_mono [OF Cons.prems])
qed (simp add: runs_rules)

lemma match_sigs_runs:
  "(\<And>sig k. runs (\<lambda>_. True) (chk sig k)) \<Longrightarrow> runs (\<lambda>_. True) (match_sigs chk sigs keys)"
proof (induction sigs arbitrary: keys)
  case (Cons sig sigs)
  then show ?case
    by (auto simp: runs_rules intro!: runs_mono [OF match_key_runs [of chk sig keys]])
qed (simp add: runs_rules)

lemma checksig_result_runs:
  assumes "elems B s" and "codesep \<le> length (ctx_script c)"
  shows "runs (\<lambda>(ok, s'). elems B s') (checksig_result S c codesep s)"
  using assms by (simp add: checksig_result_def runs_rules elems_butlast Let_def)

lemma op_checksig_runs:
  assumes "elems B s" and "codesep \<le> length (ctx_script c)" and "520 \<le> B"
  shows "runs (elems B) (op_checksig S c codesep s)"
    and "runs (elems B) (op_checksigverify S c codesep s)"
  using assms
  by (auto simp: op_checksig_def op_checksigverify_def runs_rules size_intros
      intro!: runs_mono [OF checksig_result_runs [OF assms(1,2)]])

lemma multisig_result_runs:
  assumes s: "elems B s" and code: "codesep \<le> length (ctx_script c)"
  shows "runs (\<lambda>(ok, n, s'). elems B s') (multisig_result S c msg codesep ops s)"
proof -
  have m: "runs (\<lambda>_. True) (match_sigs
      (\<lambda>sig key. bindE (slice_from codesep (ctx_script c)) (\<lambda>code.
         Inr (f sig key code))) sigs keys)" for f sigs keys
    by (rule match_sigs_runs) (simp add: runs_rules code)
  show ?thesis
    unfolding multisig_result_def Let_def
    by (auto simp: runs_rules code s elems_butlast
        intro!: runs_mono [OF pop_many_runs [where B = B]] runs_mono [OF m])
qed

lemma op_checkmultisig_runs:
  assumes "elems B s" and "codesep \<le> length (ctx_script c)" and "520 \<le> B"
  shows "runs (\<lambda>(n, s'). elems B s') (op_checkmultisig S c codesep ops s)"
    and "runs (\<lambda>(n, s'). elems B s') (op_checkmultisigverify S c codesep ops s)"
  using assms
  by (auto simp: op_checkmultisig_def op_checkmultisigverify_def runs_rules size_intros
      intro!: runs_mono [OF multisig_result_runs [OF assms(1,2)]])

lemma lock_op_runs:
  assumes "ctx_input_index c < length (tx_input (ctx_tx c))"
  shows "runs (\<lambda>_. True) (op_checklocktime c s)" and "runs (\<lambda>_. True) (op_checksequence c s)"
  unfolding op_checklocktime_def op_checksequence_def Let_def
  by (simp_all add: runs_rules assms)

section \<open>The legacy interpreter\<close>

text \<open>The bytes the items of a parsed script take, counted with minimal encodings.\<close>

fun parsed_size :: "parsed \<Rightarrow> nat" where
  "parsed_size [] = 0"
| "parsed_size (Inl e # is) = 0"
| "parsed_size (Inr ins # is) = instr_size ins + parsed_size is"

definition instructions_fit :: "script_crate \<Rightarrow> bool" where
  "instructions_fit S \<longleftrightarrow> (\<forall>script. parsed_size (instructions S script) \<le> length script)"

definition exec_ok :: "nat \<Rightarrow> nat \<Rightarrow> exec_state \<Rightarrow> bool" where
  "exec_ok B N st \<longleftrightarrow>
     elems B (main_stack st) \<and> elems B (alt_stack st)
     \<and> length (main_stack st) + length (alt_stack st) \<le> N
     \<and> codesep_pos st \<le> byte_pos st"

lemma flow_op_runs:
  assumes "flow_op op s es = Some r" and "elems B s"
  shows "runs (\<lambda>(s', es'). elems B s' \<and> length s' \<le> length s) r"
proof -
  have "runs (\<lambda>(s', es'). elems B s' \<and> length s' \<le> length s)
      (bindE (stack_pop s) (\<lambda>(v, s'). Inr (s', f v)))" for f :: "bytes \<Rightarrow> bool list"
    using assms(2) by (simp add: runs_rules elems_butlast)
  then show ?thesis
    using assms by (auto simp: flow_op_def runs_rules split: if_splits)
qed

lemma exec_opcode_runs:
  assumes ok: "exec_ok B N st" and B: "520 \<le> B" and S: "digests_ok S"
    and pos: "byte_pos st \<le> length (ctx_script c)"
    and idx: "ctx_input_index c < length (tx_input (ctx_tx c))"
  shows "runs (\<lambda>st'. elems B (main_stack st') \<and> elems B (alt_stack st')
      \<and> codesep_pos st' \<le> byte_pos st' \<and> byte_pos st' = byte_pos st) (exec_opcode S c op st)"
proof -
  have e: "elems B (main_stack st)" "elems B (alt_stack st)" "codesep_pos st \<le> byte_pos st"
    and code: "codesep_pos st \<le> length (ctx_script c)"
    using ok pos by (auto simp: exec_ok_def)
  show ?thesis
    unfolding exec_opcode_def Let_def
    by (simp only: runs_rules, intro conjI impI)
      (auto simp: e runs_rules intro!: runs_mono [OF stack_op_runs [OF e(1,2) B]]
        runs_mono [OF arith_op_runs [OF e(1) B]] runs_mono [OF crypto_op_runs [OF e(1) B S]]
        runs_mono [OF op_checksig_runs(1) [OF e(1) code B]]
        runs_mono [OF op_checksig_runs(2) [OF e(1) code B]]
        runs_mono [OF op_checkmultisig_runs(1) [OF e(1) code B]]
        runs_mono [OF op_checkmultisig_runs(2) [OF e(1) code B]]
        runs_mono [OF lock_op_runs(1) [OF idx]] runs_mono [OF lock_op_runs(2) [OF idx]])
qed

lemma check_stack_size_runs:
  "runs P (check_stack_size st) \<longleftrightarrow>
     (length (main_stack st) + length (alt_stack st) \<le> max_stack_size \<longrightarrow> P st)"
  by (auto simp: check_stack_size_def runs_rules)

lemma exec_op_runs:
  assumes ok: "exec_ok B N st" and B: "520 \<le> B" and N: "max_stack_size \<le> N"
    and S: "digests_ok S" and pos: "byte_pos st \<le> length (ctx_script c)"
    and idx: "ctx_input_index c < length (tx_input (ctx_tx c))"
  shows "runs (\<lambda>st'. exec_ok B N st' \<and> byte_pos st' = byte_pos st) (exec_op S c op st)"
proof -
  define st1 where "st1 = (if 0x60 < op then st\<lparr>op_count := op_count st + 1\<rparr> else st)"
  have st1: "exec_ok B N st1" "byte_pos st1 = byte_pos st" "main_stack st1 = main_stack st"
    "exec_stack st1 = exec_stack st" "alt_stack st1 = alt_stack st"
    "codesep_pos st1 = codesep_pos st"
    using ok by (simp_all add: st1_def exec_ok_def)
  have flow: "runs (\<lambda>st'. exec_ok B N st' \<and> byte_pos st' = byte_pos st)
      (bindE r (\<lambda>(s', es'). Inr (st1\<lparr>main_stack := s', exec_stack := es'\<rparr>)))"
    if "flow_op op (main_stack st1) (exec_stack st1) = Some r" for r
    using flow_op_runs [OF that, of B] st1 ok unfolding runs_bind
    by (auto simp: exec_ok_def runs_rules elim!: runs_mono)
  have run: "runs (\<lambda>st'. exec_ok B N st' \<and> byte_pos st' = byte_pos st)
      (bindE (exec_opcode S c op st1) check_stack_size)"
    unfolding runs_bind using pos st1(2) N
    by (intro runs_mono [OF exec_opcode_runs [OF st1(1) B S _ idx]])
      (auto simp: check_stack_size_runs exec_ok_def)
  show ?thesis
    unfolding exec_op_def Let_def st1_def [symmetric]
    using flow run st1 by (auto simp: runs_rules split: option.split)
qed

lemma exec_push_runs:
  assumes "exec_ok B N st" and "520 \<le> B" and "max_stack_size \<le> N"
  shows "runs (\<lambda>st'. exec_ok B N st' \<and> byte_pos st' = byte_pos st) (exec_push flags data st)"
  using assms by (auto simp: exec_push_def runs_rules exec_ok_def max_script_element_size_def)

lemma exec_loop_runs:
  assumes B: "520 \<le> B" and N: "max_stack_size \<le> N" and S: "digests_ok S"
    and idx: "ctx_input_index c < length (tx_input (ctx_tx c))"
  shows "\<lbrakk>exec_ok B N st; byte_pos st + parsed_size is \<le> length (ctx_script c)\<rbrakk>
    \<Longrightarrow> runs (exec_ok B N) (foldE (exec_instruction S c) st is)"
proof (induction "is" arbitrary: st rule: parsed_size.induct)
  case (3 ins "is")
  let ?st = "st\<lparr>byte_pos := byte_pos st + instr_size ins\<rparr>"
  have ok: "exec_ok B N ?st" and pos: "byte_pos ?st \<le> length (ctx_script c)"
    using "3.prems" by (simp_all add: exec_ok_def)
  have "runs (\<lambda>st'. exec_ok B N st' \<and> byte_pos st' = byte_pos ?st) (exec_instruction S c st (Inr ins))"
    using exec_op_runs [OF ok B N S pos idx] exec_push_runs [OF ok B N]
    by (cases ins) (simp_all add: exec_instruction_def Let_def)
  then show ?case
    using "3.prems" unfolding foldE.simps runs_bind
    by (elim runs_mono) (auto intro!: "3.IH")
qed (simp_all add: runs_rules exec_instruction_def)

lemma execute_script_inner_runs:
  assumes "elems B s" and "length s \<le> N" and "520 \<le> B" and "max_stack_size \<le> N"
    and "digests_ok S" and fit: "instructions_fit S"
    and "ctx_input_index c < length (tx_input (ctx_tx c))"
  shows "runs (\<lambda>s'. elems B s' \<and> length s' \<le> N) (execute_script_inner S c s)"
proof -
  let ?st = "\<lparr>main_stack = s, alt_stack = [], exec_stack = [], op_count = 0, codesep_pos = 0, byte_pos = 0\<rparr>"
  have "exec_ok B N ?st" using assms by (simp add: exec_ok_def)
  moreover have "byte_pos ?st + parsed_size (instructions S (ctx_script c)) \<le> length (ctx_script c)"
    using fit by (simp add: instructions_fit_def)
  ultimately have "runs (exec_ok B N) (foldE (exec_instruction S c) ?st (instructions S (ctx_script c)))"
    using assms by (intro exec_loop_runs)
  then show ?thesis
    unfolding execute_script_inner_def runs_if runs_bind
    by (auto simp: runs_rules exec_ok_def elim!: runs_mono)
qed

lemmas execute_script_runs =
  execute_script_inner_runs [where c = "\<lparr>ctx_tx = tx, ctx_input_index = i, ctx_amount = amount,
    ctx_flags = flags, ctx_segwit = segwit, ctx_script = script\<rparr>" for tx i amount flags segwit script]

end
