(* ===== verification/Demo_Script.thy ===== *)
theory Demo_Script
  imports Script_Safety
begin

text \<open>
  A concrete instance of the functions that parse, hash and check scripts, on which the witnesses of
  the script properties evaluate. Its parser reads pushes as the consensus encoding does; its
  digests are the input cut or padded to the digest length, and a signature is valid when it equals
  the key it is checked against.
\<close>

function demo_parse :: "bytes \<Rightarrow> parsed" where
  "demo_parse [] = []"
| "demo_parse (b # bs) =
     (case push_extent (b # bs) of
        None \<Rightarrow> Inr (if b = 0 then PushBytes [] else Op b) # demo_parse bs
      | Some None \<Rightarrow> [Inl ''unexpected end of script'']
      | Some (Some n) \<Rightarrow>
          if length (b # bs) < n then [Inl ''unexpected end of script'']
          else Inr (PushBytes (drop (if b = 0x4c then 2 else if b = 0x4d then 3
                                     else if b = 0x4e then 5 else 1) (take n (b # bs))))
                 # demo_parse (drop n (b # bs)))"
  by pat_completeness auto
termination
  by (relation "measure length") (auto dest: push_extent_pos)

definition demo_digest :: "nat \<Rightarrow> bytes \<Rightarrow> bytes" where
  "demo_digest n d = take n (d @ replicate n 0)"

definition demo_script :: script_crate where
  "demo_script =
     \<lparr>instructions = demo_parse,
      ripemd160 = demo_digest 20, sha1 = demo_digest 20, sha256 = demo_digest 32,
      hash160 = demo_digest 20, hash256 = demo_digest 32,
      script_is_p2sh = is_p2sh,
      script_is_p2wpkh = (\<lambda>s. length s = 22 \<and> s ! 0 = 0 \<and> s ! 1 = 20),
      script_is_p2wsh = (\<lambda>s. length s = 34 \<and> s ! 0 = 0 \<and> s ! 1 = 32),
      new_p2wpkh = (\<lambda>h. 0 # 20 # h),
      public_key = Some, sig_from_der = Some, sig_from_der_lax = Some, normalize_s = (\<lambda>s. s),
      sighash_type_of = (\<lambda>t. t),
      p2wpkh_signature_hash = (\<lambda>tx i s a t. Some []), p2wsh_signature_hash = (\<lambda>tx i s a t. Some []),
      legacy_signature_hash = (\<lambda>tx i s t. Some []),
      verify_ecdsa = (\<lambda>m s k. s = k),
      x_only_public_key = Some, schnorr_signature = Some, tap_sighash_type = Some,
      tap_sighash_default = 0, taproot_sighash = (\<lambda>tx i ps a l t. Some []),
      verify_schnorr = (\<lambda>s m k. take 32 s = k),
      annex_new = Some, control_block_ok = (\<lambda>c. 33 \<le> length c),
      is_tapscript_leaf = (\<lambda>c. c ! 0 = 0xc0), verify_taproot_commitment = (\<lambda>c k s. True),
      tap_leaf_hash = demo_digest 32\<rparr>"

lemma demo_script_sel:
  "instructions demo_script = demo_parse"
  "ripemd160 demo_script = demo_digest 20" "sha1 demo_script = demo_digest 20"
  "sha256 demo_script = demo_digest 32" "hash160 demo_script = demo_digest 20"
  "hash256 demo_script = demo_digest 32"
  by (simp_all add: demo_script_def)

lemma demo_digests_ok: "digests_ok demo_script"
  by (auto simp: digests_ok_def demo_script_sel demo_digest_def min_def)

text \<open>The payload of a push together with its length prefix covers the minimal encoding.\<close>

lemma push_extent_size:
  assumes "push_extent (b # bs) = Some (Some n)" and "n \<le> length (b # bs)"
  shows "instr_size (PushBytes (drop (if b = 0x4c then 2 else if b = 0x4d then 3
           else if b = 0x4e then 5 else 1) (take n (b # bs)))) \<le> n"
proof -
  have le2: "le_val [x, y] < 65536" for x y
    using le_val_bound [of "[x, y]"] by simp
  consider "1 \<le> b \<and> b \<le> 0x4b \<and> n = 1 + unat b"
    | "b = 0x4c \<and> (\<exists>x. n = 2 + unat (x :: u8))"
    | "b = 0x4d \<and> (\<exists>x y. n = 3 + le_val [x, y])"
    | "b = 0x4e \<and> 5 \<le> n"
    using assms(1) by (auto simp: push_extent_def Let_def split: if_splits)
  then show ?thesis
  proof cases
    case 1
    then have "unat b \<le> 75" by (simp add: word_le_nat_alt)
    with 1 assms(2) show ?thesis by (auto simp: instr_size_def Let_def)
  next
    case 2
    then obtain x :: u8 where x: "b = 0x4c" "n = 2 + unat x" by blast
    then have "unat x \<le> 255" using unat_u8_lt [of x] by linarith
    with x assms(2) show ?thesis by (auto simp: instr_size_def Let_def)
  next
    case 3
    then obtain x y where "n = 3 + le_val [x, y]" by blast
    with 3 assms(2) le2 [of x y] show ?thesis by (auto simp: instr_size_def Let_def)
  next
    case 4
    with assms(2) show ?thesis by (auto simp: instr_size_def Let_def)
  qed
qed

lemma parsed_size_demo: "parsed_size (demo_parse bs) \<le> length bs"
proof (induction bs rule: demo_parse.induct)
  case (2 b bs)
  show ?case
  proof (cases "push_extent (b # bs)")
    case None
    then show ?thesis using "2.IH"(1) by (simp add: instr_size_def)
  next
    case (Some e)
    show ?thesis
    proof (cases e)
      case None
      then show ?thesis using Some by simp
    next
      case (Some n)
      with \<open>push_extent (b # bs) = Some e\<close> have e: "push_extent (b # bs) = Some (Some n)" by simp
      show ?thesis
      proof (cases "length (b # bs) < n")
        case True
        then show ?thesis using e by simp
      next
        case False
        then have "parsed_size (demo_parse (drop n (b # bs))) \<le> length (drop n (b # bs))"
          using "2.IH"(2) e by blast
        then show ?thesis using push_extent_size [OF e] False e by simp
      qed
    qed
  qed
qed simp

lemma demo_instructions_fit: "instructions_fit demo_script"
  by (simp add: instructions_fit_def demo_script_sel parsed_size_demo)

definition demo_tx :: transaction where
  "demo_tx =
     \<lparr>tx_version = 2, tx_lock_time = 0,
      tx_input = [\<lparr>previous_output = \<lparr>op_txid = replicate 32 1, op_vout = 0\<rparr>, script_sig = [],
                   in_sequence = 0, in_witness = []\<rparr>],
      tx_output = []\<rparr>"

end
