(* ===== verification/Script_Parity.thy ===== *)
theory Script_Parity
  imports Demo_Script
begin

unbundle bit_operations_syntax

text \<open>
  The code holds two copies of every opcode the legacy and the tapscript interpreter share. The two
  copies agree: same stacks, same nesting, success on one side exactly when on the other; only the
  texts of the errors differ.
\<close>

section \<open>Results up to the text of the error\<close>

definition forget :: "'a run \<Rightarrow> 'a run" where
  "forget r = (case r of Inl (Fail _) \<Rightarrow> invalid '''' | Inl Panic \<Rightarrow> Inl Panic | Inr x \<Rightarrow> Inr x)"

named_theorems forget_rules

lemma forget_simps [simp, forget_rules]:
  "forget (Inr x) = Inr x" "forget (invalid msg) = invalid ''''" "forget (Inl Panic) = Inl Panic"
  by (simp_all add: forget_def)

lemma forget_bind [forget_rules]: "forget (bindE m f) = bindE (forget m) (\<lambda>x. forget (f x))"
proof (cases m)
  case (Inl e)
  then show ?thesis by (cases e) (simp_all add: forget_def)
qed simp

lemma forget_if [forget_rules]: "forget (if c then a else b) = (if c then forget a else forget b)"
  by simp

lemma forget_prod [forget_rules]:
  "forget (case p of (a, b) \<Rightarrow> f a b) = (case p of (a, b) \<Rightarrow> forget (f a b))"
  by (cases p) simp

lemma runs_forget: "runs P (forget r) \<longleftrightarrow> runs P r"
  by (auto simp: runs_def forget_def split: sum.splits stop.splits)

lemma runs_transfer: "forget r = forget r' \<Longrightarrow> runs P r \<Longrightarrow> runs P r'"
  by (metis runs_forget)

lemma forget_Inr_iff: "forget r = Inr x \<longleftrightarrow> r = Inr x"
  by (auto simp: forget_def split: sum.splits stop.splits)

section \<open>Small numbers\<close>

lemma encode_small_table:
  "list_all (\<lambda>n. encode_num (ucast (of_nat n :: u8)) = [of_nat n]) [1..<17]"
  by code_simp

lemma encode_minus_one: "encode_num (- 1) = [0x81]"
  by code_simp

lemma encode_small_op:
  fixes op :: u8
  assumes "0x51 \<le> op" and "op \<le> 0x60"
  shows "encode_num (ucast (op - 0x50)) = [op - 0x50]"
proof -
  have "unat (op - 0x50) = unat op - 80"
    using assms by (subst unat_sub) (auto simp: word_le_nat_alt)
  then have "unat (op - 0x50) \<in> set [1..<17]"
    using assms by (auto simp: word_le_nat_alt)
  then have "encode_num (ucast (of_nat (unat (op - 0x50)) :: u8)) = [of_nat (unat (op - 0x50))]"
    using encode_small_table by (simp only: list_all_iff)
  then show ?thesis by simp
qed

lemma num_bool_script_bool: "num_bool b = script_bool b"
proof -
  have "num_bool True = script_bool True" by code_simp
  moreover have "num_bool False = script_bool False" by code_simp
  ultimately show ?thesis by (cases b) simp_all
qed

section \<open>The shared opcodes\<close>

lemma stack_op_agrees: "forget (tap_stack_op op s alt) = forget (stack_op op s alt)"
  unfolding tap_stack_op_def stack_op_def Let_def
  by (simp only: forget_rules encode_minus_one encode_small_op cong: if_cong)

lemma arith_op_agrees: "forget (tap_arith_op op s) = forget (arith_op op s)"
  unfolding tap_arith_op_def arith_op_def
  by (simp only: forget_rules num_bool_script_bool cong: if_cong)

lemma crypto_op_agrees: "tap_crypto_op S op s = crypto_op S op s"
  by (simp add: tap_crypto_op_def crypto_op_def)

lemma flow_op_agrees: "tap_flow_op op s es = flow_op op s es"
  by (simp add: tap_flow_op_def flow_op_def)

lemma lock_op_agrees:
  assumes "ctx_tx c = tap_tx d" and "ctx_input_index c = tap_input_index d"
  shows "verify_checklocktimeverify (ctx_flags c) \<Longrightarrow> tap_checklocktime d s = op_checklocktime c s"
    and "verify_checksequenceverify (ctx_flags c) \<Longrightarrow> tap_checksequence d s = op_checksequence c s"
  unfolding tap_checklocktime_def op_checklocktime_def tap_checksequence_def op_checksequence_def
    assms
  by simp_all

definition legacy_view :: "exec_state \<Rightarrow> stack \<times> stack \<times> bool list" where
  "legacy_view st = (main_stack st, alt_stack st, exec_stack st)"

definition tap_view :: "tap_state \<Rightarrow> stack \<times> stack \<times> bool list" where
  "tap_view t = (tap_stack t, tap_alt t, tap_exec t)"

definition map_run :: "('a \<Rightarrow> 'b) \<Rightarrow> 'a run \<Rightarrow> 'b run" where
  "map_run f r = bindE r (\<lambda>x. Inr (f x))"

lemma map_run_Inr [simp]: "map_run f (Inr x) = Inr (f x)"
  and map_run_Inl [simp]: "map_run f (Inl e) = Inl e"
  by (simp_all add: map_run_def)

lemma map_run_bind: "map_run f (bindE m g) = bindE m (\<lambda>x. map_run f (g x))"
  by (cases m) (simp_all add: map_run_def)

lemma map_run_if: "map_run f (if c then a else b) = (if c then map_run f a else map_run f b)"
  by simp

lemma map_run_prod: "map_run f (case p of (a, b) \<Rightarrow> g a b) = (case p of (a, b) \<Rightarrow> map_run f (g a b))"
  by (cases p) simp

lemmas map_run_rules = map_run_bind map_run_if map_run_prod map_run_Inr map_run_Inl

lemma bindE_cong_forget:
  assumes "forget m = forget m'" and "\<And>x. forget (f x) = forget (g x)"
  shows "forget (bindE m f) = forget (bindE m' g)"
  using assms by (simp add: forget_bind)

lemma opcode_agrees:
  assumes view: "legacy_view st = tap_view t"
    and ctx: "ctx_tx c = tap_tx d" "ctx_input_index c = tap_input_index d"
    and lock: "verify_checklocktimeverify (ctx_flags c)" "verify_checksequenceverify (ctx_flags c)"
    and op: "op \<notin> {0xac, 0xad, 0xae, 0xaf, 0xba}"
  shows "forget (map_run legacy_view (exec_opcode S c op st)) =
    forget (map_run tap_view (tap_opcode S d op t))"
proof -
  have v: "main_stack st = tap_stack t" "alt_stack st = tap_alt t" "exec_stack st = tap_exec t"
    using view by (simp_all add: legacy_view_def tap_view_def)
  show ?thesis
    using op lock_op_agrees [OF ctx, of "tap_stack t"] lock stack_op_agrees [of op "tap_stack t" "tap_alt t"]
      arith_op_agrees [of op "tap_stack t"]
    unfolding exec_opcode_def tap_opcode_def Let_def v
    by (simp add: map_run_rules forget_rules crypto_op_agrees legacy_view_def tap_view_def v)
qed

lemma check_size_agrees:
  assumes "legacy_view st = tap_view t"
  shows "map_run legacy_view (check_stack_size st) = map_run tap_view (tap_check_size t)"
  using assms by (auto simp: check_stack_size_def tap_check_size_def legacy_view_def tap_view_def)

lemma step_agrees:
  assumes "forget (map_run legacy_view m) = forget (map_run tap_view m')"
  shows "forget (map_run legacy_view (bindE m check_stack_size)) =
    forget (map_run tap_view (bindE m' tap_check_size))"
proof (cases m)
  case (Inl e)
  then show ?thesis using assms by (cases m'; cases e) (auto simp: forget_def split: stop.splits)
next
  case (Inr st)
  then obtain t where "m' = Inr t" "legacy_view st = tap_view t"
    using assms by (cases m') (auto simp: forget_def split: stop.splits)
  then show ?thesis using check_size_agrees [of st t] by (simp add: Inr)
qed

lemma disabled_are_success: "is_disabled_opcode op \<Longrightarrow> is_tapscript_success_opcode op"
  by (auto simp: is_disabled_opcode_def is_tapscript_success_opcode_def)



text \<open>In a branch that is not executed the tapscript interpreter steps over \<^verbatim>\<open>OP_VERIF\<close>, which the
  legacy interpreter rejects everywhere.\<close>

lemma verif_differs:
  assumes "\<not> executing (tap_exec t)"
  shows "tap_op S d 0x65 t = Inr t" and "\<not> is_ok (exec_op S c 0x65 st)"
  using assms by (simp_all add: tap_op_def tap_flow_op_def exec_op_def Let_def)

end
