(* ===== verification/Script_Typing.thy ===== *)
theory Script_Typing
  imports Script_Parity
begin

text \<open>
  Stack typing and absence of panics for the tapscript interpreter, carried over from the legacy
  copy of the opcodes, and for the verification of a whole input.
\<close>

section \<open>The tapscript interpreter\<close>

definition tap_ok :: "nat \<Rightarrow> nat \<Rightarrow> tap_state \<Rightarrow> bool" where
  "tap_ok B N t \<longleftrightarrow>
     elems B (tap_stack t) \<and> elems B (tap_alt t) \<and> length (tap_stack t) + length (tap_alt t) \<le> N"

lemma tap_ok_next [simp]: "tap_ok B N (tap_next t) \<longleftrightarrow> tap_ok B N t"
  by (simp add: tap_ok_def tap_next_def)

lemma tap_sig_budget_runs:
  "runs (\<lambda>t'. tap_stack t' = tap_stack t \<and> tap_alt t' = tap_alt t \<and> tap_exec t' = tap_exec t)
     (tap_sig_budget S d msg sig key t)"
  by (simp add: tap_sig_budget_def Let_def runs_rules)

lemma tap_sig_ops_run:
  assumes "elems B (tap_stack t)" and "elems B (tap_alt t)" and "520 \<le> B"
  shows "runs (\<lambda>t'. elems B (tap_stack t') \<and> elems B (tap_alt t')) (tap_checksig S d t)"
    and "runs (\<lambda>t'. elems B (tap_stack t') \<and> elems B (tap_alt t')) (tap_checksigverify S d t)"
    and "runs (\<lambda>t'. elems B (tap_stack t') \<and> elems B (tap_alt t')) (tap_checksigadd S d t)"
  unfolding tap_checksig_def tap_checksigverify_def tap_checksigadd_def
  using assms
  by (auto simp: runs_rules elems_butlast size_intros intro!: runs_mono [OF tap_sig_budget_runs])

lemma tap_lock_runs:
  assumes "tap_input_index d < length (tx_input (tap_tx d))"
  shows "runs (\<lambda>_. True) (tap_checklocktime d s)" and "runs (\<lambda>_. True) (tap_checksequence d s)"
  unfolding tap_checklocktime_def tap_checksequence_def Let_def
  by (simp_all add: runs_rules assms)

lemma tap_opcode_runs:
  assumes e: "elems B (tap_stack t)" "elems B (tap_alt t)" and B: "520 \<le> B" and S: "digests_ok S"
    and idx: "tap_input_index d < length (tx_input (tap_tx d))"
  shows "runs (\<lambda>t'. elems B (tap_stack t') \<and> elems B (tap_alt t')) (tap_opcode S d op t)"
proof -
  note ops =
    runs_mono [OF runs_transfer [OF stack_op_agrees [symmetric] stack_op_runs [OF e B]]]
    runs_mono [OF runs_transfer [OF arith_op_agrees [symmetric] arith_op_runs [OF e(1) B]]]
    runs_mono [OF crypto_op_runs [OF e(1) B S]]
    tap_sig_ops_run [OF e B]
    runs_mono [OF tap_lock_runs(1) [OF idx]] runs_mono [OF tap_lock_runs(2) [OF idx]]
  show ?thesis
    unfolding tap_opcode_def Let_def crypto_op_agrees
    by (simp only: runs_rules, intro conjI impI) (auto simp: e runs_rules intro!: ops)
qed

lemma tap_op_runs:
  assumes ok: "tap_ok B N t" and B: "520 \<le> B" and N: "max_stack_size \<le> N" and S: "digests_ok S"
    and idx: "tap_input_index d < length (tx_input (tap_tx d))"
  shows "runs (tap_ok B N) (tap_op S d op t)"
proof -
  have flow: "runs (tap_ok B N) (bindE r (\<lambda>(s', es'). Inr (t\<lparr>tap_stack := s', tap_exec := es'\<rparr>)))"
    if "flow_op op (tap_stack t) (tap_exec t) = Some r" for r
    using flow_op_runs [OF that, of B] ok unfolding runs_bind
    by (auto simp: tap_ok_def runs_rules elim!: runs_mono)
  have run: "runs (tap_ok B N) (bindE (tap_opcode S d op t) tap_check_size)"
    unfolding runs_bind using ok N
    by (intro runs_mono [OF tap_opcode_runs [OF _ _ B S idx]])
      (auto simp: tap_check_size_def runs_rules tap_ok_def)
  show ?thesis
    unfolding tap_op_def flow_op_agrees
    using flow run ok by (auto simp: runs_rules split: option.split)
qed

lemma tap_push_runs:
  assumes "tap_ok B N t" and "520 \<le> B" and "max_stack_size \<le> N"
  shows "runs (tap_ok B N) (tap_push data t)"
  using assms by (auto simp: tap_push_def runs_rules tap_ok_def max_script_element_size_def)

lemma tap_loop_runs:
  assumes B: "520 \<le> B" and N: "max_stack_size \<le> N" and S: "digests_ok S"
    and idx: "tap_input_index d < length (tx_input (tap_tx d))"
  shows "tap_ok B N t \<Longrightarrow> runs (\<lambda>s'. elems B s' \<and> length s' \<le> N) (tap_loop S d t is)"
proof (induction "is" arbitrary: t)
  case (Cons item "is")
  have stack: "elems B (tap_stack t) \<and> length (tap_stack t) \<le> N"
    using Cons.prems by (simp add: tap_ok_def)
  consider e where "item = Inl e" | data where "item = Inr (PushBytes data)"
    | op where "item = Inr (Op op)"
    by (metis instruction.exhaust sum.exhaust)
  then show ?case
  proof cases
    case 2
    then show ?thesis
      using Cons.IH by (auto simp: runs_rules intro!: runs_mono [OF tap_push_runs [OF Cons.prems B N]])
  next
    case 3
    then show ?thesis
      using Cons.IH stack
      by (auto simp: runs_rules intro!: runs_mono [OF tap_op_runs [OF Cons.prems B N S idx]])
  qed (simp add: runs_rules)
qed (auto simp: runs_rules tap_ok_def)

lemma prescan_runs: "runs (\<lambda>_. True) (foldE tap_prescan_item () is)"
proof (induction "is")
  case (Cons item "is")
  have "runs (\<lambda>_. True) (tap_prescan_item () item)"
    by (auto simp: tap_prescan_item_def runs_rules split: sum.split instruction.split)
  then show ?case using Cons by (auto simp: runs_rules elim!: runs_mono)
qed (simp add: runs_rules)

lemma execute_tapscript_runs:
  assumes "elems B s" and "length s \<le> N" and "520 \<le> B" and "max_stack_size \<le> N" and "digests_ok S"
    and idx: "tap_input_index d < length (tx_input (tap_tx d))"
  shows "runs (\<lambda>s'. elems B s' \<and> length s' \<le> N) (execute_tapscript S d s)"
proof -
  have "runs (\<lambda>s'. elems B s' \<and> length s' \<le> N) (tap_loop S d
      \<lparr>tap_stack = s, tap_alt = [], tap_exec = [], sigops_budget = b, tap_codesep = 0xFFFFFFFF,
       opcode_pos = 0\<rparr> is)" for b "is"
    using assms by (intro tap_loop_runs) (simp_all add: tap_ok_def)
  then show ?thesis
    unfolding execute_tapscript_def
    using idx by (auto simp: runs_rules intro!: runs_mono [OF prescan_runs])
qed

section \<open>Stack typing\<close>



section \<open>Verification of an input\<close>

lemma elems_bound: "\<exists>B \<ge> 520. elems B s"
proof -
  let ?B = "Max (insert 520 (length ` set s))"
  have "elems ?B s" by (auto simp: elems_def intro: Max_ge)
  moreover have "520 \<le> ?B" by (simp add: Max_ge)
  ultimately show ?thesis by blast
qed

lemma execute_no_panic:
  assumes "digests_ok S" and "instructions_fit S" and "i < length (tx_input tx)"
  shows "runs (\<lambda>_. True) (execute_script S script s tx i amount flags)"
    and "runs (\<lambda>_. True) (execute_script_segwit S script s tx i amount flags)"
proof -
  obtain B where "520 \<le> B" "elems B s" using elems_bound by blast
  note * = execute_script_runs [OF this(2) _ this(1) _ assms(1,2), where N = "max (length s) max_stack_size"]
  show "runs (\<lambda>_. True) (execute_script S script s tx i amount flags)"
    "runs (\<lambda>_. True) (execute_script_segwit S script s tx i amount flags)"
    unfolding execute_script_def execute_script_segwit_def
    by (rule runs_mono [OF *]; simp add: assms(3))+
qed

lemma tapscript_no_panic:
  assumes "digests_ok S" and "tap_input_index d < length (tx_input (tap_tx d))"
  shows "runs (\<lambda>_. True) (execute_tapscript S d s)"
proof -
  obtain B where "520 \<le> B" "elems B s" using elems_bound by blast
  then show ?thesis
    using assms
    by (intro runs_mono [OF execute_tapscript_runs [where N = "max (length s) max_stack_size"]]) simp_all
qed

lemma foldE_runs: "(\<And>u x. runs (\<lambda>_. True) (f u x)) \<Longrightarrow> runs (\<lambda>_. True) (foldE f u xs)"
proof (induction xs arbitrary: u)
  case (Cons x xs)
  then show ?case by (auto simp: runs_rules intro!: runs_mono [OF Cons.prems])
qed (simp add: runs_rules)

lemma push_lens_runs: "runs (\<lambda>_. True) (push_lens is)"
  by (induction "is" rule: push_lens.induct) (auto simp: runs_rules elim!: runs_mono)

lemma bip110_checks_run:
  "runs (\<lambda>_. True) (bip110_check_witness_items items)"
  "runs (\<lambda>_. True) (bip110_check_pushes S script exempt)"
  unfolding bip110_check_witness_items_def bip110_check_pushes_def runs_bind
  by (auto simp: runs_rules intro!: foldE_runs runs_mono [OF push_lens_runs] split: prod.split)

lemma witness_v0_runs:
  assumes "digests_ok S" and "instructions_fit S" and "i < length (tx_input tx)"
  shows "runs (\<lambda>_. True) (verify_witness_v0 S tx i amount prog witness bip110)"
proof -
  have "runs (\<lambda>_. True) (verify_ecdsa_signature S tx i amount sig key)" for sig key
    by (auto simp: verify_ecdsa_signature_def runs_rules split: option.split)
  then show ?thesis
    unfolding verify_witness_v0_def Let_def
    by (auto simp: runs_rules intro!: runs_mono [OF bip110_checks_run(1)]
        runs_mono [OF execute_no_panic(2) [OF assms]])
qed

lemma witness_v1_runs:
  assumes "digests_ok S" and "i < length (tx_input tx)"
  shows "runs (\<lambda>_. True) (verify_witness_v1 S tx i prevouts prog witness bip110)"
proof -
  have parse: "runs (\<lambda>_. True) (parse_schnorr_sig S sig)" for sig
    by (auto simp: parse_schnorr_sig_def runs_rules split: option.split)
  have key: "runs (\<lambda>_. True) (verify_taproot_key_spend S tx i prevouts k sig annex)" for k sig annex
    unfolding verify_taproot_key_spend_def runs_bind
    by (auto simp: runs_rules intro!: runs_mono [OF parse] split: option.split)
  have path: "runs (\<lambda>_. True) (verify_tap_script_path S tx i prevouts k items annex b)"
    for k items annex b
    unfolding verify_tap_script_path_def Let_def
    by (auto simp: runs_rules assms intro!: runs_mono [OF bip110_checks_run(1)]
        runs_mono [OF tapscript_no_panic [OF assms(1)]])
  show ?thesis
    unfolding verify_witness_v1_def Let_def
    by (auto simp: runs_rules key path intro!: runs_mono [OF bip110_checks_run(1)] split: option.split)
qed



end
