(* ===== verification/Script_Softfork.thy ===== *)
theory Script_Softfork
  imports Script_Typing
begin

text \<open>
  BIP 110 as a soft fork of the script rules: every check it adds can only reject, so an input that
  passes with the rules on passes with the rules off.
\<close>

section \<open>Relaxing a check\<close>

definition relaxes :: "'a run \<Rightarrow> 'a run \<Rightarrow> bool" where
  "relaxes r r' \<longleftrightarrow> (\<forall>x. r = Inr x \<longrightarrow> r' = Inr x)"

named_theorems relax_intros

lemma relaxes_refl [relax_intros]: "relaxes r r"
  and relaxes_invalid [relax_intros]: "relaxes (invalid msg) r"
  by (simp_all add: relaxes_def)

lemma relaxes_bind [relax_intros]:
  "relaxes m m' \<Longrightarrow> (\<And>x. relaxes (f x) (g x)) \<Longrightarrow> relaxes (bindE m f) (bindE m' g)"
  by (auto simp: relaxes_def bindE_eq_Inr)

lemma relaxes_check [relax_intros]: "relaxes (m :: unit run) (Inr ())"
  by (cases m) (simp_all add: relaxes_def)

lemma relaxes_drop_check [relax_intros]:
  "relaxes k k' \<Longrightarrow> relaxes (bindE (m :: unit run) (\<lambda>_. k)) k'"
  by (auto simp: relaxes_def bindE_eq_Inr)

lemma relaxes_if [relax_intros]:
  "(c \<Longrightarrow> relaxes a a') \<Longrightarrow> (\<not> c \<Longrightarrow> relaxes b b')
     \<Longrightarrow> relaxes (if c then a else b) (if c then a' else b')"
  by simp

lemma relaxes_guard [relax_intros]: "relaxes a a' \<Longrightarrow> relaxes (if c then invalid msg else a) a'"
  by (simp add: relaxes_def)

lemma relaxes_foldE [relax_intros]:
  "(\<And>s x. relaxes (f s x) (g s x)) \<Longrightarrow> relaxes (foldE f s xs) (foldE g s xs)"
  by (induction xs arbitrary: s) (simp_all add: relax_intros)

section \<open>The interpreters\<close>

abbreviation plain_ctx :: "exec_ctx \<Rightarrow> exec_ctx" where
  "plain_ctx c \<equiv> c\<lparr>ctx_flags := (ctx_flags c)\<lparr>verify_bip110 := False\<rparr>\<rparr>"

lemma plain_flags:
  "verify_strictenc (f\<lparr>verify_bip110 := False\<rparr>) = verify_strictenc f"
  "verify_nulldummy (f\<lparr>verify_bip110 := False\<rparr>) = verify_nulldummy f"
  "verify_checklocktimeverify (f\<lparr>verify_bip110 := False\<rparr>) = verify_checklocktimeverify f"
  "verify_checksequenceverify (f\<lparr>verify_bip110 := False\<rparr>) = verify_checksequenceverify f"
  by simp_all

lemma plain_sel:
  "ctx_tx (plain_ctx c) = ctx_tx c" "ctx_input_index (plain_ctx c) = ctx_input_index c"
  "ctx_amount (plain_ctx c) = ctx_amount c" "ctx_segwit (plain_ctx c) = ctx_segwit c"
  "ctx_script (plain_ctx c) = ctx_script c"
  "ctx_flags (plain_ctx c) = (ctx_flags c)\<lparr>verify_bip110 := False\<rparr>"
  by simp_all

lemma plain_check [simp]: "ctx_check S (plain_ctx c) sig key code = ctx_check S c sig key code"
  unfolding ctx_check_def check_sig_def plain_sel plain_flags ..

lemma plain_ops [simp]:
  "checksig_result S (plain_ctx c) n s = checksig_result S c n s"
  "multisig_result S (plain_ctx c) msg n ops s = multisig_result S c msg n ops s"
  "op_checklocktime (plain_ctx c) s = op_checklocktime c s"
  "op_checksequence (plain_ctx c) s = op_checksequence c s"
  unfolding checksig_result_def multisig_result_def op_checklocktime_def op_checksequence_def
    plain_check plain_sel plain_flags
  by (rule refl)+

lemma plain_exec_op [simp]: "exec_op S (plain_ctx c) op st = exec_op S c op st"
  unfolding exec_op_def exec_opcode_def op_checksig_def op_checksigverify_def op_checkmultisig_def
    op_checkmultisigverify_def plain_ops ..

lemma exec_push_relaxes: "relaxes (exec_push f data st) (exec_push (f\<lparr>verify_bip110 := False\<rparr>) data st)"
  by (auto simp: exec_push_def relaxes_def)

lemma execute_script_inner_relaxes:
  "relaxes (execute_script_inner S c s) (execute_script_inner S (plain_ctx c) s)"
proof -
  have "relaxes (exec_instruction S c st item) (exec_instruction S (plain_ctx c) st item)" for st item
    by (auto simp: exec_instruction_def Let_def exec_push_relaxes relax_intros
        split: sum.split instruction.split)
  then show ?thesis
    by (simp add: execute_script_inner_def relax_intros)
qed

lemma execute_script_relaxes:
  "relaxes (execute_script S script s tx i amount f)
     (execute_script S script s tx i amount (f\<lparr>verify_bip110 := False\<rparr>))"
  "relaxes (execute_script_segwit S script s tx i amount f)
     (execute_script_segwit S script s tx i amount (f\<lparr>verify_bip110 := False\<rparr>))"
  using execute_script_inner_relaxes [of S "\<lparr>ctx_tx = tx, ctx_input_index = i, ctx_amount = amount,
      ctx_flags = f, ctx_segwit = b, ctx_script = script\<rparr>" s for b]
  by (simp_all add: execute_script_def execute_script_segwit_def)

abbreviation plain_tap :: "tap_ctx \<Rightarrow> tap_ctx" where
  "plain_tap d \<equiv> d\<lparr>tap_bip110 := False\<rparr>"

lemma plain_tap_sel:
  "tap_tx (plain_tap d) = tap_tx d" "tap_input_index (plain_tap d) = tap_input_index d"
  "tap_prevouts (plain_tap d) = tap_prevouts d" "tap_leaf (plain_tap d) = tap_leaf d"
  "tap_annex (plain_tap d) = tap_annex d" "tap_script (plain_tap d) = tap_script d"
  by simp_all

lemma plain_tap_ops [simp]:
  "tap_sig_budget S (plain_tap d) msg sig key t = tap_sig_budget S d msg sig key t"
  "tap_checklocktime (plain_tap d) s = tap_checklocktime d s"
  "tap_checksequence (plain_tap d) s = tap_checksequence d s"
  unfolding tap_sig_budget_def tapscript_check_sig_def tap_checklocktime_def tap_checksequence_def
    plain_tap_sel
  by (rule refl)+

lemma plain_tap_opcode [simp]: "tap_opcode S (plain_tap d) op t = tap_opcode S d op t"
  unfolding tap_opcode_def tap_checksig_def tap_checksigverify_def tap_checksigadd_def plain_tap_ops ..

lemma tap_op_relaxes: "relaxes (tap_op S d op t) (tap_op S (plain_tap d) op t)"
  unfolding tap_op_def plain_tap_opcode by (auto simp: relaxes_def)

lemma tap_loop_relaxes: "relaxes (tap_loop S d t is) (tap_loop S (plain_tap d) t is)"
proof (induction S d t "is" rule: tap_loop.induct)
  case (3 S d t data "is")
  then show ?case by (simp add: relax_intros)
next
  case (4 S d t op "is")
  then show ?case by (auto intro!: relaxes_bind tap_op_relaxes relaxes_refl)
qed (simp_all add: relax_intros)

lemma execute_tapscript_relaxes:
  "relaxes (execute_tapscript S d s) (execute_tapscript S (plain_tap d) s)"
proof -
  have "relaxes (index_at xs i) (index_at xs i)" for xs :: "tx_in list" and i by (rule relaxes_refl)
  then show ?thesis
    unfolding execute_tapscript_def
    by (intro relaxes_bind) (simp_all add: relax_intros tap_loop_relaxes)
qed

section \<open>Verification of an input\<close>

lemma bip110_check_relaxes: "relaxes (if b then m else Inr ()) (Inr ())" for m :: "unit run"
  by (rule relaxes_check)

lemma witness_v0_relaxes:
  "relaxes (verify_witness_v0 S tx i amount prog w b) (verify_witness_v0 S tx i amount prog w False)"
  using execute_script_relaxes(2) [of S "last w" "butlast w" tx i amount
      "flags_all\<lparr>verify_bip110 := b\<rparr>"]
  unfolding verify_witness_v0_def Let_def
  by (auto intro!: relaxes_drop_check relaxes_bind relaxes_refl simp: relaxes_invalid)

lemma tap_path_relaxes:
  "relaxes (verify_tap_script_path S tx i prevouts k items annex b)
     (verify_tap_script_path S tx i prevouts k items annex False)"
  unfolding verify_tap_script_path_def Let_def
  using execute_tapscript_relaxes [of S "\<lparr>tap_tx = tx, tap_input_index = i, tap_prevouts = prevouts,
      tap_leaf = tap_leaf_hash S (items ! (length items - 2)), tap_annex = annex, tap_bip110 = b,
      tap_script = items ! (length items - 2)\<rparr>" "take (length items - 2) items"]
  by (auto intro!: relaxes_drop_check relaxes_bind relaxes_refl simp: relaxes_invalid)

lemma witness_v1_relaxes:
  "relaxes (verify_witness_v1 S tx i prevouts prog w b) (verify_witness_v1 S tx i prevouts prog w False)"
  unfolding verify_witness_v1_def Let_def
  by (auto intro!: relaxes_bind relaxes_drop_check relaxes_refl tap_path_relaxes
      simp: relaxes_invalid split: option.split)

lemma p2sh_spend_relaxes:
  "relaxes (verify_p2sh_spend S tx i amount f spk w saved)
     (verify_p2sh_spend S tx i amount (f\<lparr>verify_bip110 := False\<rparr>) spk w saved)"
  unfolding verify_p2sh_spend_def Let_def
  by (auto intro!: relaxes_bind witness_v0_relaxes execute_script_relaxes relaxes_refl
      simp: relaxes_invalid split: option.split)

lemma witness_program_relaxes:
  "relaxes (verify_witness_program S tx i prevouts amount f inp v prog)
     (verify_witness_program S tx i prevouts amount (f\<lparr>verify_bip110 := False\<rparr>) inp v prog)"
  unfolding verify_witness_program_def
  by (auto intro!: witness_v0_relaxes witness_v1_relaxes simp: relax_intros)

lemma legacy_relaxes:
  "relaxes (verify_legacy S tx i amount f inp spk)
     (verify_legacy S tx i amount (f\<lparr>verify_bip110 := False\<rparr>) inp spk)"
  unfolding verify_legacy_def Let_def
  by (auto intro!: relaxes_drop_check relaxes_bind execute_script_relaxes p2sh_spend_relaxes
      relaxes_refl simp: relaxes_invalid)

text \<open>
  C20: BIP 110 is a soft fork of the script rules: an input the node accepts with the BIP 110 rules
  in force for it, whatever the other rules, is accepted with them off, over every path the code
  takes (bare and P2SH scripts, version 0 programs, taproot key and script paths, unknown programs).
\<close>

theorem bip110_soft_fork:
  assumes "verify_script S tx input_index all_prevouts (flags\<lparr>verify_bip110 := True\<rparr>) = Inr ()"
  shows "verify_script S tx input_index all_prevouts (flags\<lparr>verify_bip110 := False\<rparr>) = Inr ()"
proof -
  have "relaxes (verify_script S tx input_index all_prevouts f)
      (verify_script S tx input_index all_prevouts (f\<lparr>verify_bip110 := False\<rparr>))" for f
    unfolding verify_script_def
    by (auto intro!: relaxes_bind witness_program_relaxes legacy_relaxes relaxes_refl
        split: option.split)
  from this [of "flags\<lparr>verify_bip110 := True\<rparr>"] show ?thesis
    using assms by (simp add: relaxes_def)
qed

text \<open>A taproot key-path spend, which passes with the rules on.\<close>

definition demo_key_spend :: transaction where
  "demo_key_spend =
     \<lparr>tx_version = 2, tx_lock_time = 0,
      tx_input = [\<lparr>previous_output = \<lparr>op_txid = replicate 32 1, op_vout = 0\<rparr>, script_sig = [],
                   in_sequence = 0, in_witness = [replicate 64 7]\<rparr>],
      tx_output = []\<rparr>"

theorem bip110_soft_fork_witness:
  "verify_script demo_script demo_key_spend 0
     [\<lparr>out_value = 1, script_pubkey = 0x51 # 32 # replicate 32 7\<rparr>]
     (flags_all\<lparr>verify_bip110 := False\<rparr>) = Inr ()"
proof (rule bip110_soft_fork)
  show "verify_script demo_script demo_key_spend 0
     [\<lparr>out_value = 1, script_pubkey = 0x51 # 32 # replicate 32 7\<rparr>]
     (flags_all\<lparr>verify_bip110 := True\<rparr>) = Inr ()"
    by code_simp
qed

end
