(* ===== verification/Block_Store.thy ===== *)
theory Block_Store
  imports Header_Index "HOL-Library.AList"
begin

text \<open>
  The flat-file block storage of \<^verbatim>\<open>bitcoinpr-storage/src/block_store.rs\<close>. The directory is an
  association list from file numbers to file contents, the current file is a number and an offset,
  and the channel to the background writer is the queue of the writes it has not done yet, or
  \<open>None\<close> when the writer is not running. The writer thread is a transition of its own, which may
  happen between any two calls. File system errors other than a missing file or a short read are
  not modelled, nor is the fsync schedule, which no read observes.
\<close>

section \<open>State\<close>

text \<open>\<^verbatim>\<open>u32::saturating_sub\<close>.\<close>

definition saturating_sub_u32 :: "u32 \<Rightarrow> u32 \<Rightarrow> u32" where
  "saturating_sub_u32 a b = (if a < b then 0 else a - b)"

definition MAX_BLOCK_FILE_SIZE :: u64 where "MAX_BLOCK_FILE_SIZE = 128 * 1024 * 1024"

type_synonym block_files = "(u32 \<times> bytes) list"

record block_store =
  bs_files :: block_files
  max_file_size :: u64
  cur_file_num :: u32
  cur_offset :: u64
  write_queue :: "(u32 \<times> bytes) list option"

text \<open>Opening a file with \<^verbatim>\<open>create\<close> and \<^verbatim>\<open>append\<close> and writing to it.\<close>

definition file_data :: "block_files \<Rightarrow> u32 \<Rightarrow> bytes" where
  "file_data files n = (case map_of files n of None \<Rightarrow> [] | Some data \<Rightarrow> data)"

definition append_file :: "u32 \<Rightarrow> bytes \<Rightarrow> block_files \<Rightarrow> block_files" where
  "append_file n data files = AList.update n (file_data files n @ data) files"

section \<open>Opening\<close>

definition find_latest_file :: "block_files \<Rightarrow> u64 \<Rightarrow> u32 \<times> u64" where
  "find_latest_file dir max_size =
     (if dir = [] then (0, 0)
      else
        (let n = Max (set (map fst dir));
             size = of_nat (length (file_data dir n))
         in if size < max_size then (n, size) else (n + 1, 0)))"

definition open_with_max_file_size :: "block_files \<Rightarrow> u64 \<Rightarrow> block_store" where
  "open_with_max_file_size dir max_size =
     (let (n, off) = find_latest_file dir max_size
      in \<lparr>bs_files = dir, max_file_size = max_size, cur_file_num = n, cur_offset = off,
          write_queue = None\<rparr>)"

definition block_store_open :: "block_files \<Rightarrow> block_store" where
  "block_store_open dir = open_with_max_file_size dir MAX_BLOCK_FILE_SIZE"

definition list_block_files :: "block_store \<Rightarrow> (u32 \<times> u64) list" where
  "list_block_files s =
     sort_key fst (map (\<lambda>(n, data). (n, of_nat (length data))) (bs_files s))"

definition delete_block_file :: "u32 \<Rightarrow> block_store \<Rightarrow> storage_error + u64 \<times> block_store" where
  "delete_block_file n s =
     (if cur_file_num s \<le> n then Inl (Serialization ''refusing to prune block file'')
      else
        (case map_of (bs_files s) n of
           None \<Rightarrow> Inl Io
         | Some data \<Rightarrow>
             Inr (of_nat (length data), s\<lparr>bs_files := AList.delete n (bs_files s)\<rparr>)))"

section \<open>The background writer\<close>

definition start_background_writer :: "block_store \<Rightarrow> block_store" where
  "start_background_writer s = s\<lparr>write_queue := Some []\<rparr>"

text \<open>One turn of the writer's loop: the oldest queued write, with every write for the same file
  that directly follows it among the \<open>k\<close> commands already queued, goes out as one append.\<close>

definition coalesce :: "nat \<Rightarrow> u32 \<Rightarrow> (u32 \<times> bytes) list \<Rightarrow> bytes \<times> (u32 \<times> bytes) list" where
  "coalesce k n q =
     (let same = takeWhile (\<lambda>(m, _). m = n) (take k q)
      in (concat (map snd same), drop (length same) q))"

definition writer_step :: "nat \<Rightarrow> block_store \<Rightarrow> block_store" where
  "writer_step k s =
     (case write_queue s of
        Some ((n, data) # q) \<Rightarrow>
          (let (more, rest) = coalesce k n q
           in s\<lparr>bs_files := append_file n (data @ more) (bs_files s), write_queue := Some rest\<rparr>)
      | _ \<Rightarrow> s)"

text \<open>The turns up to the acknowledgement of a \<^verbatim>\<open>Flush\<close> command.\<close>

function drain_queue :: "(u32 \<times> bytes) list \<Rightarrow> block_files \<Rightarrow> block_files" where
  "drain_queue [] files = files"
| "drain_queue ((n, data) # q) files =
     drain_queue (snd (coalesce (length q) n q))
       (append_file n (data @ fst (coalesce (length q) n q)) files)"
  by pat_completeness auto
termination
  by (relation "measure (\<lambda>(q, files). length q)") (auto simp: coalesce_def Let_def)

text \<open>A sender waits for the acknowledgement for a bounded time: \<open>ack\<close> tells whether it came.\<close>

definition block_store_flush :: "bool \<Rightarrow> block_store \<Rightarrow> block_store" where
  "block_store_flush ack s =
     (case write_queue s of
        Some q \<Rightarrow> if ack then s\<lparr>bs_files := drain_queue q (bs_files s), write_queue := Some []\<rparr> else s
      | None \<Rightarrow> s)"

section \<open>Storing\<close>

definition must_rotate :: "block_store \<Rightarrow> bytes \<Rightarrow> bool" where
  "must_rotate s raw \<longleftrightarrow>
     0 < cur_offset s \<and> max_file_size s < cur_offset s + of_nat (length raw)"

definition next_file :: "block_store \<Rightarrow> block_store" where
  "next_file s = s\<lparr>cur_file_num := cur_file_num s + 1, cur_offset := 0\<rparr>"

definition block_record :: "bytes \<Rightarrow> bytes" where
  "block_record raw = u32_to_le (of_nat (length raw)) @ raw"

definition store_block :: "block_store \<Rightarrow> bytes \<Rightarrow> block_pos \<times> block_store" where
  "store_block s raw =
     (let s1 = (if must_rotate s raw then next_file s else s);
          s2 = s1\<lparr>bs_files := append_file (cur_file_num s1) (block_record raw) (bs_files s1)\<rparr>;
          pos = \<lparr>file_num = cur_file_num s1, pos_offset = cur_offset s1,
                 pos_size = of_nat (length raw)\<rparr>
      in (pos, s2\<lparr>cur_offset := cur_offset s1 + (4 + of_nat (length raw))\<rparr>))"

definition store_block_async :: "bool \<Rightarrow> block_store \<Rightarrow> bytes \<Rightarrow> block_pos \<times> block_store" where
  "store_block_async ack s raw =
     (let s1 = (if must_rotate s raw then next_file (block_store_flush ack s) else s);
          pos = \<lparr>file_num = cur_file_num s1, pos_offset = cur_offset s1,
                 pos_size = of_nat (length raw)\<rparr>;
          s2 = s1\<lparr>cur_offset := cur_offset s1 + (4 + of_nat (length raw))\<rparr>
      in (pos,
          case write_queue s2 of
            Some q \<Rightarrow> s2\<lparr>write_queue := Some (q @ [(file_num pos, block_record raw)])\<rparr>
          | None \<Rightarrow> s2\<lparr>bs_files := append_file (file_num pos) (block_record raw) (bs_files s2)\<rparr>))"

section \<open>Reading\<close>

text \<open>A positional read of exactly \<open>len\<close> bytes.\<close>

definition read_exact_at :: "bytes \<Rightarrow> u64 \<Rightarrow> nat \<Rightarrow> storage_error + bytes" where
  "read_exact_at data off len =
     (if unat off + len \<le> length data then Inr (take len (drop (unat off) data)) else Inl Io)"

definition read_block_at :: "block_files \<Rightarrow> block_pos \<Rightarrow> storage_error + bytes" where
  "read_block_at files pos =
     bindE (ok_or Io (map_of files (file_num pos))) (\<lambda>data.
     bindE (read_exact_at data (pos_offset pos) 4) (\<lambda>size_buf.
       let size = u32_from_le size_buf
       in if size \<noteq> pos_size pos then Inl (Serialization ''block size mismatch'')
          else read_exact_at data (pos_offset pos + 4) (unat size)))"

definition read_block ::
  "bool \<Rightarrow> block_store \<Rightarrow> block_pos \<Rightarrow> (storage_error + bytes) \<times> block_store"
where
  "read_block ack s pos =
     (case read_block_at (bs_files s) pos of
        Inr data \<Rightarrow> (Inr data, s)
      | Inl first_err \<Rightarrow>
          (let s' = block_store_flush ack s
           in case read_block_at (bs_files s') pos of
                Inr data \<Rightarrow> (Inr data, s')
              | Inl _ \<Rightarrow> (Inl first_err, s')))"

definition read_block_slice_at :: "block_files \<Rightarrow> block_pos \<Rightarrow> u32 \<Rightarrow> u32 \<Rightarrow> storage_error + bytes" where
  "read_block_slice_at files pos off len =
     bindE (ok_or Io (map_of files (file_num pos))) (\<lambda>data.
       read_exact_at data (pos_offset pos + 4 + ucast off) (unat len))"

definition read_block_slice ::
  "bool \<Rightarrow> block_store \<Rightarrow> block_pos \<Rightarrow> u32 \<Rightarrow> u32 \<Rightarrow> (storage_error + bytes) \<times> block_store"
where
  "read_block_slice ack s pos off len =
     (if 2 ^ 32 \<le> unat off + unat len then (Inl (Serialization ''block slice range overflow''), s)
      else if pos_size pos < off + len then (Inl (Serialization ''block slice out of range''), s)
      else
        (case read_block_slice_at (bs_files s) pos off len of
           Inr data \<Rightarrow> (Inr data, s)
         | Inl first_err \<Rightarrow>
             (let s' = block_store_flush ack s
              in case read_block_slice_at (bs_files s') pos off len of
                   Inr data \<Rightarrow> (Inr data, s')
                 | Inl _ \<Rightarrow> (Inl first_err, s'))))"

section \<open>Verification and reindexing\<close>

text \<open>\<open>decode_block\<close> is the crate's consensus decoding of a block.\<close>

definition verify_block ::
  "bitcoin_crate \<Rightarrow> (bytes \<Rightarrow> block option) \<Rightarrow> block_store \<Rightarrow> block_pos \<Rightarrow> bytes \<Rightarrow> bool"
where
  "verify_block L decode_block s pos expected_hash =
     (case map_of (bs_files s) (file_num pos) of
        None \<Rightarrow> False
      | Some data \<Rightarrow>
          if of_nat (length data) < pos_offset pos + 4 + ucast (pos_size pos) then False
          else
            (case read_exact_at data (pos_offset pos) 4 of
               Inl _ \<Rightarrow> False
             | Inr size_buf \<Rightarrow>
                 if u32_from_le size_buf \<noteq> pos_size pos then False
                 else
                   (case read_exact_at data (pos_offset pos + 4) (unat (pos_size pos)) of
                      Inl _ \<Rightarrow> False
                    | Inr raw \<Rightarrow>
                        (case decode_block raw of
                           None \<Rightarrow> False
                         | Some blk \<Rightarrow> block_hash L (blk_header blk) = expected_hash))))"

definition scan_height ::
  "bitcoin_crate \<Rightarrow> (bytes \<Rightarrow> block option) \<Rightarrow> block_store \<Rightarrow> u32 \<Rightarrow> u32 list \<times> header_index
     \<Rightarrow> u32 list \<times> header_index"
where
  "scan_height L decode_block s h = (\<lambda>(missing, hi).
     case get_hash_at_height hi h of
       Inr (Some hash) \<Rightarrow>
         (case get_block_pos hi hash of
            Inr (Some pos) \<Rightarrow>
              if verify_block L decode_block s pos hash then (missing, hi)
              else (missing @ [h], remove_block_pos hash hi)
          | _ \<Rightarrow> (missing @ [h], hi))
     | _ \<Rightarrow> (missing @ [h], hi))"

definition scan_block_store ::
  "bitcoin_crate \<Rightarrow> (bytes \<Rightarrow> block option) \<Rightarrow> block_store \<Rightarrow> header_index \<Rightarrow> u32 \<Rightarrow> u32
     \<Rightarrow> u32 list \<times> header_index"
where
  "scan_block_store L decode_block s hi from to =
     fold (scan_height L decode_block s) (heights_between from to) ([], hi)"

text \<open>One block found in a file: only a block of the canonical header chain without a position gets
  one.\<close>

definition reindex_record ::
  "bitcoin_crate \<Rightarrow> (bytes \<Rightarrow> block option) \<Rightarrow> block_pos \<Rightarrow> bytes \<Rightarrow> header_index \<times> u32
     \<Rightarrow> header_index \<times> u32"
where
  "reindex_record L decode_block pos raw = (\<lambda>(hi, indexed).
     case decode_block raw of
       None \<Rightarrow> (hi, indexed)
     | Some blk \<Rightarrow>
         (let hash = block_hash L (blk_header blk);
              canonical =
                (case get_header L hi hash of
                   Inr (Some stored) \<Rightarrow>
                     ok_flatten (get_hash_at_height hi (sh_height stored)) = Some hash
                 | _ \<Rightarrow> False)
          in if \<not> canonical then (hi, indexed)
             else if ok_flatten (get_block_pos hi hash) \<noteq> None then (hi, indexed)
             else (set_block_pos hash pos hi, indexed + 1)))"

function reindex_file ::
  "bitcoin_crate \<Rightarrow> (bytes \<Rightarrow> block option) \<Rightarrow> u32 \<Rightarrow> bytes \<Rightarrow> nat \<Rightarrow> header_index \<times> u32
     \<Rightarrow> header_index \<times> u32"
where
  "reindex_file L decode_block n data off st =
     (if off + 4 < length data then
        (let size = u32_from_le (take 4 (drop off data))
         in if size = 0 \<or> 4000000 < size \<or> length data < off + 4 + unat size then st
            else reindex_file L decode_block n data (off + 4 + unat size)
                   (reindex_record L decode_block
                      \<lparr>file_num = n, pos_offset = of_nat off, pos_size = size\<rparr>
                      (take (unat size) (drop (off + 4) data)) st))
      else st)"
  by pat_completeness auto
termination
  by (relation "measure (\<lambda>(L, D, n, data, off, st). length data - off)") auto

declare reindex_file.simps [simp del]

text \<open>The outer loop walks the file numbers up from 0 until a file is missing; \<open>stop n\<close> tells whether
  a shutdown request is seen before file \<open>n\<close>. It ends because the directory is finite: \<open>fuel\<close>
  bounds the number of files it visits.\<close>

fun reindex_loop ::
  "bitcoin_crate \<Rightarrow> (bytes \<Rightarrow> block option) \<Rightarrow> block_store \<Rightarrow> (u32 \<Rightarrow> bool) \<Rightarrow> nat \<Rightarrow> u32
     \<Rightarrow> header_index \<times> u32 \<Rightarrow> (header_index \<times> u32) option"
where
  "reindex_loop L decode_block s stop 0 n st = None"
| "reindex_loop L decode_block s stop (Suc fuel) n st =
     (if stop n then Some st
      else
        (case map_of (bs_files s) n of
           None \<Rightarrow> Some st
         | Some data \<Rightarrow>
             reindex_loop L decode_block s stop fuel (n + 1)
               (reindex_file L decode_block n data 0 st)))"

definition reindex_block_files_cancellable ::
  "bitcoin_crate \<Rightarrow> (bytes \<Rightarrow> block option) \<Rightarrow> block_store \<Rightarrow> (u32 \<Rightarrow> bool) \<Rightarrow> header_index
     \<Rightarrow> (header_index \<times> u32) option"
where
  "reindex_block_files_cancellable L decode_block s stop hi =
     reindex_loop L decode_block s stop (Suc (length (bs_files s))) 0 (hi, 0)"

definition reindex_block_files ::
  "bitcoin_crate \<Rightarrow> (bytes \<Rightarrow> block option) \<Rightarrow> block_store \<Rightarrow> header_index \<Rightarrow> (header_index \<times> u32) option"
where
  "reindex_block_files L decode_block s hi =
     reindex_block_files_cancellable L decode_block s (\<lambda>_. False) hi"

end
