(* ===== verification/Block_Store_Facts.thy ===== *)
theory Block_Store_Facts
  imports Block_Store
begin

text \<open>
  What the flat-file storage promises. The content of a file is what is on disk followed by what is
  queued for it; neither the writer nor a flush changes it, and a store only appends to the current
  file. So every position handed out stays readable, however calls and the writer's turns
  interleave, until its file is deleted.
\<close>

section \<open>Contents\<close>

definition queued :: "u32 \<Rightarrow> (u32 \<times> bytes) list \<Rightarrow> bytes" where
  "queued n q = concat (map snd (filter (\<lambda>(m, _). m = n) q))"

definition file_content :: "block_store \<Rightarrow> u32 \<Rightarrow> bytes" where
  "file_content s n =
     file_data (bs_files s) n @ (case write_queue s of None \<Rightarrow> [] | Some q \<Rightarrow> queued n q)"

lemma map_of_append_file:
  "map_of (append_file n d files) = (map_of files)(n \<mapsto> file_data files n @ d)"
  by (simp add: append_file_def update_conv')

lemma file_data_append_file [simp]:
  "file_data (append_file n d files) m = file_data files m @ (if m = n then d else [])"
  by (simp add: file_data_def map_of_append_file)

lemma queued_append [simp]: "queued n (p @ q) = queued n p @ queued n q"
  by (simp add: queued_def)

lemma queued_simps [simp]:
  "queued n [] = []" "queued n ((m, d) # q) = (if m = n then d else []) @ queued n q"
  by (simp_all add: queued_def)

lemma queued_same:
  "\<forall>x\<in>set q. fst x = n \<Longrightarrow> queued m q = (if m = n then concat (map snd q) else [])"
  by (induction q) auto

lemma queued_coalesce:
  "queued m q = (if m = n then fst (coalesce k n q) else []) @ queued m (snd (coalesce k n q))"
proof -
  define same where "same = takeWhile (\<lambda>(m, _). m = n) (take k q)"
  have pre: "q = same @ drop (length same) q"
    by (metis append_take_drop_id same_def takeWhile_eq_take append_assoc append_eq_conv_conj)
  have "\<forall>x\<in>set same. fst x = n"
    by (auto simp: same_def dest: set_takeWhileD)
  then have "queued m same = (if m = n then concat (map snd same) else [])"
    by (rule queued_same)
  then show ?thesis
    by (subst pre) (simp add: coalesce_def same_def [symmetric] Let_def)
qed

lemma file_data_drain:
  "file_data (drain_queue q files) m = file_data files m @ queued m q"
proof (induction q files rule: drain_queue.induct)
  case (2 n data q files)
  have "queued m ((n, data) # q) =
    (if m = n then data else []) @ (if m = n then fst (coalesce (length q) n q) else [])
      @ queued m (snd (coalesce (length q) n q))"
    using queued_coalesce [of m q n "length q"] by simp
  with 2 show ?case by simp
qed simp

lemma content_flush [simp]: "file_content (block_store_flush ack s) n = file_content s n"
  by (simp add: file_content_def block_store_flush_def file_data_drain split: option.split)

lemma content_writer [simp]: "file_content (writer_step k s) n = file_content s n"
proof (cases "write_queue s")
  case (Some q)
  show ?thesis
  proof (cases q)
    case (Cons x q')
    obtain m d where x: "x = (m, d)" by (cases x)
    show ?thesis
      using queued_coalesce [of n q' m k]
      by (simp add: file_content_def writer_step_def Some Cons x split: prod.split)
  qed (simp add: writer_step_def Some)
qed (simp add: writer_step_def)

lemma flush_fields [simp]:
  "cur_file_num (block_store_flush ack s) = cur_file_num s"
  "cur_offset (block_store_flush ack s) = cur_offset s"
  "max_file_size (block_store_flush ack s) = max_file_size s"
  by (simp_all add: block_store_flush_def split: option.split)

lemma writer_fields [simp]:
  "cur_file_num (writer_step k s) = cur_file_num s"
  "cur_offset (writer_step k s) = cur_offset s"
  "max_file_size (writer_step k s) = max_file_size s"
  by (simp_all add: writer_step_def split: option.split list.split prod.split)

section \<open>Histories\<close>

text \<open>The history of a store: the positions handed out so far, with the blocks they were handed out
  for, less those whose file has been deleted. A block is shorter than \<open>2 ^ 32\<close> bytes, and a store
  does not run past the last file number.\<close>

type_synonym history = "(block_pos \<times> bytes) list"

inductive bs_step :: "block_store \<times> history \<Rightarrow> block_store \<times> history \<Rightarrow> bool" where
  step_store: "length raw < 2 ^ 32 \<Longrightarrow> must_rotate s raw \<longrightarrow> cur_file_num s \<noteq> - 1 \<Longrightarrow>
     store_block_async ack s raw = (pos, s') \<Longrightarrow> bs_step (s, log) (s', (pos, raw) # log)"
| step_start: "write_queue s = None \<Longrightarrow> bs_step (s, log) (start_background_writer s, log)"
| step_writer: "bs_step (s, log) (writer_step k s, log)"
| step_flush: "bs_step (s, log) (block_store_flush ack s, log)"
| step_delete: "delete_block_file n s = Inr (sz, s') \<Longrightarrow>
     bs_step (s, log) (s', filter (\<lambda>(pos, _). file_num pos \<noteq> n) log)"

definition logged :: "block_store \<Rightarrow> block_pos \<Rightarrow> bytes \<Rightarrow> bool" where
  "logged s pos raw \<longleftrightarrow>
     length raw < 2 ^ 32 \<and> pos_size pos = of_nat (length raw) \<and> file_num pos \<le> cur_file_num s \<and>
     unat (pos_offset pos) + 4 + length raw < 2 ^ 64 \<and>
     (\<exists>before after. file_content s (file_num pos) = before @ block_record raw @ after \<and>
        length before = unat (pos_offset pos))"

definition bs_inv :: "block_store \<times> history \<Rightarrow> bool" where
  "bs_inv = (\<lambda>(s, log).
     unat (max_file_size s) < 2 ^ 63 \<and>
     unat (cur_offset s) \<le> unat (max_file_size s) + 2 ^ 32 + 4 \<and>
     length (file_content s (cur_file_num s)) = unat (cur_offset s) \<and>
     (\<forall>n. cur_file_num s < n \<longrightarrow> file_content s n = []) \<and>
     (\<forall>(pos, raw) \<in> set log. logged s pos raw))"

lemma logged_cong:
  assumes "logged s pos raw" and "file_content s' (file_num pos) = file_content s (file_num pos) @ ext"
    and "cur_file_num s \<le> cur_file_num s'"
  shows "logged s' pos raw"
  using assms unfolding logged_def by fastforce

lemma logged_flushed: "logged (block_store_flush ack s) pos raw \<longleftrightarrow> logged s pos raw"
  by (simp add: logged_def)

lemma logged_writer: "logged (writer_step k s) pos raw \<longleftrightarrow> logged s pos raw"
  by (simp add: logged_def)

lemma inv_flush: "bs_inv (s, log) \<Longrightarrow> bs_inv (block_store_flush ack s, log)"
  by (auto simp: bs_inv_def logged_flushed)

lemma inv_writer: "bs_inv (s, log) \<Longrightarrow> bs_inv (writer_step k s, log)"
  by (auto simp: bs_inv_def logged_writer)

text \<open>Rotation moves to a fresh file.\<close>

lemma content_next_file [simp]: "file_content (next_file s) n = file_content s n"
  by (simp add: file_content_def next_file_def)

lemma u32_less_succ:
  fixes w :: u32
  assumes "w \<noteq> - 1"
  shows "w < w + 1"
proof -
  have "unat (- 1 :: u32) = 2 ^ 32 - 1" by (simp add: unsigned_minus_1_eq_mask mask_eq_exp_minus_1)
  then have "unat w \<noteq> 2 ^ 32 - 1" using assms by (metis word_unat_eq_iff)
  then have "unat w + 1 < 2 ^ 32" using unsigned_less [of w, where ?'a = nat] by simp
  then show ?thesis by (simp add: word_less_nat_alt unat_word_ariths)
qed

lemma inv_next_file:
  assumes inv: "bs_inv (s, log)" and room: "cur_file_num s \<noteq> - 1"
  shows "bs_inv (next_file s, log)"
proof -
  have up: "cur_file_num s < cur_file_num s + 1"
    using room by (rule u32_less_succ)
  have "logged (next_file s) pos raw" if "logged s pos raw" for pos raw
    using up by (intro logged_cong [OF that, of _ "[]"]) (simp_all add: next_file_def file_content_def)
  moreover have "file_content s n = []" if "cur_file_num s + 1 \<le> n" for n
    using inv up that by (simp add: bs_inv_def)
  ultimately show ?thesis
    using inv by (auto simp: bs_inv_def next_file_def file_content_def)
qed

lemma store_async_effect:
  fixes s raw ack
  defines "s1 \<equiv> if must_rotate s raw then next_file (block_store_flush ack s) else s"
  assumes "store_block_async ack s raw = (pos, s')"
  shows "pos = \<lparr>file_num = cur_file_num s1, pos_offset = cur_offset s1, pos_size = of_nat (length raw)\<rparr>"
    and "file_content s' n =
      file_content s1 n @ (if n = cur_file_num s1 then block_record raw else [])"
    and "cur_file_num s' = cur_file_num s1" and "max_file_size s' = max_file_size s1"
    and "cur_offset s' = cur_offset s1 + (4 + of_nat (length raw))"
  using assms(2) unfolding store_block_async_def s1_def [symmetric] Let_def
  by (auto simp: file_content_def split: option.splits)

lemma no_wrap_offset:
  fixes off lim :: u64
  assumes "length raw < 2 ^ 32" and "unat lim < 2 ^ 63" and "unat off \<le> unat lim + 2 ^ 32 + 4"
    and "\<not> (0 < off \<and> lim < off + of_nat (length raw))"
  shows "unat off + 4 + length raw < 2 ^ 64"
    and "unat (off + (4 + of_nat (length raw))) = unat off + 4 + length raw"
    and "unat off + 4 + length raw \<le> unat lim + 2 ^ 32 + 4"
proof -
  have len: "unat (of_nat (length raw) :: u64) = length raw"
    using assms(1) by (simp add: unat_of_nat)
  have sum: "unat (off + of_nat (length raw)) = unat off + length raw"
    using assms(1-3) len by (simp add: unat_word_ariths)
  show lim: "unat off + 4 + length raw \<le> unat lim + 2 ^ 32 + 4"
  proof (cases "off = 0")
    case True
    then show ?thesis using assms(1) by simp
  next
    case False
    then have "off + of_nat (length raw) \<le> lim"
      using assms(4) by (simp add: word_gt_0)
    then have "unat off + length raw \<le> unat lim"
      using sum by (simp add: word_le_nat_alt)
    then show ?thesis by simp
  qed
  then show bound: "unat off + 4 + length raw < 2 ^ 64" using assms(2) by simp
  have "unat (4 + of_nat (length raw) :: u64) = 4 + length raw"
    using assms(1) len by (simp add: unat_word_ariths)
  then show "unat (off + (4 + of_nat (length raw))) = unat off + 4 + length raw"
    using bound by (simp add: unat_word_ariths)
qed

lemma length_block_record [simp]: "length (block_record raw) = 4 + length raw"
  by (simp add: block_record_def)

lemma inv_store:
  assumes inv: "bs_inv (s, log)" and len: "length raw < 2 ^ 32"
    and room: "must_rotate s raw \<longrightarrow> cur_file_num s \<noteq> - 1"
    and st: "store_block_async ack s raw = (pos, s')"
  shows "bs_inv (s', (pos, raw) # log)"
proof -
  define s1 where "s1 = (if must_rotate s raw then next_file (block_store_flush ack s) else s)"
  note eff = store_async_effect [OF st, folded s1_def]
  have inv1: "bs_inv (s1, log)"
    using inv room unfolding s1_def by (simp add: inv_next_file inv_flush)
  have fits: "\<not> (0 < cur_offset s1 \<and> max_file_size s1 < cur_offset s1 + of_nat (length raw))"
    by (auto simp: s1_def must_rotate_def next_file_def)
  note nw = no_wrap_offset [OF len, of "max_file_size s1" "cur_offset s1"]
  have off: "unat (cur_offset s1) + 4 + length raw < 2 ^ 64"
    "unat (cur_offset s') = unat (cur_offset s1) + 4 + length raw"
    "unat (cur_offset s') \<le> unat (max_file_size s1) + 2 ^ 32 + 4"
    using nw inv1 fits by (simp_all add: bs_inv_def eff)
  have old: "logged s' p r" if "logged s1 p r" for p r
    by (rule logged_cong [OF that eff(2)]) (simp add: eff)
  have "logged s' pos raw"
    unfolding logged_def using inv1 off len
    by (simp add: eff bs_inv_def)
      (rule exI [of _ "file_content s1 (cur_file_num s1)"], simp)
  moreover have "\<forall>n. cur_file_num s' < n \<longrightarrow> file_content s' n = []"
    using inv1 by (auto simp: bs_inv_def eff)
  moreover have "length (file_content s' (cur_file_num s')) = unat (cur_offset s')"
    using inv1 off by (simp add: bs_inv_def eff)
  ultimately show ?thesis
    using inv1 off old by (auto simp: bs_inv_def eff)
qed

lemma inv_delete:
  assumes inv: "bs_inv (s, log)" and del: "delete_block_file n s = Inr (sz, s')"
  shows "bs_inv (s', filter (\<lambda>(pos, _). file_num pos \<noteq> n) log)"
proof -
  from del have n: "n < cur_file_num s" and s': "s' = s\<lparr>bs_files := AList.delete n (bs_files s)\<rparr>"
    by (auto simp: delete_block_file_def split: if_splits option.splits)
  have other: "file_content s' m = file_content s m" if "m \<noteq> n" for m
    using that by (simp add: s' file_content_def file_data_def delete_conv')
  have "logged s' pos raw" if "logged s pos raw" "file_num pos \<noteq> n" for pos raw
    by (rule logged_cong [OF that(1), of _ "[]"]) (simp_all add: other that, simp add: s')
  then show ?thesis
    using inv n other [of "cur_file_num s"] other by (auto simp: bs_inv_def s')
qed

lemma inv_start:
  assumes inv: "bs_inv (s, log)" and off: "write_queue s = None"
  shows "bs_inv (start_background_writer s, log)"
proof -
  have c: "file_content (start_background_writer s) n = file_content s n" for n
    using off by (simp add: start_background_writer_def file_content_def)
  have "logged (start_background_writer s) pos raw \<longleftrightarrow> logged s pos raw" for pos raw
    unfolding logged_def c by (simp add: start_background_writer_def)
  with inv show ?thesis unfolding bs_inv_def split c by (auto simp: start_background_writer_def)
qed

lemma bs_step_inv: "bs_step x y \<Longrightarrow> bs_inv x \<Longrightarrow> bs_inv y"
  by (induction rule: bs_step.induct) (simp_all add: inv_store inv_start inv_writer inv_flush inv_delete)

lemma bs_reachable_inv: "bs_step\<^sup>*\<^sup>* x y \<Longrightarrow> bs_inv x \<Longrightarrow> bs_inv y"
  by (induction rule: rtranclp_induct) (simp_all add: bs_step_inv)

text \<open>A freshly opened directory satisfies the invariant, when the numbering has room and the last
  file's length fits a \<^verbatim>\<open>u64\<close>.\<close>

lemma file_data_absent: "n \<notin> fst ` set files \<Longrightarrow> file_data files n = []"
  by (metis file_data_def map_of_eq_None_iff option.simps(4))

lemma inv_open:
  assumes "unat lim < 2 ^ 63" and "\<forall>n. length (file_data dir n) < 2 ^ 64"
    and "- 1 \<notin> fst ` set dir"
  shows "bs_inv (open_with_max_file_size dir lim, [])"
proof (cases "dir = []")
  case True
  then show ?thesis
    using assms(1) by (simp add: open_with_max_file_size_def find_latest_file_def bs_inv_def
        file_content_def file_data_def)
next
  case False
  define m where "m = Max (fst ` set dir)"
  have mem: "m \<in> fst ` set dir" using False by (simp add: m_def)
  have above: "file_data dir n = []" if "m < n" for n
  proof (rule file_data_absent)
    show "n \<notin> fst ` set dir"
      using that Max_ge [of "fst ` set dir" n] unfolding m_def by (meson finite_imageI finite_set leD)
  qed
  have "m \<noteq> - 1" using mem assms(3) by metis
  then have up: "m < m + 1" by (rule u32_less_succ)
  have len: "unat (of_nat (length (file_data dir m)) :: u64) = length (file_data dir m)"
    using assms(2) by (simp add: unat_of_nat)
  show ?thesis
    using False assms(1) above up len
    by (auto simp: open_with_max_file_size_def find_latest_file_def bs_inv_def file_content_def
        m_def [symmetric] Let_def word_less_nat_alt)
qed

section \<open>Reading back\<close>

text \<open>A disk that holds a prefix of the content answers with the block or with a short read.\<close>

lemma read_exact_at_prefix:
  assumes "read_exact_at data off n = Inr x"
  shows "read_exact_at (data @ ext) off n = Inr x"
  using assms by (auto simp: read_exact_at_def split: if_splits)

lemma read_record:
  assumes len: "length raw < 2 ^ 32" and size: "pos_size pos = of_nat (length raw)"
    and off: "unat (pos_offset pos) + 4 + length raw < 2 ^ 64"
    and data: "data = before @ block_record raw @ after" "length before = unat (pos_offset pos)"
  shows "read_exact_at data (pos_offset pos) 4 = Inr (u32_to_le (of_nat (length raw)))"
    and "read_exact_at data (pos_offset pos + 4) (unat (pos_size pos)) = Inr raw"
proof -
  have "unat (of_nat (length raw) :: u32) = length raw" using len by (simp add: unat_of_nat)
  moreover have "unat (pos_offset pos + 4) = unat (pos_offset pos) + 4"
    using off by (simp add: unat_word_ariths)
  ultimately show "read_exact_at data (pos_offset pos) 4 = Inr (u32_to_le (of_nat (length raw)))"
    "read_exact_at data (pos_offset pos + 4) (unat (pos_size pos)) = Inr raw"
    using data size by (simp_all add: read_exact_at_def block_record_def)
qed

lemma read_block_at_prefix:
  assumes lg: "logged s pos raw" and ok: "read_block_at (bs_files s) pos = Inr x"
  shows "x = raw"
proof -
  obtain before after where c: "file_content s (file_num pos) = before @ block_record raw @ after"
    "length before = unat (pos_offset pos)"
    using lg by (auto simp: logged_def)
  obtain data sb where d: "map_of (bs_files s) (file_num pos) = Some data"
    "read_exact_at data (pos_offset pos) 4 = Inr sb"
    "read_exact_at data (pos_offset pos + 4) (unat (pos_size pos)) = Inr x"
    using ok by (auto simp: read_block_at_def bindE_eq_Inr ok_or_eq_Inr Let_def split: if_splits)
  obtain ext where "file_content s (file_num pos) = data @ ext"
    using d(1) by (auto simp: file_content_def file_data_def)
  then have "read_exact_at (before @ block_record raw @ after) (pos_offset pos + 4)
      (unat (pos_size pos)) = Inr x"
    using read_exact_at_prefix [OF d(3)] c(1) by simp
  with read_record(2) [OF _ _ _ refl c(2)] lg show ?thesis by (auto simp: logged_def)
qed

lemma flushed_disk:
  assumes "file_content s n \<noteq> []"
  shows "map_of (bs_files (block_store_flush True s)) n = Some (file_content s n)"
proof -
  have "file_data (bs_files (block_store_flush True s)) n = file_content s n"
    by (simp add: file_content_def block_store_flush_def file_data_drain split: option.split)
  with assms show ?thesis by (auto simp: file_data_def split: option.splits)
qed

lemma logged_disk:
  assumes "logged s pos raw"
  obtains before after where
    "map_of (bs_files (block_store_flush True s)) (file_num pos) = Some (before @ block_record raw @ after)"
    "length before = unat (pos_offset pos)"
proof -
  obtain before after where c: "file_content s (file_num pos) = before @ block_record raw @ after"
    "length before = unat (pos_offset pos)"
    using assms by (auto simp: logged_def)
  then have "file_content s (file_num pos) \<noteq> []"
    using length_block_record [of raw] by (cases "block_record raw") auto
  from flushed_disk [OF this] c that show thesis by simp
qed

lemma read_block_logged:
  assumes lg: "logged s pos raw"
  shows "fst (read_block True s pos) = Inr raw"
proof (cases "read_block_at (bs_files s) pos")
  case (Inr x)
  with read_block_at_prefix [OF lg Inr] show ?thesis by (simp add: read_block_def)
next
  case (Inl e)
  obtain before after where d:
    "map_of (bs_files (block_store_flush True s)) (file_num pos) = Some (before @ block_record raw @ after)"
    "length before = unat (pos_offset pos)"
    using logged_disk [OF lg] .
  have "read_block_at (bs_files (block_store_flush True s)) pos = Inr raw"
    using read_record [OF _ _ _ refl d(2), of raw after] lg
    by (simp add: read_block_at_def d(1) logged_def)
  with Inl show ?thesis by (simp add: read_block_def)
qed

lemma read_block_at_slice_prefix:
  fixes off len :: u32
  assumes "data = before @ block_record raw @ after" and "length before = unat (pos_offset pos)"
    and "unat off + unat len \<le> length raw"
    and "unat (pos_offset pos) + 4 + length raw < 2 ^ 64"
  shows "read_exact_at data (pos_offset pos + 4 + ucast off) (unat len) =
    Inr (take (unat len) (drop (unat off) raw))"
proof -
  have "unat (ucast off :: u64) = unat off"
    using unsigned_less [of off, where ?'a = nat]
    by (simp add: unsigned_ucast_eq take_bit_nat_eq_self_iff)
  then have "unat (pos_offset pos + 4 + ucast off) = unat (pos_offset pos) + 4 + unat off"
    using assms(3,4) by (simp add: unat_word_ariths)
  then show ?thesis
    using assms by (simp add: read_exact_at_def block_record_def)
qed

lemma read_slice_logged:
  assumes lg: "logged s pos raw" and fits: "unat off + unat len \<le> length raw"
  shows "fst (read_block_slice True s pos off len) = Inr (take (unat len) (drop (unat off) raw))"
proof -
  have len: "unat (of_nat (length raw) :: u32) = length raw"
    using lg by (simp add: logged_def unat_of_nat)
  have total: "unat off + unat len < 2 ^ 32" "\<not> pos_size pos < off + len"
    using lg fits len by (auto simp: logged_def word_less_nat_alt unat_word_ariths)
  obtain before after where d:
    "map_of (bs_files (block_store_flush True s)) (file_num pos) = Some (before @ block_record raw @ after)"
    "length before = unat (pos_offset pos)"
    using logged_disk [OF lg] .
  have bound: "unat (pos_offset pos) + 4 + length raw < 2 ^ 64" using lg by (simp add: logged_def)
  note slice = read_block_at_slice_prefix [OF refl d(2) fits bound]
  show ?thesis
  proof (cases "read_block_slice_at (bs_files s) pos off len")
    case (Inl e)
    then show ?thesis
      using total slice [of after] by (simp add: read_block_slice_def read_block_slice_at_def d(1))
  next
    case (Inr x)
    then obtain data where m: "map_of (bs_files s) (file_num pos) = Some data"
      "read_exact_at data (pos_offset pos + 4 + ucast off) (unat len) = Inr x"
      by (auto simp: read_block_slice_at_def bindE_eq_Inr ok_or_eq_Inr)
    obtain ext where "file_content s (file_num pos) = data @ ext"
      using m(1) by (auto simp: file_content_def file_data_def)
    moreover obtain bef aft where c: "file_content s (file_num pos) = bef @ block_record raw @ aft"
      "length bef = unat (pos_offset pos)"
      using lg by (auto simp: logged_def)
    ultimately have "x = take (unat len) (drop (unat off) raw)"
      using read_exact_at_prefix [OF m(2), of ext]
        read_block_at_slice_prefix [OF refl c(2) fits bound, of aft] by simp
    with Inr total show ?thesis by (simp add: read_block_slice_def)
  qed
qed

section \<open>Reindexing\<close>

text \<open>The directory scan visits distinct file numbers, so it never exhausts its bound.\<close>

lemma reindex_loop_ends:
  assumes "card {m \<in> fst ` set (bs_files s). unat n \<le> unat m} < fuel"
    and "- 1 \<notin> fst ` set (bs_files s)"
  shows "\<exists>r. reindex_loop L D s stop fuel n st = Some r"
  using assms(1)
proof (induction fuel arbitrary: n st)
  case (Suc fuel)
  show ?case
  proof (cases "map_of (bs_files s) n")
    case (Some data)
    then have mem: "n \<in> fst ` set (bs_files s)" by (metis map_of_eq_None_iff option.distinct(1))
    then have "n \<noteq> - 1" using assms(2) by metis
    then have "unat (n + 1) = Suc (unat n)"
      using u32_less_succ [of n] by (simp add: word_less_nat_alt unat_word_ariths mod_Suc split: if_splits)
    then have "{m \<in> fst ` set (bs_files s). unat (n + 1) \<le> unat m} =
        {m \<in> fst ` set (bs_files s). unat n \<le> unat m} - {n}"
      by (auto simp: Suc_le_eq le_less) (metis word_unat_eq_iff)
    then have "card {m \<in> fst ` set (bs_files s). unat (n + 1) \<le> unat m} < fuel"
      using Suc.prems mem card_Diff1_less [of "{m \<in> fst ` set (bs_files s). unat n \<le> unat m}" n] by simp
    with Suc.IH Some show ?thesis by simp
  qed simp
qed simp

section \<open>Properties\<close>

text \<open>
  C4: Read your writes. Take any directory opened as a block store and any interleaving of
  asynchronous stores, turns of the background writer (with any coalescing), flushes and deletions
  of old block files. For every position handed out whose file has not been deleted, a read at that
  position returns exactly the block it was handed out for, and a read of a range inside it returns
  that range, even when the bytes have not reached the disk yet.
\<close>

theorem stored_blocks_readable:
  assumes "unat lim < 2 ^ 63" and "\<forall>n. length (file_data dir n) < 2 ^ 64"
    and "- 1 \<notin> fst ` set dir"
    and "bs_step\<^sup>*\<^sup>* (open_with_max_file_size dir lim, []) (s, log)"
    and "(pos, raw) \<in> set log"
  shows "fst (read_block True s pos) = Inr raw \<and>
    (unat off + unat len \<le> length raw \<longrightarrow>
      fst (read_block_slice True s pos off len) = Inr (take (unat len) (drop (unat off) raw)))"
proof -
  have "bs_inv (s, log)"
    using bs_reachable_inv [OF assms(4)] inv_open [OF assms(1-3)] by simp
  with assms(5) have "logged s pos raw" by (auto simp: bs_inv_def)
  then show ?thesis by (simp add: read_block_logged read_slice_logged)
qed

definition demo_store :: "block_pos \<times> block_store" where
  "demo_store = store_block_async True (start_background_writer (block_store_open [])) [1, 2, 3]"

lemma demo_store_run:
  "bs_step\<^sup>*\<^sup>* (open_with_max_file_size [] MAX_BLOCK_FILE_SIZE, [])
     (snd demo_store, [(fst demo_store, [1, 2, 3])])"
proof -
  have start: "bs_step (block_store_open [], [])
      (start_background_writer (block_store_open []), [])"
    by (rule step_start)
      (simp add: block_store_open_def open_with_max_file_size_def find_latest_file_def)
  have store: "bs_step (start_background_writer (block_store_open []), [])
      (snd demo_store, [(fst demo_store, [1, 2, 3])])"
    by (rule step_store [where ack = True])
      (simp_all add: demo_store_def must_rotate_def start_background_writer_def block_store_open_def
        open_with_max_file_size_def find_latest_file_def)
  from start store show ?thesis unfolding block_store_open_def by simp
qed

theorem stored_blocks_readable_witness:
  "write_queue (snd demo_store) \<noteq> Some [] \<and>
   fst (read_block True (snd demo_store) (fst demo_store)) = Inr [1, 2, 3] \<and>
   fst (read_block_slice True (snd demo_store) (fst demo_store) 1 2) = Inr [2, 3]"
proof -
  have "write_queue (snd demo_store) \<noteq> Some []" by code_simp
  moreover note stored_blocks_readable [OF _ _ _ demo_store_run, of "fst demo_store" "[1, 2, 3]" 1 2]
  ultimately show ?thesis by (simp add: MAX_BLOCK_FILE_SIZE_def file_data_def)
qed

end
