(* ===== verification/Prune.thy ===== *)
theory Prune
  imports Block_Store_Facts Utxo_Recovery Header_Chain
begin

text \<open>
  Block-file pruning, \<^verbatim>\<open>bitcoinpr-storage/src/prune.rs\<close>, over the block store, the header index and the
  UTXO set's undo records. The safety theorems say which blocks survive a pass, whatever it
  returns, and that a pass that completes leaves no position into a deleted file.
\<close>

section \<open>The pruner\<close>

definition MIN_KEEP_BLOCKS :: u32 where "MIN_KEEP_BLOCKS = 288"

record prune_report =
  files_deleted :: u32
  bytes_freed :: u64
  report_height :: u32

definition prune_ceiling :: "u32 \<Rightarrow> u32 option \<Rightarrow> u32 option \<Rightarrow> u32 option" where
  "prune_ceiling tip_height validated_height manual_height =
     (if tip_height < MIN_KEEP_BLOCKS then None
      else
        (let ceiling = min (tip_height - MIN_KEEP_BLOCKS)
               (case validated_height of Some v \<Rightarrow> v | None \<Rightarrow> 0);
             ceiling' = (case manual_height of Some manual \<Rightarrow> min ceiling manual | None \<Rightarrow> ceiling)
         in if ceiling' = 0 then None else Some ceiling'))"

definition hash_pos_file :: "header_index \<Rightarrow> u32 \<Rightarrow> storage_error + u32 option" where
  "hash_pos_file hi height =
     bindE (get_hash_at_height hi height) (\<lambda>r.
       case r of
         Some hash \<Rightarrow> bindE (get_block_pos hi hash) (\<lambda>p. Inr (map_option file_num p))
       | None \<Rightarrow> Inr None)"

text \<open>The files to delete, oldest first, until the total is back under the target.\<close>

fun select_files :: "u32 \<Rightarrow> u64 \<Rightarrow> u64 \<Rightarrow> (u32 \<times> u64) list \<Rightarrow> u32 list" where
  "select_files keep_file target_bytes tot [] = []"
| "select_files keep_file target_bytes tot ((num, sz) # files) =
     (if keep_file \<le> num \<or> tot \<le> target_bytes then []
      else num # select_files keep_file target_bytes (tot - sz) files)"

fun prune_heights ::
  "u32 list \<Rightarrow> u32 list \<Rightarrow> u32 \<Rightarrow> header_index \<Rightarrow> utxo_set
     \<Rightarrow> (storage_error + u32) \<times> header_index \<times> utxo_set"
where
  "prune_heights to_delete [] pruned_height hi us = (Inr pruned_height, hi, us)"
| "prune_heights to_delete (height # heights) pruned_height hi us =
     (case get_hash_at_height hi height of
        Inl e \<Rightarrow> (Inl e, hi, us)
      | Inr (Some hash) \<Rightarrow>
          (case get_block_pos hi hash of
             Inl e \<Rightarrow> (Inl e, hi, us)
           | Inr (Some pos) \<Rightarrow>
               if file_num pos \<in> set to_delete
               then prune_heights to_delete heights height (remove_block_pos hash hi)
                      (delete_undo hash us)
               else (Inr pruned_height, hi, us)
           | Inr None \<Rightarrow> prune_heights to_delete heights height hi us)
      | Inr None \<Rightarrow> prune_heights to_delete heights height hi us)"

fun delete_files ::
  "u32 list \<Rightarrow> u64 \<Rightarrow> u32 \<Rightarrow> block_store \<Rightarrow> (storage_error + u64 \<times> u32) \<times> block_store"
where
  "delete_files [] freed deleted s = (Inr (freed, deleted), s)"
| "delete_files (num # nums) freed deleted s =
     (case delete_block_file num s of
        Inl e \<Rightarrow> (Inl e, s)
      | Inr (sz, s') \<Rightarrow> delete_files nums (freed + sz) (deleted + 1) s')"

definition prune_block_files ::
  "block_store \<Rightarrow> header_index \<Rightarrow> utxo_set \<Rightarrow> u32 \<Rightarrow> u64
     \<Rightarrow> (storage_error + prune_report option) \<times> block_store \<times> header_index \<times> utxo_set"
where
  "prune_block_files s hi us ceiling_height target_bytes =
     (let files = list_block_files s;
          tot = sum_list (map snd files)
      in if tot \<le> target_bytes then (Inr None, s, hi, us)
         else
           (case hash_pos_file hi (ceiling_height + 1) of
              Inl e \<Rightarrow> (Inl e, s, hi, us)
            | Inr None \<Rightarrow> (Inr None, s, hi, us)
            | Inr (Some f) \<Rightarrow>
                (let keep_file = min f (cur_file_num s);
                     to_delete = select_files keep_file target_bytes tot files
                 in if to_delete = [] then (Inr None, s, hi, us)
                    else
                      (case get_pruned_height hi of
                         Inl e \<Rightarrow> (Inl e, s, hi, us)
                       | Inr ph \<Rightarrow>
                           (let start = (case ph of Some h \<Rightarrow> h + 1 | None \<Rightarrow> 0);
                                pruned0 = saturating_sub_u32 start 1
                            in case prune_heights to_delete (heights_between start ceiling_height)
                                      pruned0 hi us of
                                 (Inl e, hi', us') \<Rightarrow> (Inl e, s, hi', us')
                               | (Inr pruned_height, hi', us') \<Rightarrow>
                                   if pruned_height < start
                                   then (Inl (Serialization ''prune: no indexed blocks found''), s, hi', us')
                                   else
                                     (let hi'' = set_pruned_height pruned_height hi'
                                      in case delete_files (sort (remdups to_delete)) 0 0 s of
                                           (Inl e, s') \<Rightarrow> (Inl e, s', hi'', us')
                                         | (Inr (freed, deleted), s') \<Rightarrow>
                                             (Inr (Some \<lparr>files_deleted = deleted,
                                                bytes_freed = freed,
                                                report_height = pruned_height\<rparr>), s', hi'', us')))))))"

section \<open>What a pass leaves alone\<close>

lemma load_delete_undo:
  assumes "h \<noteq> h'"
  shows "load_undo (delete_undo h us) h' = load_undo us h'"
proof -
  have "map_of (filter (\<lambda>e. fst e \<noteq> h) xs) h' = map_of xs h'" for xs :: "(bytes \<times> bytes) list"
    using assms by (induction xs) auto
  moreover have "cf_undo (db_write [DeleteUndo h] d) h' = cf_undo d h'" for d
    using assms by (simp add: db_write_def delete_cf_def)
  ultimately show ?thesis by (simp add: load_undo_def delete_undo_def split: option.split)
qed

lemma get_block_pos_remove:
  "get_block_pos (remove_block_pos h hi) h' = (if h' = h then Inr None else get_block_pos hi h')"
  by (simp add: get_block_pos_def remove_block_pos_def read_cf_def delete_cf_def)

definition spares :: "u32 list \<Rightarrow> header_index \<Rightarrow> utxo_set \<Rightarrow> header_index \<Rightarrow> utxo_set \<Rightarrow> bool" where
  "spares doomed hi us hi' us' \<longleftrightarrow>
     cf_height_index hi' = cf_height_index hi \<and>
     (\<forall>hash pos. get_block_pos hi' hash = Inr (Some pos) \<longrightarrow> get_block_pos hi hash = Inr (Some pos)) \<and>
     (\<forall>hash pos. get_block_pos hi hash = Inr (Some pos) \<longrightarrow> file_num pos \<notin> set doomed \<longrightarrow>
        get_block_pos hi' hash = Inr (Some pos) \<and> load_undo us' hash = load_undo us hash)"

lemma spares_refl: "spares doomed hi us hi us"
  by (simp add: spares_def)

lemma spares_trans:
  "spares doomed hi us hi1 us1 \<Longrightarrow> spares doomed hi1 us1 hi' us' \<Longrightarrow> spares doomed hi us hi' us'"
  unfolding spares_def by metis

lemma spares_remove:
  assumes "get_block_pos hi hash = Inr (Some pos)" and "file_num pos \<in> set doomed"
  shows "spares doomed hi us (remove_block_pos hash hi) (delete_undo hash us)"
proof -
  have "hash \<noteq> h" if "get_block_pos hi h = Inr (Some p)" "file_num p \<notin> set doomed" for h p
    using assms that by auto
  then show ?thesis
    by (auto simp: spares_def get_block_pos_remove load_delete_undo) (simp add: remove_block_pos_def)
qed

lemma prune_heights_spares:
  "prune_heights doomed heights ph hi us = (r, hi', us') \<Longrightarrow> spares doomed hi us hi' us'"
proof (induction doomed heights ph hi us rule: prune_heights.induct)
  case (2 doomed height heights ph hi us)
  show ?case
  proof (cases "get_hash_at_height hi height")
    case (Inr hs)
    show ?thesis
    proof (cases hs)
      case (Some hash)
      show ?thesis
      proof (cases "get_block_pos hi hash")
        case (Inl e)
        then show ?thesis using 2 Inr Some by (simp add: spares_refl)
      next
        case (Inr ps)
        note hash = \<open>get_hash_at_height hi height = Inr hs\<close> Some
        show ?thesis
        proof (cases ps)
          case (Some pos)
          show ?thesis
          proof (cases "file_num pos \<in> set doomed")
            case True
            then have "spares doomed (remove_block_pos hash hi) (delete_undo hash us) hi' us'"
              using 2 hash Inr Some by simp
            with spares_remove [OF _ True, of hi hash us] Inr Some show ?thesis
              by (auto intro: spares_trans)
          qed (use 2 hash Inr Some in \<open>simp add: spares_refl\<close>)
        qed (use 2 hash Inr in simp)
      qed
    qed (use 2 Inr in simp)
  qed (use 2 in \<open>simp add: spares_refl\<close>)
qed (simp add: spares_refl)

lemma delete_files_other:
  "delete_files nums freed k s = (r, s') \<Longrightarrow> n \<notin> set nums \<Longrightarrow>
     map_of (bs_files s') n = map_of (bs_files s) n"
proof (induction nums freed k s rule: delete_files.induct)
  case (2 num nums freed k s)
  show ?case
  proof (cases "delete_block_file num s")
    case (Inr x)
    obtain sz s1 where x: "x = (sz, s1)" by (cases x)
    have "map_of (bs_files s1) n = map_of (bs_files s) n"
      using Inr x 2(3) by (auto simp: delete_block_file_def delete_conv' split: if_splits option.splits)
    then show ?thesis using 2 Inr x by simp
  qed (use 2 in simp)
qed simp

lemma select_files_below: "n \<in> set (select_files keep target tot files) \<Longrightarrow> n < keep"
  by (induction keep target tot files rule: select_files.induct) (auto split: if_splits)

lemma spares_set_pruned: "spares doomed hi us (set_pruned_height h hi') us' \<longleftrightarrow> spares doomed hi us hi' us'"
  by (simp add: spares_def set_pruned_height_def get_block_pos_def)

text \<open>The pass behind its early returns: from the file of the first kept block and the height to
  start at.\<close>

lemma prune_cases:
  assumes "prune_block_files s hi us ceiling target = (r, s', hi', us')"
  defines "files \<equiv> list_block_files s"
  obtains (idle) "s' = s" "hi' = hi" "us' = us" "\<forall>rep. r \<noteq> Inr (Some rep)"
  | (pass) f doomed start ph r1 hi1 where
      "hash_pos_file hi (ceiling + 1) = Inr (Some f)"
      "doomed = select_files (min f (cur_file_num s)) target (sum_list (map snd files)) files"
      "doomed \<noteq> []"
      "get_pruned_height hi = Inr ph" "start = (case ph of Some h \<Rightarrow> h + 1 | None \<Rightarrow> 0)"
      "prune_heights doomed (heights_between start ceiling) (saturating_sub_u32 start 1) hi us
         = (r1, hi1, us')"
      "(s', hi') = (s, hi1) \<and> (\<forall>rep. r \<noteq> Inr (Some rep)) \<or>
       (\<exists>h r2. r1 = Inr h \<and> hi' = set_pruned_height h hi1 \<and>
          delete_files (sort (remdups doomed)) 0 0 s = (r2, s') \<and> is_ok r2 = is_ok r)"
proof -
  let ?tot = "sum_list (map snd files)"
  consider (under) "?tot \<le> target" | (err) e where "\<not> ?tot \<le> target" "hash_pos_file hi (ceiling + 1) = Inl e"
    | (gap) "\<not> ?tot \<le> target" "hash_pos_file hi (ceiling + 1) = Inr None"
    | (kept) f where "\<not> ?tot \<le> target" "hash_pos_file hi (ceiling + 1) = Inr (Some f)"
    by (cases "hash_pos_file hi (ceiling + 1)") (metis, metis option.exhaust)
  then show thesis
  proof cases
    case (kept f)
    define doomed where "doomed = select_files (min f (cur_file_num s)) target ?tot files"
    show thesis
    proof (cases "doomed = []")
      case True
      with kept assms(1) show thesis
        by (intro idle) (auto simp: prune_block_files_def Let_def files_def doomed_def)
    next
      case False
      show thesis
      proof (cases "get_pruned_height hi")
        case (Inl e)
        with kept assms(1) False show thesis
          by (intro idle) (auto simp: prune_block_files_def Let_def files_def doomed_def)
      next
        case (Inr ph)
        define start where "start = (case ph of Some h \<Rightarrow> h + 1 | None \<Rightarrow> 0)"
        obtain r1 hi1 us1 where loop: "prune_heights doomed (heights_between start ceiling)
            (saturating_sub_u32 start 1) hi us = (r1, hi1, us1)" by (metis prod_cases3)
        obtain r2 s2 where del: "delete_files (sort (remdups doomed)) 0 0 s = (r2, s2)" by fastforce
        have run: "prune_block_files s hi us ceiling target =
            (case r1 of Inl e \<Rightarrow> (Inl e, s, hi1, us1)
             | Inr h \<Rightarrow> if h < start
                 then (Inl (Serialization ''prune: no indexed blocks found''), s, hi1, us1)
                 else (case r2 of Inl e \<Rightarrow> (Inl e, s2, set_pruned_height h hi1, us1)
                       | Inr (freed, deleted) \<Rightarrow>
                           (Inr (Some \<lparr>files_deleted = deleted, bytes_freed = freed, report_height = h\<rparr>),
                            s2, set_pruned_height h hi1, us1)))"
          unfolding prune_block_files_def Let_def
          using kept False Inr loop del
          by (simp add: files_def [symmetric] doomed_def [symmetric] start_def [symmetric]
              split: sum.split prod.split)
        show thesis
        proof (rule pass [OF kept(2) doomed_def False Inr start_def])
          show "prune_heights doomed (heights_between start ceiling)
              (saturating_sub_u32 start 1) hi us = (r1, hi1, us')"
            using run assms(1) loop by (auto split: sum.splits if_splits prod.splits)
          show "(s', hi') = (s, hi1) \<and> (\<forall>rep. r \<noteq> Inr (Some rep)) \<or>
             (\<exists>h r2. r1 = Inr h \<and> hi' = set_pruned_height h hi1 \<and>
                delete_files (sort (remdups doomed)) 0 0 s = (r2, s') \<and> is_ok r2 = is_ok r)"
            using run assms(1) del by (auto split: sum.splits if_splits prod.splits)
        qed
      qed
    qed
  qed (use assms(1) idle in \<open>auto simp: prune_block_files_def Let_def files_def\<close>)
qed

text \<open>The outcomes of a pass: nothing done, or the entries of some doomed files removed and some of
  those files deleted. Every doomed file is older than the one holding the first kept block.\<close>

lemma prune_outcome:
  assumes "prune_block_files s hi us ceiling target = (r, s', hi', us')"
  obtains "s' = s" "hi' = hi" "us' = us"
  | doomed f where "hash_pos_file hi (ceiling + 1) = Inr (Some f)"
      "\<forall>n\<in>set doomed. n < f" "spares doomed hi us hi' us'"
      "\<forall>n. n \<notin> set doomed \<longrightarrow> map_of (bs_files s') n = map_of (bs_files s) n"
  using assms
proof (cases rule: prune_cases)
  case (pass f doomed start ph r1 hi1)
  have "spares doomed hi us hi1 us'" by (rule prune_heights_spares [OF pass(6)])
  then have "spares doomed hi us hi' us'" using pass(7) by (auto simp: spares_set_pruned)
  moreover have "\<forall>n. n \<notin> set doomed \<longrightarrow> map_of (bs_files s') n = map_of (bs_files s) n"
    using pass(7) by (auto dest: delete_files_other)
  moreover have "\<forall>n\<in>set doomed. n < f" using select_files_below pass(2) by fastforce
  ultimately show thesis using that(2) pass(1) by blast
qed (rule that(1))

section \<open>Properties\<close>

text \<open>Block files are filled in the order in which blocks are connected: a higher block is never in
  an older file.\<close>

definition block_at :: "header_index \<Rightarrow> u32 \<Rightarrow> bytes \<Rightarrow> block_pos \<Rightarrow> bool" where
  "block_at hi h hash pos \<longleftrightarrow>
     get_hash_at_height hi h = Inr (Some hash) \<and> get_block_pos hi hash = Inr (Some pos)"

definition positions_ordered :: "header_index \<Rightarrow> bool" where
  "positions_ordered hi \<longleftrightarrow>
     (\<forall>h1 h2 hash1 hash2 pos1 pos2. h1 \<le> h2 \<longrightarrow> block_at hi h1 hash1 pos1 \<longrightarrow>
        block_at hi h2 hash2 pos2 \<longrightarrow> file_num pos1 \<le> file_num pos2)"

lemma hash_pos_file_Some:
  "hash_pos_file hi h = Inr (Some f) \<longleftrightarrow> (\<exists>hash pos. block_at hi h hash pos \<and> file_num pos = f)"
  by (auto simp: hash_pos_file_def block_at_def bindE_eq_Inr split: option.splits)

lemma u32_succ_le:
  fixes a b :: u32
  assumes "a < b"
  shows "a + 1 \<le> b"
proof -
  have "unat a + 1 < 2 ^ 32"
    using assms unsigned_less [of b, where ?'a = nat] by (simp add: word_less_nat_alt)
  then show ?thesis using assms by (simp add: word_le_nat_alt word_less_nat_alt unat_word_ariths)
qed

lemma spares_block_at:
  assumes "spares doomed hi us hi' us'" and "block_at hi h hash pos" and "file_num pos \<notin> set doomed"
  shows "block_at hi' h hash pos" and "load_undo us' hash = load_undo us hash"
  using assms unfolding spares_def block_at_def get_hash_at_height_def by metis+

lemma spared_block_at:
  assumes "spares doomed hi us hi' us'" and "block_at hi' h hash pos"
  shows "block_at hi h hash pos"
  using assms unfolding spares_def block_at_def get_hash_at_height_def by metis

text \<open>
  C5: Pruning never removes a block that may still be needed. With the ceiling the node computes
  (288 blocks below the tip, and no higher than the last height whose coins are on disk), a pass
  that succeeds, does nothing or fails half way keeps, for each of the last 288 blocks and for each
  block above the flushed height, its place in the height index, its position, its bytes in the
  block files and its undo record.
\<close>

theorem prune_keeps_recent:
  assumes "prune_ceiling tip validated manual = Some ceiling"
    and "prune_block_files s hi us ceiling target = (r, s', hi', us')"
    and "positions_ordered hi" and "block_at hi h hash pos"
    and "unat tip < unat h + 288 \<or> (case validated of Some v \<Rightarrow> v | None \<Rightarrow> 0) < h"
  shows "block_at hi' h hash pos \<and>
    read_block_at (bs_files s') pos = read_block_at (bs_files s) pos \<and>
    load_undo us' hash = load_undo us hash"
  using assms(2)
proof (cases rule: prune_outcome)
  case (2 doomed f)
  have above: "ceiling < h"
    using assms(1,5) unfolding prune_ceiling_def Let_def MIN_KEEP_BLOCKS_def
    by (auto simp: word_less_nat_alt word_le_nat_alt unat_sub_if' min_def split: if_splits option.splits)
  obtain hash1 pos1 where first: "block_at hi (ceiling + 1) hash1 pos1" "file_num pos1 = f"
    using 2(1) by (auto simp: hash_pos_file_Some)
  then have "f \<le> file_num pos"
    using assms(3,4) u32_succ_le [OF above] unfolding positions_ordered_def by metis
  then have "file_num pos \<notin> set doomed" using 2(2) by force
  then have "block_at hi' h hash pos" "load_undo us' hash = load_undo us hash"
    "map_of (bs_files s') (file_num pos) = map_of (bs_files s) (file_num pos)"
    using spares_block_at [OF 2(3) assms(4)] 2(4) by auto
  then show ?thesis by (simp add: read_block_at_def)
qed (use assms(4) in simp)

definition demo_hash :: "u8 \<Rightarrow> bytes" where
  "demo_hash b = replicate 32 b"

definition demo_pos :: "u32 \<Rightarrow> block_pos" where
  "demo_pos n = \<lparr>file_num = n, pos_offset = 0, pos_size = 3\<rparr>"

text \<open>Height 1 in file 0, height 2 in file 1.\<close>

definition demo_pruned_index :: header_index where
  "demo_pruned_index =
     set_block_pos (demo_hash 2) (demo_pos 1) (set_height_hash 2 (demo_hash 2)
       (set_block_pos (demo_hash 1) (demo_pos 0) (set_height_hash 1 (demo_hash 1) empty_index)))"

definition demo_files :: block_store where
  "demo_files = open_with_max_file_size [(0, block_record [1, 2, 3]), (1, block_record [4, 5, 6])] 100"

lemma demo_hash_neq: "demo_hash 1 \<noteq> demo_hash 2"
  by (simp add: demo_hash_def)

lemma demo_block_at:
  "block_at demo_pruned_index h hash pos \<longleftrightarrow>
     h = 1 \<and> hash = demo_hash 1 \<and> pos = demo_pos 0 \<or>
     h = 2 \<and> hash = demo_hash 2 \<and> pos = demo_pos 1"
proof -
  have len: "length (demo_hash b) = 32" for b by (simp add: demo_hash_def)
  have hash: "get_hash_at_height demo_pruned_index h =
      (if h = 2 then Inr (Some (demo_hash 2)) else if h = 1 then Inr (Some (demo_hash 1)) else Inr None)"
    using len by (simp add: demo_pruned_index_def set_block_pos_def set_height_hash_def
        get_hash_at_height_def read_cf_def hash_from_bytes_def put_cf_def empty_index_def)
  have "get_block_pos demo_pruned_index (demo_hash 2) = Inr (Some (demo_pos 1))"
    "get_block_pos demo_pruned_index (demo_hash 1) = Inr (Some (demo_pos 0))"
    using demo_hash_neq pos_codec.dec_enc
    by (simp_all add: demo_pruned_index_def set_block_pos_def set_height_hash_def get_block_pos_def
        read_cf_def put_cf_def block_pos_serialize_def block_pos_deserialize_def demo_pos_def)
  with hash show ?thesis by (auto simp: block_at_def)
qed

lemma demo_positions_ordered: "positions_ordered demo_pruned_index"
  by (auto simp: positions_ordered_def demo_block_at demo_pos_def word_le_nat_alt)

theorem prune_keeps_recent_witness:
  "case prune_block_files demo_files demo_pruned_index demo_set 1 0 of (r, s', hi', us') \<Rightarrow>
     block_at hi' 2 (demo_hash 2) (demo_pos 1) \<and>
     read_block_at (bs_files s') (demo_pos 1) = Inr [4, 5, 6]"
proof -
  obtain r s' hi' us' where run:
    "prune_block_files demo_files demo_pruned_index demo_set 1 0 = (r, s', hi', us')"
    by (metis prod_cases4)
  have "prune_ceiling 400 (Some 1) None = Some 1" by code_simp
  moreover have "read_block_at (bs_files demo_files) (demo_pos 1) = Inr [4, 5, 6]" by code_simp
  ultimately show ?thesis
    using prune_keeps_recent [OF _ run demo_positions_ordered, of 400 "Some 1" None 2
        "demo_hash 2" "demo_pos 1"]
    by (simp add: run demo_block_at)
qed

section \<open>No dangling positions\<close>

lemma block_at_remove:
  "block_at (remove_block_pos x hi) h hash pos \<longleftrightarrow> block_at hi h hash pos \<and> hash \<noteq> x"
  unfolding block_at_def get_block_pos_remove
  by (auto simp: get_hash_at_height_def remove_block_pos_def)

lemma ordered_remove: "positions_ordered hi \<Longrightarrow> positions_ordered (remove_block_pos x hi)"
  unfolding positions_ordered_def block_at_remove by blast

text \<open>The loop over the heights stops early only at a block whose file survives, and then every
  higher block's file survives too.\<close>

lemma prune_heights_ConsE:
  assumes "prune_heights doomed (height # heights) ph hi us = (Inr ph', hi', us')"
  obtains (skip) "prune_heights doomed heights height hi us = (Inr ph', hi', us')"
      "\<forall>hash pos. \<not> block_at hi height hash pos"
  | (drop) hash pos where "block_at hi height hash pos" "file_num pos \<in> set doomed"
      "prune_heights doomed heights height (remove_block_pos hash hi) (delete_undo hash us)
         = (Inr ph', hi', us')"
  | (stop) hash pos where "block_at hi height hash pos" "file_num pos \<notin> set doomed" "hi' = hi"
  using assms that unfolding prune_heights.simps block_at_def
  by (auto split: sum.splits option.splits if_splits)

lemma prune_heights_clears:
  assumes "prune_heights doomed heights ph hi us = (Inr ph', hi', us')"
    and "positions_ordered hi" and "sorted heights"
    and "\<And>h hash pos d. block_at hi h hash pos \<Longrightarrow> file_num pos \<notin> set doomed \<Longrightarrow> d \<in> set doomed
           \<Longrightarrow> d < file_num pos"
    and "h \<in> set heights" and "block_at hi' h hash pos"
  shows "file_num pos \<notin> set doomed"
  using assms
proof (induction heights arbitrary: ph hi us)
  case (Cons height heights)
  have tail: "sorted heights" and least: "\<forall>h\<in>set (height # heights). height \<le> h"
    using Cons.prems(3) by auto
  from Cons.prems(1) show ?case
  proof (cases rule: prune_heights_ConsE)
    case skip
    have "block_at hi h hash pos"
      by (rule spared_block_at [OF prune_heights_spares [OF skip(1)] Cons.prems(6)])
    with skip(2) Cons.prems(5) have "h \<in> set heights" by auto
    with Cons.IH [OF skip(1) Cons.prems(2) tail] Cons.prems(4,6) show ?thesis by blast
  next
    case (drop x p)
    show ?thesis
    proof (cases "h \<in> set heights")
      case True
      with Cons.IH [OF drop(3) ordered_remove [OF Cons.prems(2)] tail] Cons.prems(4,6)
      show ?thesis by (simp add: block_at_remove) blast
    next
      case False
      then have "block_at (remove_block_pos x hi) height hash pos"
        using spared_block_at [OF prune_heights_spares [OF drop(3)] Cons.prems(6)] Cons.prems(5) by simp
      with drop(1) show ?thesis unfolding block_at_remove by (auto simp: block_at_def)
    qed
  next
    case (stop x p)
    then have "file_num p \<le> file_num pos"
      using Cons.prems(2,5,6) least unfolding positions_ordered_def by metis
    with Cons.prems(4) [OF stop(1,2)] show ?thesis by force
  qed
qed simp

lemma select_files_prefix:
  assumes "sorted (map fst files)" and "n \<in> fst ` set files"
    and "n \<notin> set (select_files keep target tot files)"
    and "d \<in> set (select_files keep target tot files)"
  shows "d < n"
  using assms
proof (induction keep target tot files rule: select_files.induct)
  case (2 keep target tot num sz files)
  show ?case
  proof (cases "n \<in> fst ` set files")
    case True
    then have "num \<le> n" using 2(2) by auto
    moreover have "num \<noteq> n" using 2(4,5) by (auto split: if_splits)
    ultimately show ?thesis using 2 True by (auto split: if_splits)
  qed (use 2 in \<open>auto split: if_splits\<close>)
qed simp

lemma list_block_files_facts:
  "sorted (map fst (list_block_files s))"
  "fst ` set (list_block_files s) = fst ` set (bs_files s)"
  by (simp_all add: list_block_files_def image_image case_prod_beta)

lemma heights_between_facts:
  "sorted (heights_between a b)" "h \<in> set (heights_between a b) \<longleftrightarrow> a \<le> h \<and> h \<le> b"
proof -
  have small: "unat (of_nat n :: u32) = n" if "n \<le> unat b" for n
    using that unsigned_less [of b, where ?'a = nat] by (simp add: unat_of_nat)
  show "sorted (heights_between a b)"
    unfolding heights_between_def sorted_map
    by (rule sorted_wrt_mono_rel [OF _ sorted_upt])
      (auto simp: word_le_nat_alt small less_Suc_eq_le)
  show "h \<in> set (heights_between a b) \<longleftrightarrow> a \<le> h \<and> h \<le> b"
  proof
    assume "a \<le> h \<and> h \<le> b"
    then have "unat h \<in> {unat a..<Suc (unat b)}" by (simp add: word_le_nat_alt)
    then show "h \<in> set (heights_between a b)"
      unfolding heights_between_def set_map set_upt by (intro image_eqI [of _ _ "unat h"]) simp_all
  qed (auto simp: heights_between_def word_le_nat_alt small less_Suc_eq_le)
qed


text \<open>A pass over the example deletes its first file.\<close>

lemma demo_prune_run:
  "prune_block_files demo_files demo_pruned_index demo_set 1 0 =
     (Inr (Some \<lparr>files_deleted = 1, bytes_freed = 7, report_height = 1\<rparr>),
      demo_files\<lparr>bs_files := [(1, block_record [4, 5, 6])]\<rparr>,
      set_pruned_height 1 (remove_block_pos (demo_hash 1) demo_pruned_index),
      delete_undo (demo_hash 1) demo_set)"
proof -
  have files: "list_block_files demo_files = [(0, 7), (1, 7)]" "cur_file_num demo_files = 1"
    by code_simp+
  have kept: "hash_pos_file demo_pruned_index 2 = Inr (Some 1)"
    by (simp add: hash_pos_file_Some demo_block_at demo_pos_def)
  have fresh: "get_pruned_height demo_pruned_index = Inr None"
    by (simp add: get_pruned_height_def read_cf_def demo_pruned_index_def set_block_pos_def
        set_height_hash_def empty_index_def)
  have heights: "heights_between 0 1 = [0, 1]" by code_simp
  have hashes: "get_hash_at_height demo_pruned_index 0 = Inr None"
    "get_hash_at_height demo_pruned_index 1 = Inr (Some (demo_hash 1))"
    "get_block_pos demo_pruned_index (demo_hash 1) = Inr (Some (demo_pos 0))"
    using demo_block_at [of 1 "demo_hash 1" "demo_pos 0"]
    by (simp_all add: block_at_def) (simp add: demo_pruned_index_def set_block_pos_def
        set_height_hash_def get_hash_at_height_def read_cf_def put_cf_def empty_index_def)
  have del: "delete_block_file 0 demo_files =
      Inr (7, demo_files\<lparr>bs_files := [(1, block_record [4, 5, 6])]\<rparr>)"
    by (simp add: delete_block_file_def files) (simp add: demo_files_def open_with_max_file_size_def
        block_record_def split: prod.split)
  show ?thesis
    unfolding prune_block_files_def Let_def
    by (simp add: files kept fresh heights hashes del demo_pos_def saturating_sub_u32_def)
qed


section \<open>Pruning and reindexing\<close>

lemma delete_files_gone:
  "delete_files nums freed k s = (Inr x, s') \<Longrightarrow> distinct nums \<Longrightarrow> n \<in> set nums \<Longrightarrow>
     map_of (bs_files s') n = None"
proof (induction nums freed k s rule: delete_files.induct)
  case (2 num nums freed k s)
  then obtain sz s1 where d: "delete_block_file num s = Inr (sz, s1)"
    "delete_files nums (freed + sz) (k + 1) s1 = (Inr x, s')"
    by (auto split: sum.splits)
  have "map_of (bs_files s1) num = None"
    using d(1) by (auto simp: delete_block_file_def delete_conv' split: if_splits option.splits)
  then show ?case using 2 d delete_files_other [OF d(2)] by (cases "n = num") auto
qed simp

text \<open>
  C8: A reindex after a prune pass recovers nothing. The pass deletes the oldest files, so file 0 is
  gone; the reindex walks the file numbers up from 0 and stops at the first missing one, so it
  leaves the index as it is and reports 0 blocks, whatever the surviving files hold.
\<close>

theorem reindex_after_prune:
  assumes "prune_block_files s hi us ceiling target = (Inr (Some report), s', hi', us')"
  shows "reindex_block_files L decode_block s' any_index = Some (any_index, 0)"
proof -
  have "map_of (bs_files s') 0 = None"
    using assms
  proof (cases rule: prune_cases)
    case (pass f doomed start ph r1 hi1)
    from pass(7) obtain r2 where del:
      "delete_files (sort (remdups doomed)) 0 0 s = (r2, s')" "is_ok r2" by auto
    then obtain x where x: "r2 = Inr x" by (cases r2) auto
    show ?thesis
    proof (cases "0 \<in> set doomed")
      case True
      then show ?thesis using delete_files_gone [OF del(1) [unfolded x], of 0] by simp
    next
      case False
      have "0 \<notin> fst ` set (bs_files s)"
      proof
        assume z: "0 \<in> fst ` set (bs_files s)"
        obtain d where "d \<in> set doomed" using pass(3) by (cases doomed) auto
        with select_files_prefix [OF list_block_files_facts(1) [of s], of 0] z False
        have "d < 0" unfolding pass(2) list_block_files_facts(2) by blast
        then show False by simp
      qed
      then show ?thesis using delete_files_other [OF del(1), of 0] False by (simp add: map_of_eq_None_iff)
    qed
  qed simp
  then show ?thesis
    by (simp add: reindex_block_files_def reindex_block_files_cancellable_def)
qed

theorem reindex_after_prune_witness:
  "bs_files (fst (snd (prune_block_files demo_files demo_pruned_index demo_set 1 0))) \<noteq> [] \<and>
   reindex_block_files demo_crate (\<lambda>_. None)
     (fst (snd (prune_block_files demo_files demo_pruned_index demo_set 1 0))) empty_index =
     Some (empty_index, 0)"
  using reindex_after_prune [OF demo_prune_run, of demo_crate "\<lambda>_. None" empty_index]
  by (simp add: demo_prune_run)

end
