(* ===== verification/Tx_Index.thy ===== *)
theory Tx_Index
  imports Block_Store_Facts Demo_Crate
begin

text \<open>
  The transaction index of \<^verbatim>\<open>bitcoinpr-storage/src/tx_index.rs\<close>: txid to block hash, position in the
  block and, for entries of the second format, byte range within the raw block. The crate's
  sizes and encodings of transactions are arguments. The last section joins the index with the
  block store: the byte range of an entry reads the transaction's own bytes.
\<close>

section \<open>Entries\<close>

definition META_INDEXED_HEIGHT :: bytes where
  "META_INDEXED_HEIGHT = byte_str ''__meta__indexed_height__''"

record tx_index_entry =
  te_block_hash :: bytes
  tx_pos :: u32
  tx_loc :: "(u32 \<times> u32) option"

definition entry_serialize :: "tx_index_entry \<Rightarrow> bytes" where
  "entry_serialize e =
     te_block_hash e @ u32_to_le (tx_pos e) @
     (case tx_loc e of Some (off, len) \<Rightarrow> u32_to_le off @ u32_to_le len | None \<Rightarrow> [])"

definition entry_deserialize :: "bytes \<Rightarrow> storage_error + tx_index_entry" where
  "entry_deserialize data =
     (if length data < 36 then Inl (Serialization ''tx index entry too short'')
      else Inr \<lparr>te_block_hash = take 32 data,
                tx_pos = u32_from_le (take 4 (drop 32 data)),
                tx_loc = (if 44 \<le> length data
                  then Some (u32_from_le (take 4 (drop 36 data)), u32_from_le (take 4 (drop 40 data)))
                  else None)\<rparr>)"

text \<open>\<open>varint_size\<close> and \<open>total_size\<close> are the crate's \<^verbatim>\<open>VarInt::size\<close> and \<^verbatim>\<open>Transaction::total_size\<close>.\<close>

fun tx_locations_from :: "(transaction \<Rightarrow> nat) \<Rightarrow> nat \<Rightarrow> transaction list \<Rightarrow> (u32 \<times> u32) list" where
  "tx_locations_from total_size off [] = []"
| "tx_locations_from total_size off (tx # txs) =
     (of_nat off, of_nat (total_size tx)) # tx_locations_from total_size (off + total_size tx) txs"

definition compute_tx_locations ::
  "(nat \<Rightarrow> nat) \<Rightarrow> (transaction \<Rightarrow> nat) \<Rightarrow> block \<Rightarrow> (u32 \<times> u32) list"
where
  "compute_tx_locations varint_size total_size blk =
     tx_locations_from total_size (80 + varint_size (length (txdata blk))) (txdata blk)"

section \<open>The index\<close>

definition tx_index_get :: "cf \<Rightarrow> bytes \<Rightarrow> storage_error + tx_index_entry option" where
  "tx_index_get db txid = read_cf entry_deserialize db txid"

definition tx_index_get_many :: "cf \<Rightarrow> bytes list \<Rightarrow> tx_index_entry option list" where
  "tx_index_get_many db txids =
     map (\<lambda>k. case db k of
                Some data \<Rightarrow> (case entry_deserialize data of Inr e \<Rightarrow> Some e | Inl _ \<Rightarrow> None)
              | None \<Rightarrow> None) txids"

definition put_entries :: "(bytes \<times> tx_index_entry) list \<Rightarrow> cf \<Rightarrow> cf" where
  "put_entries updates db = fold (\<lambda>(txid, e). put_cf txid (entry_serialize e)) updates db"

definition index_block :: "bytes \<Rightarrow> bytes list \<Rightarrow> cf \<Rightarrow> cf" where
  "index_block hash txids db =
     put_entries (map (\<lambda>(pos, txid).
         (txid, \<lparr>te_block_hash = hash, tx_pos = of_nat pos, tx_loc = None\<rparr>)) (enumerate 0 txids)) db"

definition upgrade_tx_locations :: "(bytes \<times> tx_index_entry) list \<Rightarrow> cf \<Rightarrow> cf" where
  "upgrade_tx_locations updates db = (if updates = [] then db else put_entries updates db)"

definition deindex_block :: "bytes list \<Rightarrow> cf \<Rightarrow> cf" where
  "deindex_block txids db = fold delete_cf txids db"

definition tx_index_contains :: "cf \<Rightarrow> bytes \<Rightarrow> bool" where
  "tx_index_contains db txid \<longleftrightarrow> db txid \<noteq> None"

definition get_indexed_height :: "cf \<Rightarrow> u32 option" where
  "get_indexed_height db =
     (case db META_INDEXED_HEIGHT of
        Some data \<Rightarrow> if 4 \<le> length data then Some (u32_from_le (take 4 data)) else None
      | None \<Rightarrow> None)"

definition set_indexed_height :: "u32 \<Rightarrow> cf \<Rightarrow> cf" where
  "set_indexed_height height db = put_cf META_INDEXED_HEIGHT (u32_to_le height) db"

definition block_entries ::
  "bytes \<Rightarrow> bytes list \<Rightarrow> (u32 \<times> u32) list option \<Rightarrow> (bytes \<times> tx_index_entry) list"
where
  "block_entries hash txids tx_locs =
     map (\<lambda>(pos, txid).
         (txid, \<lparr>te_block_hash = hash, tx_pos = of_nat pos,
                 tx_loc = (case tx_locs of
                             Some l \<Rightarrow> if pos < length l then Some (l ! pos) else None
                           | None \<Rightarrow> None)\<rparr>)) (enumerate 0 txids)"

definition index_block_at_height ::
  "bytes \<Rightarrow> bytes list \<Rightarrow> u32 \<Rightarrow> (u32 \<times> u32) list option \<Rightarrow> cf \<Rightarrow> cf"
where
  "index_block_at_height hash txids height tx_locs db =
     put_cf META_INDEXED_HEIGHT (u32_to_le height) (put_entries (block_entries hash txids tx_locs) db)"

section \<open>Lookups after indexing\<close>

interpretation tx_entry_codec: byte_codec entry_serialize entry_deserialize
  "\<lambda>e. length (te_block_hash e) = 32"
proof
  fix e :: tx_index_entry
  assume "length (te_block_hash e) = 32"
  then show "entry_deserialize (entry_serialize e) = Inr e"
    by (cases "tx_loc e") (auto simp: entry_serialize_def entry_deserialize_def split: prod.split)
qed

lemma put_entries_lookup:
  "put_entries updates db k =
     (case map_of (rev updates) k of Some e \<Rightarrow> Some (entry_serialize e) | None \<Rightarrow> db k)"
proof -
  have "put_entries updates db =
      fold (\<lambda>(k, v). put_cf k v) (map (\<lambda>(t, e). (t, entry_serialize e)) updates) db"
    unfolding put_entries_def fold_map by (rule fold_cong) auto
  then show ?thesis
    using cf_map.get_put_batch [where s = db and j = k
        and kvs = "map (\<lambda>(t, e). (t, entry_serialize e)) updates"]
    by (simp add: rev_map map_of_map split: option.split)
qed

lemma deindex_lookup: "deindex_block txids db k = (if k \<in> set txids then None else db k)"
  unfolding deindex_block_def by (rule cf_map.get_del_batch) simp

lemma length_block_entries [simp]: "length (block_entries hash txids locs) = length txids"
  by (simp add: block_entries_def)

lemma block_entries_nth:
  "i < length txids \<Longrightarrow> block_entries hash txids locs ! i =
     (txids ! i, \<lparr>te_block_hash = hash, tx_pos = of_nat i,
        tx_loc = (case locs of Some l \<Rightarrow> if i < length l then Some (l ! i) else None | None \<Rightarrow> None)\<rparr>)"
  by (simp add: block_entries_def nth_enumerate_eq)

lemma block_entries_keys: "map fst (block_entries hash txids locs) = txids"
  by (rule nth_equalityI) (simp_all add: block_entries_nth)

lemma block_entries_lookup:
  assumes "distinct txids" and "i < length txids"
  shows "map_of (rev (block_entries hash txids locs)) (txids ! i) =
    Some (snd (block_entries hash txids locs ! i))"
proof (rule map_of_is_SomeI)
  show "distinct (map fst (rev (block_entries hash txids locs)))"
    using assms(1) by (simp add: rev_map [symmetric] block_entries_keys)
  show "(txids ! i, snd (block_entries hash txids locs ! i)) \<in> set (rev (block_entries hash txids locs))"
    using assms(2) nth_mem [of i "block_entries hash txids locs"] by (simp add: block_entries_nth)
qed

lemma block_entries_other:
  "k \<notin> set txids \<Longrightarrow> map_of (rev (block_entries hash txids locs)) k = None"
  using block_entries_keys [of hash txids locs] by (metis map_of_eq_None_iff list.set_map set_rev)

lemma length_meta_key [simp]: "length META_INDEXED_HEIGHT = 24"
  by (simp add: META_INDEXED_HEIGHT_def byte_str_def)

lemma indexed_lookup:
  assumes "length hash = 32" and "distinct txids" and "\<forall>t\<in>set txids. length t = 32"
    and "i < length txids"
  shows "tx_index_get (index_block_at_height hash txids height locs db) (txids ! i) =
    Inr (Some (snd (block_entries hash txids locs ! i)))"
proof -
  have "length (txids ! i) = 32" using assms(3,4) by simp
  then have "txids ! i \<noteq> META_INDEXED_HEIGHT" using length_meta_key by force
  moreover have "entry_deserialize (entry_serialize (snd (block_entries hash txids locs ! i))) =
      Inr (snd (block_entries hash txids locs ! i))"
    using assms by (intro tx_entry_codec.dec_enc) (simp add: block_entries_nth)
  ultimately show ?thesis
    using block_entries_lookup [OF assms(2,4)]
    by (simp add: tx_index_get_def read_cf_def index_block_at_height_def put_cf_def
        put_entries_lookup)
qed

lemma indexed_other:
  assumes "k \<notin> set txids" and "k \<noteq> META_INDEXED_HEIGHT"
  shows "index_block_at_height hash txids height locs db k = db k"
  using assms by (simp add: index_block_at_height_def put_cf_def put_entries_lookup block_entries_other)

text \<open>Removing a block's transactions again (a reorganisation) gives back the index as it was, for
  every transaction the block did not overwrite; only the recorded height stays.\<close>

lemma deindex_indexed:
  assumes "\<forall>t\<in>set txids. db t = None" and "length k = 32"
  shows "deindex_block txids (index_block_at_height hash txids height locs db) k = db k"
proof -
  have "k \<noteq> META_INDEXED_HEIGHT" using assms(2) length_meta_key by force
  then show ?thesis using assms(1) indexed_other [of k txids] by (simp add: deindex_lookup)
qed

section \<open>Byte locations\<close>

lemma length_tx_locations [simp]: "length (tx_locations_from total_size off txs) = length txs"
  by (induction txs arbitrary: off) auto

lemma tx_locations_nth:
  "i < length txs \<Longrightarrow> tx_locations_from total_size off txs ! i =
     (of_nat (off + sum_list (map total_size (take i txs))), of_nat (total_size (txs ! i)))"
proof (induction txs arbitrary: off i)
  case (Cons tx txs)
  then show ?case by (cases i) (simp_all add: add.assoc)
qed simp

text \<open>The consensus encoding of a block: an 80-byte header, the number of transactions, and the
  transactions one after the other.\<close>

definition block_encoding_ok ::
  "(block \<Rightarrow> bytes) \<Rightarrow> (transaction \<Rightarrow> bytes) \<Rightarrow> (nat \<Rightarrow> nat) \<Rightarrow> (transaction \<Rightarrow> nat) \<Rightarrow> block \<Rightarrow> bool"
where
  "block_encoding_ok encode_block encode_tx varint_size total_size blk \<longleftrightarrow>
     (\<exists>prefix. encode_block blk = prefix @ concat (map encode_tx (txdata blk)) \<and>
        length prefix = 80 + varint_size (length (txdata blk))) \<and>
     (\<forall>tx\<in>set (txdata blk). length (encode_tx tx) = total_size tx)"

lemma concat_slice:
  assumes "i < length xs"
  shows "take (length (xs ! i)) (drop (length (concat (take i xs))) (concat xs)) = xs ! i"
proof -
  have "concat xs = concat (take i xs) @ xs ! i @ concat (drop (Suc i) xs)"
    by (metis assms concat.simps(2) concat_append id_take_nth_drop)
  then show ?thesis by simp
qed

lemma location_slice:
  assumes enc: "block_encoding_ok encode_block encode_tx varint_size total_size blk"
    and short: "length (encode_block blk) < 2 ^ 32" and i: "i < length (txdata blk)"
    and loc: "compute_tx_locations varint_size total_size blk ! i = (off, len)"
  shows "unat off + unat len \<le> length (encode_block blk)"
    and "take (unat len) (drop (unat off) (encode_block blk)) = encode_tx (txdata blk ! i)"
proof -
  let ?xs = "map encode_tx (txdata blk)"
  obtain pre where pre: "encode_block blk = pre @ concat ?xs"
    "length pre = 80 + varint_size (length (txdata blk))"
    and size: "\<And>tx. tx \<in> set (txdata blk) \<Longrightarrow> length (encode_tx tx) = total_size tx"
    using enc by (auto simp: block_encoding_ok_def)
  have before: "sum_list (map total_size (take i (txdata blk))) = length (concat (take i ?xs))"
    unfolding length_concat take_map map_map comp_def
    by (rule arg_cong [where f = sum_list]) (auto dest!: in_set_takeD simp: size)
  have "length (concat ?xs) = length (concat (take i ?xs)) + length (concat (drop i ?xs))"
    by (metis append_take_drop_id concat_append length_append)
  moreover have "length (?xs ! i) \<le> length (concat (drop i ?xs))"
    using i by (simp add: Cons_nth_drop_Suc [symmetric])
  ultimately have fits: "length pre + length (concat (take i ?xs)) + length (?xs ! i) \<le> length (encode_block blk)"
    by (simp add: pre(1))
  have "off = of_nat (length pre + length (concat (take i ?xs)))" "len = of_nat (length (?xs ! i))"
    using loc i by (auto simp: compute_tx_locations_def tx_locations_nth pre(2) before size)
  then have u: "unat off = length pre + length (concat (take i ?xs))" "unat len = length (?xs ! i)"
    using fits short by (simp_all add: unat_of_nat del: of_nat_add)
  show "unat off + unat len \<le> length (encode_block blk)" using u fits by simp
  show "take (unat len) (drop (unat off) (encode_block blk)) = encode_tx (txdata blk ! i)"
    using concat_slice [of i ?xs] i by (simp add: u pre(1))
qed

section \<open>Fetching an indexed transaction\<close>

text \<open>
  C7: A transaction of a stored and indexed block can be fetched by its txid alone: the index
  entry names the block and a byte range, and reading that range of the block at its position in
  the block store returns the transaction's own serialization, however stores, background writes,
  flushes and deletions of other files interleaved before.
\<close>

theorem indexed_tx_readable:
  assumes "block_encoding_ok encode_block encode_tx varint_size total_size blk"
    and "length hash = 32" and "distinct txids" and "\<forall>t\<in>set txids. length t = 32"
    and "length txids = length (txdata blk)" and "i < length txids"
    and "unat lim < 2 ^ 63" and "\<forall>n. length (file_data dir n) < 2 ^ 64"
    and "- 1 \<notin> fst ` set dir"
    and "bs_step\<^sup>*\<^sup>* (open_with_max_file_size dir lim, []) (s, log)"
    and "(pos, encode_block blk) \<in> set log"
  shows "\<exists>off len. tx_index_get (index_block_at_height hash txids height
             (Some (compute_tx_locations varint_size total_size blk)) db) (txids ! i) =
           Inr (Some \<lparr>te_block_hash = hash, tx_pos = of_nat i, tx_loc = Some (off, len)\<rparr>) \<and>
         fst (read_block_slice True s pos off len) = Inr (encode_tx (txdata blk ! i))"
proof -
  let ?locs = "compute_tx_locations varint_size total_size blk"
  obtain off len where loc: "?locs ! i = (off, len)" by fastforce
  have n: "length ?locs = length txids" by (simp add: compute_tx_locations_def assms(5))
  have "bs_inv (s, log)"
    using bs_reachable_inv [OF assms(10)] inv_open [OF assms(7-9)] by simp
  with assms(11) have lg: "logged s pos (encode_block blk)" by (auto simp: bs_inv_def)
  then have "length (encode_block blk) < 2 ^ 32" by (simp add: logged_def)
  note sl = location_slice [OF assms(1) this _ loc]
  have "fst (read_block_slice True s pos off len) = Inr (encode_tx (txdata blk ! i))"
    using read_slice_logged [OF lg sl(1)] sl(2) assms(5,6) by simp
  moreover have "tx_index_get (index_block_at_height hash txids height (Some ?locs) db) (txids ! i) =
      Inr (Some \<lparr>te_block_hash = hash, tx_pos = of_nat i, tx_loc = Some (off, len)\<rparr>)"
    using indexed_lookup [OF assms(2-4,6)] by (simp add: block_entries_nth assms(6) n loc)
  ultimately show ?thesis by blast
qed

definition demo_tx_bytes :: "transaction \<Rightarrow> bytes" where
  "demo_tx_bytes tx = [ucast (tx_version tx), 2, 3]"

definition demo_block_bytes :: "block \<Rightarrow> bytes" where
  "demo_block_bytes blk = replicate 81 0 @ concat (map demo_tx_bytes (txdata blk))"

definition demo_block :: block where
  "demo_block = \<lparr>blk_header = \<lparr>hdr_version = 1, prev_blockhash = replicate 32 0,
       hdr_merkle_root = replicate 32 0, hdr_time = 0, hdr_bits = 0, hdr_nonce = 0\<rparr>,
     txdata = [\<lparr>tx_version = 1, tx_lock_time = 0, tx_input = [], tx_output = []\<rparr>,
               \<lparr>tx_version = 9, tx_lock_time = 0, tx_input = [], tx_output = []\<rparr>]\<rparr>"

definition demo_block_store :: "block_pos \<times> block_store" where
  "demo_block_store = store_block_async True (block_store_open []) (demo_block_bytes demo_block)"

theorem indexed_tx_readable_witness:
  "\<exists>off len. tx_index_get (index_block_at_height (replicate 32 7) [replicate 32 1, replicate 32 2] 5
       (Some (compute_tx_locations (\<lambda>_. 1) (\<lambda>_. 3) demo_block)) Map.empty) (replicate 32 2) =
     Inr (Some \<lparr>te_block_hash = replicate 32 7, tx_pos = 1, tx_loc = Some (off, len)\<rparr>) \<and>
   fst (read_block_slice True (snd demo_block_store) (fst demo_block_store) off len) = Inr [9, 2, 3]"
proof -
  define ids :: "bytes list" where "ids = [replicate 32 1, replicate 32 2]"
  have enc: "block_encoding_ok demo_block_bytes demo_tx_bytes (\<lambda>_. 1) (\<lambda>_. 3) demo_block"
    by (auto simp: block_encoding_ok_def demo_block_bytes_def demo_tx_bytes_def
        intro!: exI [of _ "replicate 81 0"])
  have "bs_step (block_store_open [], [])
      (snd demo_block_store, [(fst demo_block_store, demo_block_bytes demo_block)])"
    by (rule step_store [where ack = True])
      (simp_all add: demo_block_store_def must_rotate_def block_store_open_def
        open_with_max_file_size_def find_latest_file_def demo_block_bytes_def demo_tx_bytes_def
        demo_block_def)
  then have run: "bs_step\<^sup>*\<^sup>* (open_with_max_file_size [] MAX_BLOCK_FILE_SIZE, [])
      (snd demo_block_store, [(fst demo_block_store, demo_block_bytes demo_block)])"
    unfolding block_store_open_def by simp
  have two: "length (txdata demo_block) = 2" by (simp add: demo_block_def)
  have tx: "demo_tx_bytes (txdata demo_block ! 1) = [9, 2, 3]" by code_simp
  show ?thesis
    using indexed_tx_readable [OF enc _ _ _ _ _ _ _ _ run, of "replicate 32 7" ids 1 "fst demo_block_store" 5 Map.empty]
    by (simp add: ids_def tx [simplified] two MAX_BLOCK_FILE_SIZE_def file_data_def)
qed

end
