(* ===== verification/Chain_State.thy ===== *)
theory Chain_State
  imports Difficulty Bip110 Script_Verify Utxo_Set Tx_Index
begin

unbundle bit_operations_syntax

text \<open>
  The chain state of \<^verbatim>\<open>bitcoinpr-core/src/chain.rs\<close>: validation of a whole block against the current
  tip, the update of every store it touches (block files, header index, undo records, coins,
  transaction index), and the disconnection of the tip. It composes the components: the header and
  transaction checks, the difficulty rule, the BIP-110 deployment, the script interpreter with its
  cache, the UTXO set, the block store and the transaction index.

  A failed call still leaves the caches it touched changed, so results carry the state they stop in.
  What the code takes from outside (the clock, the iteration orders of hash maps, the schedule of
  the parallel script checks, the writer's acknowledgement, the crate's encodings) is the record
  \<open>chain_env\<close>.
\<close>

section \<open>State\<close>

text \<open>A queued script check: the transaction, the input, the outputs the transaction spends, its
  wtxid and whether BIP-110 applies to the input.\<close>

type_synonym script_check = "transaction \<times> nat \<times> tx_out list \<times> bytes \<times> bool"

record chain_env =
  env_now :: i64
  env_iter :: iteration
  env_cache_iter :: "bytes list \<Rightarrow> bytes list"
  env_schedule :: "script_check list \<Rightarrow> script_check list"
  env_ack :: bool
  env_encode :: "block \<Rightarrow> bytes"
  env_varint_size :: "nat \<Rightarrow> nat"
  env_total_size :: "transaction \<Rightarrow> nat"

record chain_state =
  cs_params :: consensus_params
  cs_headers :: header_index
  cs_utxo :: utxo_set
  cs_blocks :: block_store
  cs_tx_index :: "cf option"
  cs_sig_cache :: sig_cache
  cs_best_height :: u32
  cs_best_hash :: bytes
  peer_best_height :: "u32 option"
  cs_checker :: "bip110_checker option"

definition chain_state_new ::
  "consensus_params \<Rightarrow> header_index \<Rightarrow> utxo_set \<Rightarrow> block_store \<Rightarrow> u32 \<Rightarrow> bytes \<Rightarrow> chain_state"
where
  "chain_state_new p hi us bs height hash =
     \<lparr>cs_params = p, cs_headers = hi, cs_utxo = us, cs_blocks = bs, cs_tx_index = None,
      cs_sig_cache = sig_cache_new 100000, cs_best_height = height, cs_best_hash = hash,
      peer_best_height = None,
      cs_checker = (case (cp_bip110_deployment p, bip110_activation_height p) of
                      (Some dep, None) \<Rightarrow> Some (checker_new dep)
                    | _ \<Rightarrow> None)\<rparr>"

text \<open>The deployment for a block, with the checker's cache updated; \<open>None\<close> is a panic of the
  evaluation.\<close>

definition cs_bip110_activation ::
  "bitcoin_crate \<Rightarrow> chain_state \<Rightarrow> bytes \<Rightarrow> u32 \<Rightarrow> (bip110_activation \<times> chain_state) option"
where
  "cs_bip110_activation L cs prev_hash height =
     map_option (\<lambda>(act, ck). (act, cs\<lparr>cs_checker := ck\<rparr>))
       (activation_at L (cs_params cs) (cs_checker cs) (cs_headers cs) prev_hash height)"

section \<open>Transactions of a block\<close>

text \<open>What the transaction checks read: the arguments of \<^verbatim>\<open>validate_transactions\<close> and the two parts of
  the chain state it does not change.\<close>

record block_ctx =
  bx_params :: consensus_params
  bx_headers :: header_index
  bx_height :: u32
  bx_time :: u32
  bx_mtp :: u32
  bx_flags :: script_flags
  bx_verify :: bool
  bx_bip110 :: bip110_activation

record vt_state =
  vt_batch :: utxo_batch
  vt_spent :: "out_point list"
  vt_fees :: u64
  vt_sigops :: u64
  vt_intra :: "(out_point \<times> utxo_entry) list"
  vt_checks :: "script_check list"
  vt_utxo :: utxo_set

definition vt_init :: "utxo_set \<Rightarrow> vt_state" where
  "vt_init us = \<lparr>vt_batch = utxo_batch_new, vt_spent = [], vt_fees = 0, vt_sigops = 0,
     vt_intra = [], vt_checks = [], vt_utxo = us\<rparr>"

definition MAX_BLOCK_SIGOPS_COST :: u64 where "MAX_BLOCK_SIGOPS_COST = 80000"
definition WITNESS_SCALE_FACTOR :: u64 where "WITNESS_SCALE_FACTOR = 4"

text \<open>The error of a check, with the coins' caches as the check left them.\<close>

type_synonym 'a vt_result = "core_error \<times> utxo_set + 'a"

definition vt_check :: "unit core_result \<Rightarrow> vt_state \<Rightarrow> vt_state vt_result" where
  "vt_check r st = (case r of Inl e \<Rightarrow> Inl (e, vt_utxo st) | Inr _ \<Rightarrow> Inr st)"

definition outpoint_at :: "bytes \<Rightarrow> nat \<Rightarrow> out_point" where
  "outpoint_at txid vout = \<lparr>op_txid = txid, op_vout = of_nat vout\<rparr>"

definition bip30_ok :: "block_ctx \<Rightarrow> utxo_set \<Rightarrow> bytes \<Rightarrow> transaction \<Rightarrow> bool" where
  "bip30_ok bx us txid tx \<longleftrightarrow>
     (bx_height bx = 91842 \<or> bx_height bx = 91880) \<and> cp_network (bx_params bx) = Bitcoin \<or>
     bip34_height (bx_params bx) \<le> bx_height bx \<or>
     list_all (\<lambda>vout. \<not> utxo_contains us (outpoint_at txid vout)) [0..<length (tx_output tx)]"

definition legacy_sigops :: "script_crate \<Rightarrow> transaction \<Rightarrow> u32" where
  "legacy_sigops S tx =
     fold (\<lambda>i n. n + count_sigops S (script_sig i) False) (tx_input tx)
       (fold (\<lambda>out n. n + count_sigops S (script_pubkey out) False) (tx_output tx) 0)"

text \<open>The coins a transaction creates; outputs that can never be spent are left out.\<close>

definition created_coins ::
  "bitcoin_crate \<Rightarrow> u32 \<Rightarrow> bytes \<Rightarrow> bool \<Rightarrow> transaction \<Rightarrow> (out_point \<times> utxo_entry) list"
where
  "created_coins L height txid coinbase tx =
     map (\<lambda>(vout, out). (outpoint_at txid vout,
            \<lparr>amount = out_value out, ue_script = script_pubkey out, ue_height = height,
             ue_coinbase = coinbase\<rparr>))
       (filter (\<lambda>(vout, out). \<not> is_op_return L (script_pubkey out)) (enumerate 0 (tx_output tx)))"

definition add_outputs ::
  "bitcoin_crate \<Rightarrow> u32 \<Rightarrow> bytes \<Rightarrow> bool \<Rightarrow> transaction \<Rightarrow> vt_state \<Rightarrow> vt_state"
where
  "add_outputs L height txid coinbase tx st =
     (let new = created_coins L height txid coinbase tx
      in st\<lparr>vt_intra := fold (\<lambda>(k, v). hm_insert k v) new (vt_intra st),
            vt_batch := (vt_batch st)\<lparr>inserts := inserts (vt_batch st) @ new\<rparr>\<rparr>)"

text \<open>The loop over the inputs of a transaction.\<close>

record input_state =
  is_vt :: vt_state
  input_sum :: u64
  tx_prevouts :: "tx_out list"
  input_heights :: "u32 list"

definition input_sigops :: "script_crate \<Rightarrow> script_flags \<Rightarrow> bytes \<Rightarrow> tx_in \<Rightarrow> u64" where
  "input_sigops S flags spk input =
     (if verify_p2sh flags \<and> script_is_p2sh S spk then
        (case p2sh_redeem_script S (script_sig input) of
           Some redeem \<Rightarrow> ucast (count_sigops S redeem True) * WITNESS_SCALE_FACTOR
         | None \<Rightarrow> 0)
      else 0) +
     (if verify_witness flags then witness_sigop_cost S spk (script_sig input) (in_witness input) else 0)"

definition immature :: "block_ctx \<Rightarrow> utxo_entry \<Rightarrow> bool" where
  "immature bx utxo \<longleftrightarrow>
     ue_coinbase utxo \<and> saturating_sub_u32 (bx_height bx) (ue_height utxo) < coinbase_maturity (bx_params bx)"

definition spend_coin :: "script_crate \<Rightarrow> block_ctx \<Rightarrow> tx_in \<Rightarrow> utxo_entry \<Rightarrow> input_state \<Rightarrow> input_state" where
  "spend_coin S bx input utxo st =
     (let op = previous_output input; vt = is_vt st; b = vt_batch vt
      in st\<lparr>is_vt := vt\<lparr>vt_spent := op # vt_spent vt,
                        vt_sigops := vt_sigops vt + input_sigops S (bx_flags bx) (ue_script utxo) input,
                        vt_batch := b\<lparr>batch_spent := batch_spent b @ [\<lparr>su_outpoint = op, su_entry = utxo\<rparr>],
                                      removals := removals b @ [op]\<rparr>\<rparr>,
            input_sum := input_sum st + amount utxo,
            input_heights := input_heights st @ [ue_height utxo],
            tx_prevouts := tx_prevouts st @
              [\<lparr>out_value = amount utxo, script_pubkey = ue_script utxo\<rparr>]\<rparr>)"

definition check_input ::
  "script_crate \<Rightarrow> block_ctx \<Rightarrow> input_state \<Rightarrow> tx_in \<Rightarrow> input_state vt_result"
where
  "check_input S bx st input =
     (let op = previous_output input; vt = is_vt st
      in if op \<in> set (vt_spent vt) then Inl (DoubleSpend op, vt_utxo vt)
         else
           (case utxo_get (vt_utxo vt) op of
              (Inl e, us) \<Rightarrow> Inl (Storage e, us)
            | (Inr found, us) \<Rightarrow>
                (case (case found of Some u \<Rightarrow> Some u | None \<Rightarrow> map_of (vt_intra vt) op) of
                   None \<Rightarrow> Inl (MissingUtxo op, us)
                 | Some utxo \<Rightarrow>
                     if immature bx utxo
                     then Inl (InvalidTransaction ''spending immature coinbase'', us)
                     else Inr (spend_coin S bx input utxo (st\<lparr>is_vt := vt\<lparr>vt_utxo := us\<rparr>\<rparr>)))))"

text \<open>The relative lock-times of BIP 68.\<close>

definition coin_time :: "bitcoin_crate \<Rightarrow> block_ctx \<Rightarrow> u32 \<Rightarrow> u32 option" where
  "coin_time L bx coin_height =
     Option.bind (ok_flatten (get_hash_at_height (bx_headers bx) (saturating_sub_u32 coin_height 1)))
       (get_median_time_past L (bx_headers bx))"

definition needs_time_mtp :: "transaction \<Rightarrow> bool" where
  "needs_time_mtp tx \<longleftrightarrow>
     2 \<le> sint (tx_version tx) \<and>
     list_ex (\<lambda>i. in_sequence i AND push_bit 31 1 = 0 \<and> in_sequence i AND push_bit 22 1 \<noteq> 0) (tx_input tx)"

definition check_sequence :: "bitcoin_crate \<Rightarrow> block_ctx \<Rightarrow> transaction \<Rightarrow> u32 list \<Rightarrow> unit core_result" where
  "check_sequence L bx tx heights =
     (if csv_height (bx_params bx) \<le> bx_height bx then
        bindE
          (if needs_time_mtp tx then
             foldE (\<lambda>times h. bindE (ok_or (ChainContext ''cannot compute BIP 68 time reference'')
                                 (coin_time L bx h)) (\<lambda>t. Inr (times @ [t]))) [] heights
           else Inr (replicate (length (tx_input tx)) 0))
          (\<lambda>times. validate_sequence_locks tx heights times (bx_height bx) (bx_mtp bx))
      else Inr ())"

definition queue_checks ::
  "block_ctx \<Rightarrow> transaction \<Rightarrow> bytes \<Rightarrow> input_state \<Rightarrow> vt_state"
where
  "queue_checks bx tx wtxid st =
     (let vt = is_vt st; act = bx_bip110 bx
      in if bx_verify bx then
           vt\<lparr>vt_checks := vt_checks vt @
             map (\<lambda>(vin, h). (tx, vin, tx_prevouts st, wtxid,
                    enforcing act \<and> (case activation_height act of Some a \<Rightarrow> a \<le> h | None \<Rightarrow> False)))
               (enumerate 0 (input_heights st))\<rparr>
         else vt)"

definition output_sum :: "transaction \<Rightarrow> u64" where
  "output_sum tx = sum_list (map out_value (tx_output tx))"

text \<open>One transaction: the checks that every transaction passes, then the coinbase or the spending
  transaction.\<close>

definition check_spending_tx ::
  "bitcoin_crate \<Rightarrow> script_crate \<Rightarrow> block_ctx \<Rightarrow> bytes \<Rightarrow> bytes \<Rightarrow> transaction \<Rightarrow> vt_state
     \<Rightarrow> vt_state vt_result"
where
  "check_spending_tx L S bx txid wtxid tx st =
     (let locktime_time = (if csv_height (bx_params bx) \<le> bx_height bx then bx_mtp bx else bx_time bx)
      in if \<not> is_final_tx tx (bx_height bx) locktime_time
         then Inl (InvalidTransaction ''bad-txns-nonfinal'', vt_utxo st)
         else
           bindE (foldE (check_input S bx)
                    \<lparr>is_vt = st, input_sum = 0, tx_prevouts = [], input_heights = []\<rparr> (tx_input tx)) (\<lambda>ins.
           bindE (vt_check (check_sequence L bx tx (input_heights ins)) (queue_checks bx tx wtxid ins)) (\<lambda>st'.
             if input_sum ins < output_sum tx
             then Inl (InvalidTransaction ''outputs exceed inputs'', vt_utxo st')
             else Inr (add_outputs L (bx_height bx) txid False tx
                         (st'\<lparr>vt_fees := vt_fees st' + (input_sum ins - output_sum tx)\<rparr>)))))"

definition check_tx ::
  "bitcoin_crate \<Rightarrow> script_crate \<Rightarrow> block_ctx \<Rightarrow> bytes list \<Rightarrow> bytes list option \<Rightarrow> vt_state
     \<Rightarrow> nat \<times> transaction \<Rightarrow> vt_state vt_result"
where
  "check_tx L S bx txids wtxids st = (\<lambda>(tx_idx, tx).
     let txid = txids ! tx_idx
     in bindE (vt_check (check_transaction L tx) st) (\<lambda>st.
        bindE (vt_check (if enforcing (bx_bip110 bx) then check_bip110_output_scripts tx else Inr ()) st) (\<lambda>st.
          if \<not> bip30_ok bx (vt_utxo st) txid tx
          then Inl (InvalidTransaction ''BIP 30: duplicate txid has unspent outputs'', vt_utxo st)
          else
            (let st = st\<lparr>vt_sigops := vt_sigops st + ucast (legacy_sigops S tx) * WITNESS_SCALE_FACTOR\<rparr>
             in if tx_idx = 0 then Inr (add_outputs L (bx_height bx) txid True tx st)
                else check_spending_tx L S bx txid
                       (case wtxids of Some w \<Rightarrow> w ! tx_idx | None \<Rightarrow> compute_wtxid L tx) tx st))))"

text \<open>The script checks, in the order a schedule gives them, with the cache of verified inputs.\<close>

definition run_check ::
  "(bytes list \<Rightarrow> bytes list) \<Rightarrow> script_crate \<Rightarrow> script_flags \<Rightarrow> script_check \<Rightarrow> sig_cache
     \<Rightarrow> (stop \<times> sig_cache) + sig_cache"
where
  "run_check iter S script_flags check cache =
     (let (tx, vin, prevouts, wtxid, enforce_bip110) = check;
          flags = script_flags\<lparr>verify_bip110 := enforce_bip110\<rparr>
      in if sig_cache_contains cache wtxid vin flags then Inr cache
         else
           (case verify_script S tx vin prevouts flags of
              Inl (Fail e) \<Rightarrow> Inl (Fail (InvalidScript ''script check failed''), cache)
            | Inl Panic \<Rightarrow> Inl (Panic, cache)
            | Inr _ \<Rightarrow> Inr (sig_cache_insert iter wtxid vin flags cache)))"

definition coinbase_ok :: "block_ctx \<Rightarrow> block \<Rightarrow> vt_state \<Rightarrow> unit core_result" where
  "coinbase_ok bx blk st =
     (case txdata blk of
        [] \<Rightarrow> Inr ()
      | coinbase # _ \<Rightarrow>
          (let max_value = block_subsidy (bx_params bx) (bx_height bx) + vt_fees st
           in if max_value < output_sum coinbase
              then Inl (InvalidSubsidy max_value (output_sum coinbase)) else Inr ()))"

text \<open>The amounts logged with an excessive coinbase: reading them only moves coins into the cache.\<close>

definition fee_samples :: "block \<Rightarrow> utxo_set \<Rightarrow> utxo_set" where
  "fee_samples blk us =
     fold (\<lambda>input us. snd (utxo_get us (previous_output input)))
       (concat (map tx_input (take 3 (drop 1 (txdata blk))))) us"

definition check_txs ::
  "bitcoin_crate \<Rightarrow> script_crate \<Rightarrow> block_ctx \<Rightarrow> block \<Rightarrow> bytes list \<Rightarrow> bytes list option \<Rightarrow> utxo_set
     \<Rightarrow> vt_state vt_result"
where
  "check_txs L S bx blk txids wtxids us =
     bindE (foldE (check_tx L S bx txids wtxids)
              (vt_init (prefetch us (concat (map (map previous_output \<circ> tx_input) (drop 1 (txdata blk))))))
              (enumerate 0 (txdata blk))) (\<lambda>st.
       if MAX_BLOCK_SIGOPS_COST < vt_sigops st
       then Inl (InvalidTransaction ''block sigop cost exceeds limit'', vt_utxo st)
       else (case coinbase_ok bx blk st of
               Inl e \<Rightarrow> Inl (e, fee_samples blk (vt_utxo st))
             | Inr _ \<Rightarrow> Inr st))"

definition validate_transactions ::
  "bitcoin_crate \<Rightarrow> script_crate \<Rightarrow> chain_env \<Rightarrow> block_ctx \<Rightarrow> block \<Rightarrow> bytes list \<Rightarrow> bytes list option
     \<Rightarrow> chain_state \<Rightarrow> utxo_batch run \<times> chain_state"
where
  "validate_transactions L S E bx blk txids wtxids cs =
     (case check_txs L S bx blk txids wtxids (cs_utxo cs) of
        Inl (e, us) \<Rightarrow> (Inl (Fail e), cs\<lparr>cs_utxo := us\<rparr>)
      | Inr st \<Rightarrow>
          (let cs = cs\<lparr>cs_utxo := vt_utxo st\<rparr>
           in case foldE (\<lambda>c chk. run_check (env_cache_iter E) S (bx_flags bx) chk c) (cs_sig_cache cs)
                     (env_schedule E (vt_checks st)) of
                Inl (e, c) \<Rightarrow> (Inl e, cs\<lparr>cs_sig_cache := c\<rparr>)
              | Inr c \<Rightarrow> (Inr (vt_batch st), cs\<lparr>cs_sig_cache := c\<rparr>)))"

section \<open>Connecting a block\<close>

definition core_run :: "'a core_result \<Rightarrow> 'a run" where
  "core_run r = (case r of Inl e \<Rightarrow> Inl (Fail e) | Inr x \<Rightarrow> Inr x)"

definition storage_run :: "storage_error + 'a \<Rightarrow> 'a run" where
  "storage_run r = (case r of Inl e \<Rightarrow> Inl (Fail (Storage e)) | Inr x \<Rightarrow> Inr x)"

definition or_panic :: "'a option \<Rightarrow> 'a run" where
  "or_panic r = (case r of None \<Rightarrow> Inl Panic | Some x \<Rightarrow> Inr x)"

text \<open>Scripts of the assume-valid block and of the blocks below it are not verified.\<close>

definition verify_scripts_for :: "bitcoin_crate \<Rightarrow> chain_state \<Rightarrow> bytes \<Rightarrow> u32 \<Rightarrow> bool" where
  "verify_scripts_for L cs hash height =
     (case assume_valid (cs_params cs) of
        Some assume_hash \<Rightarrow>
          if hash = assume_hash then False
          else
            (case get_header L (cs_headers cs) assume_hash of
               Inr (Some av_header) \<Rightarrow> sh_height av_header < height
             | _ \<Rightarrow> True)
      | None \<Rightarrow> True)"

text \<open>The checks of the block as a whole, up to its difficulty: header, Merkle root, weight, coinbase,
  witness commitment, timestamp, target. They change nothing.\<close>

definition block_time_ok ::
  "bitcoin_crate \<Rightarrow> chain_state \<Rightarrow> block \<Rightarrow> u32 \<Rightarrow> u32 core_result"
where
  "block_time_ok L cs blk height =
     (if height = 0 then Inr 0
      else
        bindE (ok_or (ChainContext ''cannot compute median-time-past'')
                 (get_median_time_past L (cs_headers cs) (prev_blockhash (blk_header blk)))) (\<lambda>mtp.
          if hdr_time (blk_header blk) \<le> mtp
          then Inl (InvalidTimestamp ''block time is not after median-time-past'') else Inr mtp))"

definition block_bits_ok ::
  "bitcoin_crate \<Rightarrow> chain_state \<Rightarrow> block \<Rightarrow> u32 \<Rightarrow> unit run"
where
  "block_bits_ok L cs blk height =
     (if height = 0 \<or> signet_challenge (cs_params cs) \<noteq> None then Inr ()
      else
        bindE (or_panic (get_next_work_required L (cs_headers cs) (cs_params cs)
                 (prev_blockhash (blk_header blk)) (height - 1) (hdr_time (blk_header blk)))) (\<lambda>bits.
        bindE (core_run (ok_or (ChainContext ''cannot compute required nBits'') bits)) (\<lambda>expected_bits.
          if hdr_bits (blk_header blk) \<noteq> expected_bits
          then Inl (Fail (InvalidDifficultyTarget ''nBits mismatch'')) else Inr ())))"

definition check_block ::
  "bitcoin_crate \<Rightarrow> chain_env \<Rightarrow> chain_state \<Rightarrow> block \<Rightarrow> u32
     \<Rightarrow> (bytes list \<times> bytes list option \<times> bool \<times> u32) run"
where
  "check_block L E cs blk height =
     (let hdr = blk_header blk; p = cs_params cs;
          txids = map (compute_txid L) (txdata blk);
          verify_scripts = verify_scripts_for L cs (block_hash L hdr) height;
          need_commitment = (segwit_height p \<le> height \<and> block_has_witness blk);
          wtxids = (if verify_scripts \<or> need_commitment
                    then Some (map (compute_wtxid L) (txdata blk)) else None)
      in bindE (if 0 < height
                then storage_run (bindE (get_header L (cs_headers cs) (prev_blockhash hdr))
                       (\<lambda>r. Inr (map_option sh_header r)))
                else Inr None) (\<lambda>prev_header.
         bindE (core_run (validate_block_header L (env_now E) hdr height prev_header p)) (\<lambda>_.
         bindE (or_panic (verify_merkle_root_with_txids L blk txids)) (\<lambda>merkle.
         bindE (core_run merkle) (\<lambda>_.
         bindE (core_run (validate_block_weight L blk p)) (\<lambda>_.
         bindE (core_run (validate_coinbase L blk height p)) (\<lambda>_.
         bindE (case wtxids of
                  Some w \<Rightarrow> if need_commitment
                    then core_run (validate_witness_commitment_with_wtxids L blk w) else Inr ()
                | None \<Rightarrow> Inr ()) (\<lambda>_.
         bindE (core_run (block_time_ok L cs blk height)) (\<lambda>block_mtp.
         bindE (block_bits_ok L cs blk height) (\<lambda>_.
           Inr (txids, wtxids, verify_scripts, block_mtp)))))))))))"

text \<open>The writes after a successful validation, in the code's order.\<close>

definition ensure_header :: "bitcoin_crate \<Rightarrow> block \<Rightarrow> u32 \<Rightarrow> header_index \<Rightarrow> header_index run" where
  "ensure_header L blk height hi =
     (let hdr = blk_header blk; hash = block_hash L hdr
      in bindE (storage_run (get_header L hi hash)) (\<lambda>own.
         if own \<noteq> None then Inr hi
         else
           bindE (storage_run (get_header L hi (prev_blockhash hdr))) (\<lambda>parent.
             case parent of
               None \<Rightarrow> Inr hi
             | Some par \<Rightarrow>
                 Inr (insert_header L hash
                   \<lparr>sh_header = hdr, sh_height = height,
                    sh_chain_work = add_chain_work (sh_chain_work par)
                      (calculate_work (target_from_compact L (hdr_bits hdr)))\<rparr> hi))))"

definition commit_block ::
  "bitcoin_crate \<Rightarrow> chain_env \<Rightarrow> block \<Rightarrow> u32 \<Rightarrow> bytes option \<Rightarrow> bytes list \<Rightarrow> utxo_batch \<Rightarrow> chain_state
     \<Rightarrow> bytes list run \<times> chain_state"
where
  "commit_block L E blk height raw_bytes txids batch cs =
     (let hash = block_hash L (blk_header blk);
          raw_block = (case raw_bytes of Some bytes \<Rightarrow> bytes | None \<Rightarrow> env_encode E blk);
          (pos, blocks) = store_block_async (env_ack E) (cs_blocks cs) raw_block;
          hi = set_height_hash height hash (set_block_pos hash pos (cs_headers cs));
          cs = cs\<lparr>cs_blocks := blocks, cs_headers := hi\<rparr>
      in case ensure_header L blk height hi of
           Inl e \<Rightarrow> (Inl e, cs)
         | Inr hi \<Rightarrow>
             (let us = store_undo hash (batch_spent batch) (map fst (inserts batch))
                         (prev_blockhash (blk_header blk)) (cs_utxo cs);
                  us = set_pending_flush_height height hash us;
                  (flushed, us) = apply_batch (env_iter E) us batch;
                  tx_index = map_option (index_block_at_height hash txids height
                    (Some (compute_tx_locations (env_varint_size E) (env_total_size E) blk))) (cs_tx_index cs);
                  hi = (if flushed then set_validated_height height (set_best_tip hash height hi) else hi);
                  cache = (if height mod 10000 = 0 then sig_cache_clear (cs_sig_cache cs) else cs_sig_cache cs)
              in (Inr txids,
                  cs\<lparr>cs_headers := hi, cs_utxo := us, cs_tx_index := tx_index,
                     cs_best_height := height, cs_best_hash := hash, cs_sig_cache := cache\<rparr>)))"

definition connect_block_with_raw ::
  "bitcoin_crate \<Rightarrow> script_crate \<Rightarrow> chain_env \<Rightarrow> block \<Rightarrow> u32 \<Rightarrow> bytes option \<Rightarrow> chain_state
     \<Rightarrow> bytes list run \<times> chain_state"
where
  "connect_block_with_raw L S E blk height raw_bytes cs =
     (let hdr = blk_header blk; p = cs_params cs
      in case check_block L E cs blk height of
           Inl e \<Rightarrow> (Inl e, cs)
         | Inr (txids, wtxids, verify_scripts, block_mtp) \<Rightarrow>
             (case cs_bip110_activation L cs (prev_blockhash hdr) height of
                None \<Rightarrow> (Inl Panic, cs)
              | Some (bip110, cs) \<Rightarrow>
                  if (case cs_checker cs of
                        Some ck \<Rightarrow> violates_mandatory_signaling bip110 (ck_dep ck) height (hdr_version hdr)
                      | None \<Rightarrow> False)
                  then (Inl (Fail (InvalidBlock ''BIP-110: block must signal'')), cs)
                  else
                    (let flags = flags_for_height height (hdr_time hdr) (bip16_time p) (segwit_height p)
                           (bip65_height p) (csv_height p) (bip66_height p) (taproot_height p);
                         bx = \<lparr>bx_params = p, bx_headers = cs_headers cs, bx_height = height,
                               bx_time = hdr_time hdr, bx_mtp = block_mtp, bx_flags = flags,
                               bx_verify = verify_scripts, bx_bip110 = bip110\<rparr>
                     in case validate_transactions L S E bx blk txids wtxids cs of
                          (Inl e, cs) \<Rightarrow> (Inl e, cs)
                        | (Inr batch, cs) \<Rightarrow> commit_block L E blk height raw_bytes txids batch cs)))"

definition connect_block ::
  "bitcoin_crate \<Rightarrow> script_crate \<Rightarrow> chain_env \<Rightarrow> block \<Rightarrow> u32 \<Rightarrow> chain_state
     \<Rightarrow> bytes list run \<times> chain_state"
where
  "connect_block L S E blk height cs = connect_block_with_raw L S E blk height None cs"

section \<open>Disconnecting the tip\<close>

definition created_outpoints_of :: "bitcoin_crate \<Rightarrow> transaction \<Rightarrow> out_point list" where
  "created_outpoints_of L tx =
     map (\<lambda>(vout, out). outpoint_at (compute_txid L tx) vout)
       (filter (\<lambda>(vout, out). \<not> is_op_return L (script_pubkey out)) (enumerate 0 (tx_output tx)))"

definition inverse_of_block :: "bitcoin_crate \<Rightarrow> block \<Rightarrow> undo_data \<Rightarrow> utxo_batch" where
  "inverse_of_block L blk undo =
     \<lparr>inserts = map (\<lambda>s. (su_outpoint s, su_entry s)) (spent_utxos undo),
      removals = concat (map (created_outpoints_of L) (rev (txdata blk))),
      batch_spent = []\<rparr>"

definition disconnect_block ::
  "bitcoin_crate \<Rightarrow> chain_env \<Rightarrow> block \<Rightarrow> u32 \<Rightarrow> chain_state \<Rightarrow> unit core_result \<times> chain_state"
where
  "disconnect_block L E blk height cs =
     (let hdr = blk_header blk; hash = block_hash L hdr
      in if hash \<noteq> cs_best_hash cs
         then (Inl (InvalidTransaction ''cannot disconnect block: not the current tip''), cs)
         else if height \<noteq> cs_best_height cs
         then (Inl (InvalidTransaction ''height mismatch''), cs)
         else
           (case load_undo (cs_utxo cs) hash of
              Inl e \<Rightarrow> (Inl (Storage e), cs)
            | Inr None \<Rightarrow> (Inl (UndoMissing hash height), cs)
            | Inr (Some undo) \<Rightarrow>
                (let prev_height = saturating_sub_u32 height 1;
                     us = set_pending_flush_height prev_height (prev_blockhash hdr) (cs_utxo cs);
                     us = snd (apply_batch (env_iter E) us (inverse_of_block L blk undo));
                     us = delete_undo hash us;
                     tx_index = map_option (deindex_block (map (compute_txid L) (txdata blk))) (cs_tx_index cs);
                     hi = (case get_hash_at_height (cs_headers cs) height of
                             Inr (Some h) \<Rightarrow> if h \<noteq> hash then cs_headers cs
                               else delete_height_entry height (cs_headers cs)
                           | _ \<Rightarrow> delete_height_entry height (cs_headers cs))
                 in (Inr (),
                     cs\<lparr>cs_utxo := flush_to_disk (env_iter E) us, cs_tx_index := tx_index,
                        cs_best_height := prev_height, cs_best_hash := prev_blockhash hdr,
                        cs_headers := set_best_tip (prev_blockhash hdr) prev_height hi\<rparr>))))"

end
