(* ===== verification/Chain_Facts.thy ===== *)
theory Chain_Facts
  imports Chain_State Validation_Facts Utxo_Recovery
begin

text \<open>
  What the chain state promises. The loop over a block's transactions keeps an account: the value of
  the coins created so far plus the fees counted so far never exceeds the coinbase's claim plus the
  value of the coins spent so far, and every coin spent was in the set or created earlier in the
  block, and is spent once. From it follow the bound on the money supply, the exactness of the
  64-bit sums, and that disconnecting the tip restores the coins.
\<close>

section \<open>Values\<close>

definition total_supply :: "(bytes \<rightharpoonup> utxo_entry) \<Rightarrow> nat" where
  "total_supply m = (\<Sum>k\<in>dom m. unat (amount (the (m k))))"

definition created_value :: "(out_point \<times> utxo_entry) list \<Rightarrow> nat" where
  "created_value ins = sum_list (map (\<lambda>i. unat (amount (snd i))) ins)"

definition spent_value :: "spent_utxo list \<Rightarrow> nat" where
  "spent_value sp = sum_list (map (\<lambda>s. unat (amount (su_entry s))) sp)"

lemma value_simps [simp]:
  "created_value [] = 0" "created_value (a @ b) = created_value a + created_value b"
  "spent_value [] = 0" "spent_value (x @ y) = spent_value x + spent_value y"
  "spent_value [s] = unat (amount (su_entry s))"
  by (simp_all add: created_value_def spent_value_def)

lemma sum_set_le_sum_list:
  fixes f :: "'a \<Rightarrow> nat"
  shows "(\<Sum>x\<in>set xs. f x) \<le> sum_list (map f xs)"
  by (induction xs) (auto simp: sum.insert_if trans_le_add2)

text \<open>Coins with different keys, each in the set or among the created ones, are worth no more than the
  set and the created ones together.\<close>

lemma accounted_bound:
  assumes "finite K" and "finite (dom m)"
    and acc: "\<And>k. k \<in> K \<Longrightarrow> m k = Some (f k) \<or> (\<exists>op. outpoint_key op = k \<and> (op, f k) \<in> set ins)"
  shows "(\<Sum>k\<in>K. unat (amount (f k))) \<le> total_supply m + created_value ins"
proof -
  define A where "A = {k \<in> K. m k = Some (f k)}"
  have "(\<Sum>k\<in>A. unat (amount (f k))) = (\<Sum>k\<in>A. unat (amount (the (m k))))"
    by (intro sum.cong) (auto simp: A_def)
  also have "\<dots> \<le> total_supply m"
    unfolding total_supply_def using assms(2) by (intro sum_mono2) (auto simp: A_def)
  finally have old: "(\<Sum>k\<in>A. unat (amount (f k))) \<le> total_supply m" .
  define g where "g = (\<lambda>k. SOME op. outpoint_key op = k \<and> (op, f k) \<in> set ins)"
  have g: "outpoint_key (g k) = k \<and> (g k, f k) \<in> set ins" if "k \<in> K - A" for k
  proof -
    have "\<exists>op. outpoint_key op = k \<and> (op, f k) \<in> set ins"
      using acc [of k] that by (simp add: A_def)
    then show ?thesis unfolding g_def by (rule someI_ex)
  qed
  have inj: "inj_on (\<lambda>k. (g k, f k)) (K - A)"
    by (rule inj_onI) (metis g prod.inject)
  have "(\<Sum>k\<in>K - A. unat (amount (f k))) = (\<Sum>i\<in>(\<lambda>k. (g k, f k)) ` (K - A). unat (amount (snd i)))"
    by (simp add: sum.reindex [OF inj])
  also have "\<dots> \<le> (\<Sum>i\<in>set ins. unat (amount (snd i)))"
    using g by (intro sum_mono2) (simp, blast, simp)
  also have "\<dots> \<le> created_value ins" unfolding created_value_def by (rule sum_set_le_sum_list)
  finally have new: "(\<Sum>k\<in>K - A. unat (amount (f k))) \<le> created_value ins" .
  have "A \<subseteq> K" by (auto simp: A_def)
  from sum.subset_diff [OF this assms(1), of "\<lambda>k. unat (amount (f k))"] old new show ?thesis by simp
qed

lemma unat_sum_list:
  fixes vs :: "u64 list"
  shows "sum_list (map unat vs) < 2 ^ 64 \<Longrightarrow> unat (sum_list vs) = sum_list (map unat vs)"
  by (induction vs) (simp_all add: unat_word_ariths)

lemma output_sum_exact:
  assumes "check_transaction L tx = Inr ()"
  shows "unat (output_sum tx) = sum_list (map (\<lambda>out. unat (out_value out)) (tx_output tx))"
    and "unat (output_sum tx) \<le> 2100000000000000"
proof -
  have "sum_list (map (\<lambda>out. unat (out_value out)) (tx_output tx)) \<le> 2100000000000000"
    using assms by (simp add: check_transaction_iff)
  then show "unat (output_sum tx) = sum_list (map (\<lambda>out. unat (out_value out)) (tx_output tx))"
    "unat (output_sum tx) \<le> 2100000000000000"
    using unat_sum_list [of "map out_value (tx_output tx)"] by (simp_all add: output_sum_def comp_def)
qed

lemma created_coins_value:
  "created_value (created_coins L h txid cb tx) \<le> sum_list (map (\<lambda>out. unat (out_value out)) (tx_output tx))"
proof -
  let ?f = "\<lambda>x :: nat \<times> tx_out. unat (out_value (snd x))"
  have "created_value (created_coins L h txid cb tx) =
      sum_list (map ?f (filter (\<lambda>(vout, out). \<not> is_op_return L (script_pubkey out)) (enumerate 0 (tx_output tx))))"
    by (simp add: created_value_def created_coins_def comp_def case_prod_beta)
  also have "\<dots> \<le> sum_list (map ?f (enumerate 0 (tx_output tx)))"
    by (rule sum_list_filter_le_nat)
  also have "map ?f (enumerate 0 (tx_output tx)) = map (\<lambda>out. unat (out_value out)) (map snd (enumerate 0 (tx_output tx)))"
    unfolding map_map comp_def ..
  finally show ?thesis by simp
qed

section \<open>The account of a block\<close>

definition vt_inv :: "(bytes \<rightharpoonup> utxo_entry) \<Rightarrow> nat \<Rightarrow> vt_state \<Rightarrow> bool" where
  "vt_inv m C st \<longleftrightarrow>
     coherent (vt_utxo st) \<and> coins (vt_utxo st) = m \<and> finite (dom m) \<and>
     removals (vt_batch st) = map su_outpoint (batch_spent (vt_batch st)) \<and>
     vt_spent st = rev (map su_outpoint (batch_spent (vt_batch st))) \<and>
     distinct (map su_outpoint (batch_spent (vt_batch st))) \<and>
     (\<forall>s\<in>set (batch_spent (vt_batch st)). length (op_txid (su_outpoint s)) = 32 \<and>
        (m (outpoint_key (su_outpoint s)) = Some (su_entry s) \<or>
         m (outpoint_key (su_outpoint s)) = None \<and> (su_outpoint s, su_entry s) \<in> set (inserts (vt_batch st)))) \<and>
     (\<forall>op e. map_of (vt_intra st) op = Some e \<longrightarrow> (op, e) \<in> set (inserts (vt_batch st))) \<and>
     created_value (inserts (vt_batch st)) + unat (vt_fees st) \<le> C + spent_value (batch_spent (vt_batch st))"

lemma distinct_spent_keys:
  assumes "distinct (map su_outpoint sp)" and "\<forall>s\<in>set sp. length (op_txid (su_outpoint s)) = 32"
  shows "distinct (map (\<lambda>s. outpoint_key (su_outpoint s)) sp)"
  using assms by (induction sp) (auto simp: outpoint_key_inject image_iff)

lemma spent_value_keys:
  assumes "distinct (map (\<lambda>s. outpoint_key (su_outpoint s)) sp)"
  obtains f where "spent_value sp = (\<Sum>k\<in>(\<lambda>s. outpoint_key (su_outpoint s)) ` set sp. unat (amount (f k)))"
    and "\<And>s. s \<in> set sp \<Longrightarrow> f (outpoint_key (su_outpoint s)) = su_entry s"
proof -
  let ?key = "\<lambda>s. outpoint_key (su_outpoint s)"
  define f where "f = (\<lambda>k. su_entry (the_inv_into (set sp) ?key k))"
  have inj: "inj_on ?key (set sp)" and dist: "distinct sp" using assms by (simp_all add: distinct_map)
  have f: "f (?key s) = su_entry s" if "s \<in> set sp" for s
    unfolding f_def using the_inv_into_f_f [OF inj that] by simp
  have "spent_value sp = (\<Sum>s\<in>set sp. unat (amount (su_entry s)))"
    unfolding spent_value_def by (rule sum_list_distinct_conv_sum_set [OF dist])
  also have "\<dots> = (\<Sum>k\<in>?key ` set sp. unat (amount (f k)))"
    by (simp add: sum.reindex [OF inj] f)
  finally show thesis using that f by blast
qed

lemma vt_spent_bound:
  assumes "vt_inv m C st"
  shows "spent_value (batch_spent (vt_batch st)) \<le> total_supply m + created_value (inserts (vt_batch st))"
proof -
  let ?sp = "batch_spent (vt_batch st)"
  have "distinct (map (\<lambda>s. outpoint_key (su_outpoint s)) ?sp)"
    using assms by (intro distinct_spent_keys) (auto simp: vt_inv_def)
  then obtain f where f: "spent_value ?sp = (\<Sum>k\<in>(\<lambda>s. outpoint_key (su_outpoint s)) ` set ?sp. unat (amount (f k)))"
    "\<And>s. s \<in> set ?sp \<Longrightarrow> f (outpoint_key (su_outpoint s)) = su_entry s"
    by (rule spent_value_keys) blast
  have "finite (dom m)" using assms by (simp add: vt_inv_def)
  then show ?thesis
    unfolding f(1) using assms f(2) by (intro accounted_bound) (auto simp: vt_inv_def)
qed

text \<open>Reading the coins and spending one of them keep the account; the running 64-bit sum of a
  transaction's inputs is exact.\<close>

lemma check_input_cases:
  assumes "check_input S bx ist input = Inr ist'" and "coherent (vt_utxo (is_vt ist))"
  obtains utxo us where
    "previous_output input \<notin> set (vt_spent (is_vt ist))"
    "coherent us" "coins us = coins (vt_utxo (is_vt ist))"
    "coins us (outpoint_key (previous_output input)) = Some utxo \<or>
     coins us (outpoint_key (previous_output input)) = None \<and>
     map_of (vt_intra (is_vt ist)) (previous_output input) = Some utxo"
    "\<not> immature bx utxo"
    "ist' = spend_coin S bx input utxo (ist\<lparr>is_vt := (is_vt ist)\<lparr>vt_utxo := us\<rparr>\<rparr>)"
proof -
  let ?op = "previous_output input"
  obtain us where us: "utxo_get (vt_utxo (is_vt ist)) ?op =
      (Inr (coins (vt_utxo (is_vt ist)) (outpoint_key ?op)), us)" "coherent us"
    "coins us = coins (vt_utxo (is_vt ist))"
    using utxo_get_correct [OF assms(2)] by blast
  have fresh: "?op \<notin> set (vt_spent (is_vt ist))"
    using assms(1) by (auto simp: check_input_def Let_def)
  define found where "found = (case coins (vt_utxo (is_vt ist)) (outpoint_key ?op) of
      Some u \<Rightarrow> Some u | None \<Rightarrow> map_of (vt_intra (is_vt ist)) ?op)"
  have run: "Inr ist' = (case found of None \<Rightarrow> Inl (MissingUtxo ?op, us)
      | Some u \<Rightarrow> if immature bx u then Inl (InvalidTransaction ''spending immature coinbase'', us)
          else Inr (spend_coin S bx input u (ist\<lparr>is_vt := (is_vt ist)\<lparr>vt_utxo := us\<rparr>\<rparr>)))"
    using assms(1) fresh unfolding check_input_def Let_def us(1) found_def by simp
  then obtain u where u: "found = Some u" by (cases found) auto
  then have "coins us (outpoint_key ?op) = Some u \<or>
      coins us (outpoint_key ?op) = None \<and> map_of (vt_intra (is_vt ist)) ?op = Some u"
    by (simp add: found_def us(3) split: option.splits)
  with fresh us(2,3) run u show thesis
    by (intro that [of us u]) (simp_all split: if_splits)
qed

lemma vt_inv_spend:
  assumes inv: "vt_inv m C (is_vt ist)" and len: "length (op_txid (previous_output input)) = 32"
    and chk: "check_input S bx ist input = Inr ist'"
  shows "vt_inv m C (is_vt ist')"
    and "inserts (vt_batch (is_vt ist')) = inserts (vt_batch (is_vt ist))"
    and "vt_fees (is_vt ist') = vt_fees (is_vt ist)"
    and "\<exists>u :: utxo_entry. spent_value (batch_spent (vt_batch (is_vt ist'))) =
           spent_value (batch_spent (vt_batch (is_vt ist))) + unat (amount u) \<and>
         input_sum ist' = input_sum ist + amount u"
proof -
  let ?op = "previous_output input"
  have "coherent (vt_utxo (is_vt ist))" using inv by (simp add: vt_inv_def)
  from check_input_cases [OF chk this] obtain u us where c:
    "?op \<notin> set (vt_spent (is_vt ist))" "coherent us" "coins us = coins (vt_utxo (is_vt ist))"
    "coins us (outpoint_key ?op) = Some u \<or>
     coins us (outpoint_key ?op) = None \<and> map_of (vt_intra (is_vt ist)) ?op = Some u"
    and ist': "ist' = spend_coin S bx input u (ist\<lparr>is_vt := (is_vt ist)\<lparr>vt_utxo := us\<rparr>\<rparr>)" by metis
  let ?b = "vt_batch (is_vt ist)" and ?s = "\<lparr>su_outpoint = ?op, su_entry = u\<rparr>"
  have sel: "vt_utxo (is_vt ist') = us" "vt_spent (is_vt ist') = ?op # vt_spent (is_vt ist)"
    "vt_intra (is_vt ist') = vt_intra (is_vt ist)"
    "inserts (vt_batch (is_vt ist')) = inserts ?b"
    "removals (vt_batch (is_vt ist')) = removals ?b @ [?op]"
    "batch_spent (vt_batch (is_vt ist')) = batch_spent ?b @ [?s]"
    "vt_fees (is_vt ist') = vt_fees (is_vt ist)" "input_sum ist' = input_sum ist + amount u"
    by (simp_all add: ist' spend_coin_def Let_def)
  show "inserts (vt_batch (is_vt ist')) = inserts (vt_batch (is_vt ist))"
    "vt_fees (is_vt ist') = vt_fees (is_vt ist)"
    by (simp_all add: sel)
  show "\<exists>u :: utxo_entry. spent_value (batch_spent (vt_batch (is_vt ist'))) =
        spent_value (batch_spent (vt_batch (is_vt ist))) + unat (amount u) \<and>
      input_sum ist' = input_sum ist + amount u"
    by (rule exI [of _ u]) (simp add: sel)
  note old = inv [unfolded vt_inv_def]
  have found: "m (outpoint_key ?op) = Some u \<or>
      m (outpoint_key ?op) = None \<and> (?op, u) \<in> set (inserts ?b)"
    using c(3,4) old by metis
  show "vt_inv m C (is_vt ist')"
    unfolding vt_inv_def sel
  proof (intro conjI)
    show "\<forall>s\<in>set (batch_spent ?b @ [?s]). length (op_txid (su_outpoint s)) = 32 \<and>
        (m (outpoint_key (su_outpoint s)) = Some (su_entry s) \<or>
         m (outpoint_key (su_outpoint s)) = None \<and> (su_outpoint s, su_entry s) \<in> set (inserts ?b))"
      using old found len by simp
    show "created_value (inserts ?b) + unat (vt_fees (is_vt ist)) \<le> C + spent_value (batch_spent ?b @ [?s])"
      using old by simp
    show "distinct (map su_outpoint (batch_spent ?b @ [?s]))" using old c(1) by auto
  qed (use old c in simp_all)
qed

text \<open>The state of the input loop against the state \<open>st\<close> before the transaction.\<close>

definition inputs_inv :: "(bytes \<rightharpoonup> utxo_entry) \<Rightarrow> nat \<Rightarrow> vt_state \<Rightarrow> input_state \<Rightarrow> bool" where
  "inputs_inv m C st ist \<longleftrightarrow>
     vt_inv m C (is_vt ist) \<and> inserts (vt_batch (is_vt ist)) = inserts (vt_batch st) \<and>
     vt_fees (is_vt ist) = vt_fees st \<and>
     spent_value (batch_spent (vt_batch (is_vt ist))) =
       spent_value (batch_spent (vt_batch st)) + unat (input_sum ist)"

lemma inputs_inv_bound:
  assumes "inputs_inv m C st ist" and "vt_inv m C st"
  shows "unat (input_sum ist) + unat (vt_fees st) \<le> total_supply m + C"
proof -
  have "spent_value (batch_spent (vt_batch (is_vt ist))) \<le> total_supply m + created_value (inserts (vt_batch st))"
    using vt_spent_bound [of m C "is_vt ist"] assms(1) by (simp add: inputs_inv_def)
  moreover have "created_value (inserts (vt_batch st)) + unat (vt_fees st) \<le>
      C + spent_value (batch_spent (vt_batch st))"
    using assms(2) unfolding vt_inv_def by blast
  moreover have "spent_value (batch_spent (vt_batch (is_vt ist))) =
      spent_value (batch_spent (vt_batch st)) + unat (input_sum ist)"
    using assms(1) by (simp add: inputs_inv_def)
  ultimately show ?thesis by linarith
qed

lemma inputs_inv_step:
  assumes "inputs_inv m C st ist" and "vt_inv m C st" and "total_supply m + C < 2 ^ 64"
    and "length (op_txid (previous_output input)) = 32" and "check_input S bx ist input = Inr ist'"
  shows "inputs_inv m C st ist'"
proof -
  have "vt_inv m C (is_vt ist)" using assms(1) by (simp add: inputs_inv_def)
  note step = vt_inv_spend [OF this assms(4,5)]
  from step(4) obtain u :: utxo_entry where u:
    "spent_value (batch_spent (vt_batch (is_vt ist'))) =
       spent_value (batch_spent (vt_batch (is_vt ist))) + unat (amount u)"
    "input_sum ist' = input_sum ist + amount u" by blast
  have "created_value (inserts (vt_batch st)) + unat (vt_fees st) \<le>
      C + spent_value (batch_spent (vt_batch st))"
    using assms(2) unfolding vt_inv_def by blast
  then have "unat (input_sum ist) + unat (amount u) \<le> total_supply m + C"
    using vt_spent_bound [OF step(1)] assms(1) u(1) step(2) by (simp add: inputs_inv_def)
  then have "unat (input_sum ist') = unat (input_sum ist) + unat (amount u)"
    using assms(3) by (simp add: u(2) unat_word_ariths)
  then show ?thesis using assms(1) step u by (simp add: inputs_inv_def)
qed

lemma inputs_loop:
  assumes "foldE (check_input S bx) \<lparr>is_vt = st, input_sum = 0, tx_prevouts = [], input_heights = []\<rparr> ins
      = Inr ist"
    and "vt_inv m C st" and "total_supply m + C < 2 ^ 64"
    and "\<forall>i\<in>set ins. length (op_txid (previous_output i)) = 32"
  shows "inputs_inv m C st ist"
  using assms(1)
proof (rule foldE_invariant)
  show "inputs_inv m C st \<lparr>is_vt = st, input_sum = 0, tx_prevouts = [], input_heights = []\<rparr>"
    using assms(2) by (simp add: inputs_inv_def)
next
  fix a x a'
  assume "x \<in> set ins" "inputs_inv m C st a" "check_input S bx a x = Inr a'"
  then show "inputs_inv m C st a'"
    using assms(2-4) by (intro inputs_inv_step [of m C st a x S bx a']) auto
qed

lemma queue_checks_fields [simp]:
  "vt_batch (queue_checks bx tx wtxid ist) = vt_batch (is_vt ist)"
  "vt_fees (queue_checks bx tx wtxid ist) = vt_fees (is_vt ist)"
  "vt_spent (queue_checks bx tx wtxid ist) = vt_spent (is_vt ist)"
  "vt_intra (queue_checks bx tx wtxid ist) = vt_intra (is_vt ist)"
  "vt_utxo (queue_checks bx tx wtxid ist) = vt_utxo (is_vt ist)"
  "vt_sigops (queue_checks bx tx wtxid ist) = vt_sigops (is_vt ist)"
  by (simp_all add: queue_checks_def Let_def)

lemma vt_inv_cong:
  assumes "vt_inv m C st" and "vt_utxo st' = vt_utxo st" and "vt_batch st' = vt_batch st"
    and "vt_spent st' = vt_spent st" and "vt_intra st' = vt_intra st"
    and "vt_fees st' = vt_fees st"
  shows "vt_inv m C st'"
  using assms(1) unfolding vt_inv_def assms(2-6) .

lemma vt_inv_fees: "vt_inv m C st \<Longrightarrow> vt_inv m (C + unat f) (st\<lparr>vt_fees := f\<rparr>)"
  by (simp add: vt_inv_def)

lemma add_outputs_fields [simp]:
  "vt_utxo (add_outputs L h txid cb tx st) = vt_utxo st"
  "vt_fees (add_outputs L h txid cb tx st) = vt_fees st"
  "vt_spent (add_outputs L h txid cb tx st) = vt_spent st"
  "vt_checks (add_outputs L h txid cb tx st) = vt_checks st"
  "inserts (vt_batch (add_outputs L h txid cb tx st)) =
     inserts (vt_batch st) @ created_coins L h txid cb tx"
  "removals (vt_batch (add_outputs L h txid cb tx st)) = removals (vt_batch st)"
  "batch_spent (vt_batch (add_outputs L h txid cb tx st)) = batch_spent (vt_batch st)"
  by (simp_all add: add_outputs_def Let_def)

lemma add_outputs_intra:
  assumes "map_of (vt_intra (add_outputs L h txid cb tx st)) op = Some e"
  shows "(op, e) \<in> set (created_coins L h txid cb tx) \<or> map_of (vt_intra st) op = Some e"
proof -
  have "map_of (vt_intra (add_outputs L h txid cb tx st)) op =
      (case map_of (rev (created_coins L h txid cb tx)) op of Some v \<Rightarrow> Some v
       | None \<Rightarrow> map_of (vt_intra st) op)"
    unfolding add_outputs_def Let_def
    using hash_map.get_put_batch [where s = "vt_intra st" and j = op
        and kvs = "created_coins L h txid cb tx"] by simp
  with assms show ?thesis by (auto dest: map_of_SomeD split: option.splits)
qed

lemma vt_inv_add:
  assumes "vt_inv m C0 st"
    and "created_value (inserts (vt_batch st)) + created_value (created_coins L h txid cb tx) + unat (vt_fees st)
           \<le> C + spent_value (batch_spent (vt_batch st))"
  shows "vt_inv m C (add_outputs L h txid cb tx st)"
  unfolding vt_inv_def add_outputs_fields
proof (intro conjI)
  note old = assms(1) [unfolded vt_inv_def]
  show "\<forall>op e. map_of (vt_intra (add_outputs L h txid cb tx st)) op = Some e \<longrightarrow>
      (op, e) \<in> set (inserts (vt_batch st) @ created_coins L h txid cb tx)"
    using old add_outputs_intra [of L h txid cb tx st] by (metis Un_iff set_append)
  show "\<forall>s\<in>set (batch_spent (vt_batch st)). length (op_txid (su_outpoint s)) = 32 \<and>
      (m (outpoint_key (su_outpoint s)) = Some (su_entry s) \<or>
       m (outpoint_key (su_outpoint s)) = None \<and>
       (su_outpoint s, su_entry s) \<in> set (inserts (vt_batch st) @ created_coins L h txid cb tx))"
    using old by auto
  show "created_value (inserts (vt_batch st) @ created_coins L h txid cb tx) + unat (vt_fees st)
      \<le> C + spent_value (batch_spent (vt_batch st))"
    using assms(2) by simp
qed (use assms(1) in \<open>simp_all add: vt_inv_def\<close>)

lemma vt_check_Inr [simp]: "vt_check r st = Inr st' \<longleftrightarrow> r = Inr () \<and> st' = st"
  by (auto simp: vt_check_def split: sum.split)

lemma spending_tx_inv:
  assumes run: "check_spending_tx L S bx txid wtxid tx st = Inr st'"
    and inv: "vt_inv m C st" and room: "total_supply m + C < 2 ^ 64"
    and tx: "check_transaction L tx = Inr ()"
    and len: "\<forall>i\<in>set (tx_input tx). length (op_txid (previous_output i)) = 32"
  shows "vt_inv m C st'"
    and "inserts (vt_batch st') = inserts (vt_batch st) @ created_coins L (bx_height bx) txid False tx"
proof -
  obtain ist where ist: "foldE (check_input S bx)
      \<lparr>is_vt = st, input_sum = 0, tx_prevouts = [], input_heights = []\<rparr> (tx_input tx) = Inr ist"
    and le: "output_sum tx \<le> input_sum ist"
    and st': "st' = add_outputs L (bx_height bx) txid False tx
      ((queue_checks bx tx wtxid ist)\<lparr>vt_fees := vt_fees (is_vt ist) + (input_sum ist - output_sum tx)\<rparr>)"
    using run unfolding check_spending_tx_def Let_def
    by (auto simp: bindE_eq_Inr split: if_splits)
  have loop: "inputs_inv m C st ist" by (rule inputs_loop [OF ist inv room len])
  then have ii: "vt_inv m C (is_vt ist)" "inserts (vt_batch (is_vt ist)) = inserts (vt_batch st)"
    "vt_fees (is_vt ist) = vt_fees st"
    "spent_value (batch_spent (vt_batch (is_vt ist))) =
       spent_value (batch_spent (vt_batch st)) + unat (input_sum ist)"
    by (simp_all add: inputs_inv_def)
  let ?f = "vt_fees (is_vt ist) + (input_sum ist - output_sum tx)"
  let ?q = "(queue_checks bx tx wtxid ist)\<lparr>vt_fees := ?f\<rparr>"
  have diff: "unat (input_sum ist - output_sum tx) = unat (input_sum ist) - unat (output_sum tx)"
    using le by (simp add: unat_sub)
  have fees: "unat ?f = unat (vt_fees st) + (unat (input_sum ist) - unat (output_sum tx))"
    using inputs_inv_bound [OF loop inv] room by (simp add: ii(3) unat_word_ariths diff)
  have "vt_inv m C (queue_checks bx tx wtxid ist)" by (rule vt_inv_cong [OF ii(1)]) simp_all
  then have q: "vt_inv m (C + unat ?f) ?q" by (rule vt_inv_fees)
  have new: "created_value (created_coins L (bx_height bx) txid False tx) \<le> unat (output_sum tx)"
    using created_coins_value output_sum_exact(1) [OF tx] by simp
  have acc: "created_value (inserts (vt_batch st)) + unat (vt_fees st) \<le>
      C + spent_value (batch_spent (vt_batch st))"
    using inv unfolding vt_inv_def by blast
  have "unat (output_sum tx) \<le> unat (input_sum ist)" using le by (simp add: word_le_nat_alt)
  then show "vt_inv m C st'"
    unfolding st' using new acc fees ii(2,4) by (intro vt_inv_add [OF q]) simp
  show "inserts (vt_batch st') = inserts (vt_batch st) @ created_coins L (bx_height bx) txid False tx"
    by (simp add: st' ii(2))
qed

text \<open>A fold with an invariant that sees what has been processed.\<close>

lemma foldE_prefix:
  assumes "foldE f s xs = Inr t" and "P [] s"
    and "\<And>pre x a a'. x \<in> set xs \<Longrightarrow> P pre a \<Longrightarrow> f a x = Inr a' \<Longrightarrow> P (pre @ [x]) a'"
  shows "P xs t"
  using assms
proof (induction xs arbitrary: t rule: rev_induct)
  case (snoc x xs)
  then obtain a where a: "foldE f s xs = Inr a" "f a x = Inr t"
    by (auto simp: foldE_append bindE_eq_Inr)
  have "P xs a" using snoc.IH [OF a(1) snoc.prems(2)] snoc.prems(3) by simp
  with snoc.prems(3) [of x xs a t] a(2) show ?case by simp
qed simp

lemma check_tx_Inr:
  assumes "check_tx L S bx txids wtxids st (i, tx) = Inr st'"
  shows "check_transaction L tx = Inr ()"
    and "\<exists>sg w. (i = 0 \<longrightarrow> st' = add_outputs L (bx_height bx) (txids ! i) True tx (st\<lparr>vt_sigops := sg\<rparr>)) \<and>
      (i \<noteq> 0 \<longrightarrow> check_spending_tx L S bx (txids ! i) w tx (st\<lparr>vt_sigops := sg\<rparr>) = Inr st')"
  using assms unfolding check_tx_def Let_def
  by (auto simp: bindE_eq_Inr split: if_splits)

definition block_coins :: "bitcoin_crate \<Rightarrow> u32 \<Rightarrow> bytes list \<Rightarrow> (nat \<times> transaction) list \<Rightarrow> (out_point \<times> utxo_entry) list" where
  "block_coins L h txids itxs =
     concat (map (\<lambda>(i, tx). created_coins L h (txids ! i) (i = 0) tx) itxs)"

lemma block_coins_simps [simp]:
  "block_coins L h txids [] = []"
  "block_coins L h txids ((i, tx) # r) = created_coins L h (txids ! i) (i = 0) tx @ block_coins L h txids r"
  "block_coins L h txids (p @ r) = block_coins L h txids p @ block_coins L h txids r"
  by (simp_all add: block_coins_def)

definition inputs_ok :: "transaction \<Rightarrow> bool" where
  "inputs_ok tx \<longleftrightarrow> (\<forall>i\<in>set (tx_input tx). length (op_txid (previous_output i)) = 32)"

lemma later_txs_inv:
  assumes "foldE (check_tx L S bx txids wtxids) st itxs = Inr st'"
    and "vt_inv m C st" and "total_supply m + C < 2 ^ 64"
    and "\<forall>(i, tx)\<in>set itxs. 0 < i \<and> inputs_ok tx"
  shows "vt_inv m C st' \<and> inserts (vt_batch st') =
    inserts (vt_batch st) @ block_coins L (bx_height bx) txids itxs"
proof (rule foldE_prefix [OF assms(1), where P = "\<lambda>pre a. vt_inv m C a \<and> inserts (vt_batch a) =
    inserts (vt_batch st) @ block_coins L (bx_height bx) txids pre"])
  fix pre x a a'
  assume x: "x \<in> set itxs" and run: "check_tx L S bx txids wtxids a x = Inr a'"
    and a: "vt_inv m C a \<and> inserts (vt_batch a) =
      inserts (vt_batch st) @ block_coins L (bx_height bx) txids pre"
  obtain i tx where itx: "x = (i, tx)" by (cases x)
  note tx = check_tx_Inr [OF run [unfolded itx]]
  have i: "i \<noteq> 0" "inputs_ok tx" using assms(4) x itx by auto
  with tx(2) obtain sg w where
    sp: "check_spending_tx L S bx (txids ! i) w tx (a\<lparr>vt_sigops := sg\<rparr>) = Inr a'" by blast
  have "vt_inv m C (a\<lparr>vt_sigops := sg\<rparr>)" by (rule vt_inv_cong [OF conjunct1 [OF a]]) simp_all
  note step = spending_tx_inv [OF sp this assms(3) tx(1) i(2) [unfolded inputs_ok_def]]
  then show "vt_inv m C a' \<and> inserts (vt_batch a') =
      inserts (vt_batch st) @ block_coins L (bx_height bx) txids (pre @ [x])"
    using a i(1) by (simp add: itx)
qed (use assms(2) in simp)

lemma vt_inv_init:
  "coherent us \<Longrightarrow> finite (dom (coins us)) \<Longrightarrow> vt_inv (coins us) C (vt_init us)"
  by (simp add: vt_inv_def vt_init_def utxo_batch_new_def)

text \<open>The account of a whole block, and the limit on its coinbase.\<close>

lemma check_txs_account:
  assumes run: "check_txs L S bx blk txids wtxids us = Inr st" and blk: "txdata blk = cb # txs"
    and us: "coherent us" "finite (dom (coins us))"
    and room: "total_supply (coins us) < 2 ^ 63" and ok: "\<forall>tx\<in>set txs. inputs_ok tx"
  defines "C \<equiv> unat (output_sum cb)"
  shows "vt_inv (coins us) C st"
    and "inserts (vt_batch st) = block_coins L (bx_height bx) txids (enumerate 0 (txdata blk))"
    and "C \<le> unat (block_subsidy (bx_params bx) (bx_height bx)) + unat (vt_fees st)"
proof -
  define us1 where "us1 = prefetch us (concat (map (map previous_output \<circ> tx_input) (drop 1 (txdata blk))))"
  have us1: "coherent us1" "coins us1 = coins us" using prefetch_correct [OF us(1)] by (simp_all add: us1_def)
  from run have fold: "foldE (check_tx L S bx txids wtxids) (vt_init us1) (enumerate 0 (txdata blk)) = Inr st"
    and cbok: "coinbase_ok bx blk st = Inr ()"
    unfolding check_txs_def us1_def [symmetric] by (auto simp: bindE_eq_Inr split: if_splits sum.splits)
  have "enumerate 0 (txdata blk) = (0, cb) # enumerate 1 txs" by (simp add: blk)
  with fold obtain st1 where first: "check_tx L S bx txids wtxids (vt_init us1) (0, cb) = Inr st1"
    and rest: "foldE (check_tx L S bx txids wtxids) st1 (enumerate 1 txs) = Inr st"
    by (auto simp: bindE_eq_Inr)
  note cb = check_tx_Inr(1) [OF first]
  from check_tx_Inr(2) [OF first] obtain sg where st1: "st1 = add_outputs L (bx_height bx) (txids ! 0) True cb ((vt_init us1)\<lparr>vt_sigops := sg\<rparr>)"
    by blast
  have init: "vt_inv (coins us) 0 ((vt_init us1)\<lparr>vt_sigops := sg\<rparr>)"
  proof (rule vt_inv_cong)
    show "vt_inv (coins us) 0 (vt_init us1)" using vt_inv_init [OF us1(1), of 0] us1(2) us(2) by simp
  qed simp_all
  have inv1: "vt_inv (coins us) C st1"
    unfolding st1 using created_coins_value output_sum_exact(1) [OF cb]
    by (intro vt_inv_add [OF init]) (simp add: C_def vt_init_def utxo_batch_new_def)
  have small: "total_supply (coins us) + C < 2 ^ 64"
    using room output_sum_exact(2) [OF cb] by (simp add: C_def)
  have "\<forall>(i, tx)\<in>set (enumerate 1 txs). 0 < i \<and> inputs_ok tx"
    using ok by (auto simp: in_set_enumerate_eq)
  note later = later_txs_inv [OF rest inv1 small this]
  then show "vt_inv (coins us) C st" by simp
  show "inserts (vt_batch st) = block_coins L (bx_height bx) txids (enumerate 0 (txdata blk))"
    using later by (simp add: blk st1 vt_init_def utxo_batch_new_def)
  have "output_sum cb \<le> block_subsidy (bx_params bx) (bx_height bx) + vt_fees st"
    using cbok by (simp add: coinbase_ok_def blk Let_def split: if_splits)
  then show "C \<le> unat (block_subsidy (bx_params bx) (bx_height bx)) + unat (vt_fees st)"
    unfolding C_def word_le_nat_alt unat_word_ariths by (rule order_trans) (rule mod_less_eq_dividend)
qed

text \<open>Spending and creating within the account: the coins after the batch are worth at most the coins
  before it plus the subsidy.\<close>

lemma put_coins_source:
  "put_coins ins m k = Some e \<Longrightarrow> m k = Some e \<or> (\<exists>op. outpoint_key op = k \<and> (op, e) \<in> set ins)"
proof (induction ins arbitrary: m)
  case (Cons i ins)
  obtain op e' where i: "i = (op, e')" by (cases i)
  have "(m(outpoint_key op \<mapsto> e')) k = Some e \<or> (\<exists>op. outpoint_key op = k \<and> (op, e) \<in> set ins)"
    using Cons.prems by (intro Cons.IH) (simp add: i del: fun_upd_apply)
  then show ?case by (auto simp: i split: if_splits)
qed simp

lemma dom_put_coins: "dom (put_coins ins m) \<subseteq> dom m \<union> (outpoint_key \<circ> fst) ` set ins"
proof
  fix k assume "k \<in> dom (put_coins ins m)"
  then obtain e where "put_coins ins m k = Some e" by blast
  from put_coins_source [OF this] show "k \<in> dom m \<union> (outpoint_key \<circ> fst) ` set ins"
    by (force simp: image_iff)
qed

lemma supply_after_batch:
  assumes inv: "vt_inv m C st"
  shows "total_supply (abs_batch (vt_batch st) m) + spent_value (batch_spent (vt_batch st))
    \<le> total_supply m + created_value (inserts (vt_batch st))"
proof -
  let ?b = "vt_batch st" and ?key = "\<lambda>s. outpoint_key (su_outpoint s)"
  let ?m' = "abs_batch ?b m" and ?R = "(\<lambda>s. outpoint_key (su_outpoint s)) ` set (batch_spent (vt_batch st))"
  have "distinct (map ?key (batch_spent ?b))"
    using inv by (intro distinct_spent_keys) (auto simp: vt_inv_def)
  then obtain f where f: "spent_value (batch_spent ?b) = (\<Sum>k\<in>?R. unat (amount (f k)))"
    "\<And>s. s \<in> set (batch_spent ?b) \<Longrightarrow> f (?key s) = su_entry s"
    by (rule spent_value_keys) blast
  have fin: "finite (dom m)" using inv by (simp add: vt_inv_def)
  have keys: "outpoint_key ` set (removals ?b) = ?R"
    using inv by (simp add: vt_inv_def image_image)
  have gone: "?m' k = (if k \<in> ?R then None else put_coins (inserts ?b) m k)" for k
    by (simp add: abs_batch_def del_coins_lookup keys)
  have disj: "dom ?m' \<inter> ?R = {}" using gone by auto
  have "dom ?m' \<subseteq> dom (put_coins (inserts ?b) m)" using gone by (auto split: if_splits)
  then have fin': "finite (dom ?m')"
    using dom_put_coins fin by (meson finite_UnI finite_imageI finite_set finite_subset)
  define g where "g = (\<lambda>k. if k \<in> ?R then f k else the (?m' k))"
  have "total_supply ?m' + spent_value (batch_spent ?b) = (\<Sum>k\<in>dom ?m' \<union> ?R. unat (amount (g k)))"
  proof -
    have "total_supply ?m' = (\<Sum>k\<in>dom ?m'. unat (amount (g k)))"
      unfolding total_supply_def using disj by (intro sum.cong) (auto simp: g_def)
    moreover have "(\<Sum>k\<in>?R. unat (amount (f k))) = (\<Sum>k\<in>?R. unat (amount (g k)))"
      by (intro sum.cong) (auto simp: g_def)
    ultimately show ?thesis
      using sum.union_disjoint [OF fin' _ disj, of "\<lambda>k. unat (amount (g k))"] f(1) by simp
  qed
  also have "\<dots> \<le> total_supply m + created_value (inserts ?b)"
  proof (rule accounted_bound)
    fix k assume "k \<in> dom ?m' \<union> ?R"
    then consider s where "s \<in> set (batch_spent ?b)" "k = ?key s" | "k \<notin> ?R" "k \<in> dom ?m'" by blast
    then show "m k = Some (g k) \<or> (\<exists>op. outpoint_key op = k \<and> (op, g k) \<in> set (inserts ?b))"
    proof cases
      case 1
      then have "g k = su_entry s" using f(2) by (simp add: g_def)
      then show ?thesis using 1 inv unfolding vt_inv_def by metis
    next
      case 2
      then obtain e where e: "?m' k = Some e" by blast
      then have "put_coins (inserts ?b) m k = Some (g k)" using gone [of k] 2(1) by (simp add: g_def)
      then show ?thesis by (rule put_coins_source)
    qed
  qed (use fin fin' in simp_all)
  finally show ?thesis .
qed

section \<open>New coins\<close>

text \<open>The coins of a block are new: its transaction ids are different from each other and no unspent
  coin has one of them. That is what BIP 30 and BIP 34 ensure, up to collisions of the hash. Sizes
  are those a block can have.\<close>

definition block_fresh :: "bitcoin_crate \<Rightarrow> u32 \<Rightarrow> block \<Rightarrow> (bytes \<rightharpoonup> utxo_entry) \<Rightarrow> bool" where
  "block_fresh L height blk m \<longleftrightarrow>
     height < 2 ^ 31 \<and> distinct (map (compute_txid L) (txdata blk)) \<and>
     (\<forall>tx\<in>set (txdata blk). length (compute_txid L tx) = 32 \<and> length (tx_output tx) < 2 ^ 32 \<and>
        (\<forall>out\<in>set (tx_output tx). length (script_pubkey out) + 17 < 2 ^ 32) \<and>
        (\<forall>vout. m (outpoint_key (outpoint_at (compute_txid L tx) vout)) = None))"

lemma created_coins_mem:
  assumes "(op, e) \<in> set (created_coins L h txid cb tx)"
  shows "\<exists>vout<length (tx_output tx). op = outpoint_at txid vout \<and> ue_height e = h \<and>
    ue_script e = script_pubkey (tx_output tx ! vout)"
  using assms by (auto simp: created_coins_def in_set_enumerate_eq)

lemma outpoint_at_inject:
  assumes "i < 2 ^ 32" and "j < 2 ^ 32"
  shows "outpoint_at txid i = outpoint_at txid j \<longleftrightarrow> i = j"
  using assms by (auto simp: outpoint_at_def of_nat_inverse dest: arg_cong [of _ _ unat])

lemma distinct_created:
  assumes "length (tx_output tx) < 2 ^ 32"
  shows "distinct (map fst (created_coins L h txid cb tx))"
proof -
  let ?xs = "filter (\<lambda>(vout, out). \<not> is_op_return L (script_pubkey out)) (enumerate 0 (tx_output tx))"
  have eq: "map fst (created_coins L h txid cb tx) = map (outpoint_at txid) (map fst ?xs)"
    by (simp add: created_coins_def case_prod_beta comp_def)
  have "distinct (map fst ?xs)"
    by (rule distinct_map_filter) simp
  moreover have "inj_on (outpoint_at txid) (set (map fst ?xs))"
    using assms by (intro inj_onI) (auto simp: in_set_enumerate_eq outpoint_at_inject)
  ultimately show ?thesis unfolding eq distinct_map [of "outpoint_at txid"] by blast
qed

lemma created_txid: "op \<in> fst ` set (created_coins L h txid cb tx) \<Longrightarrow> op_txid op = txid"
  by (auto dest!: created_coins_mem simp: outpoint_at_def)

lemma distinct_block_coins:
  assumes "\<forall>(i, tx)\<in>set itxs. length (tx_output tx) < 2 ^ 32"
    and "distinct (map (\<lambda>(i, tx). txids ! i) itxs)"
  shows "distinct (map fst (block_coins L h txids itxs))"
  using assms
proof (induction itxs)
  case (Cons x itxs)
  obtain i tx where x: "x = (i, tx)" by (cases x)
  have later: "op_txid op \<in> (\<lambda>(i, tx). txids ! i) ` set itxs"
    if op: "op \<in> fst ` set (block_coins L h txids itxs)" for op
  proof -
    obtain j t where jt: "(j, t) \<in> set itxs" "op \<in> fst ` set (created_coins L h (txids ! j) (j = 0) t)"
      using op unfolding block_coins_def by auto
    show ?thesis using created_txid [OF jt(2)] jt(1) by (intro image_eqI [of _ _ "(j, t)"]) simp_all
  qed
  have "fst ` set (created_coins L h (txids ! i) (i = 0) tx) \<inter> fst ` set (block_coins L h txids itxs) = {}"
  proof (rule ccontr)
    assume "\<not> ?thesis"
    then obtain op where op: "op \<in> fst ` set (created_coins L h (txids ! i) (i = 0) tx)"
      "op \<in> fst ` set (block_coins L h txids itxs)" by blast
    have "txids ! i \<in> (\<lambda>(i, tx). txids ! i) ` set itxs" using later [OF op(2)] created_txid [OF op(1)] by simp
    with Cons.prems(2) show False by (simp add: x)
  qed
  moreover have "distinct (map fst (block_coins L h txids itxs))"
    using Cons by (simp add: x)
  moreover have "distinct (map fst (created_coins L h (txids ! i) (i = 0) tx))"
    using Cons.prems(1) by (intro distinct_created) (simp add: x)
  ultimately show ?case unfolding x block_coins_simps map_append distinct_append set_map by blast
qed simp

lemma fresh_insertsI:
  assumes "\<forall>i\<in>set ins. m (outpoint_key (fst i)) = None \<and> coin_ok (snd i)"
    and "distinct (map (outpoint_key \<circ> fst) ins)"
  shows "fresh_inserts ins m"
  using assms
proof (induction ins arbitrary: m)
  case (Cons i ins)
  obtain op e where i: "i = (op, e)" by (cases i)
  have "fresh_inserts ins (m(outpoint_key op \<mapsto> e))"
    using Cons.prems by (intro Cons.IH) (force simp: i)+
  with Cons.prems show ?case by (simp add: i)
qed simp

abbreviation coins_of_block :: "bitcoin_crate \<Rightarrow> u32 \<Rightarrow> block \<Rightarrow> (out_point \<times> utxo_entry) list" where
  "coins_of_block L height blk \<equiv>
     block_coins L height (map (compute_txid L) (txdata blk)) (enumerate 0 (txdata blk))"

lemma coins_of_block_mem:
  assumes "(op, e) \<in> set (coins_of_block L height blk)"
  shows "\<exists>tx\<in>set (txdata blk). \<exists>vout<length (tx_output tx). op = outpoint_at (compute_txid L tx) vout \<and>
    ue_height e = height \<and> ue_script e = script_pubkey (tx_output tx ! vout)"
proof -
  obtain i where i: "i < length (txdata blk)"
    "(op, e) \<in> set (created_coins L height (map (compute_txid L) (txdata blk) ! i) (i = 0) (txdata blk ! i))"
    using assms by (auto simp: block_coins_def in_set_enumerate_eq)
  from created_coins_mem [OF i(2)] i(1) show ?thesis by (auto intro!: bexI [of _ "txdata blk ! i"])
qed

lemma coins_of_block_fresh:
  assumes fr: "block_fresh L height blk m"
  shows "distinct (map (outpoint_key \<circ> fst) (coins_of_block L height blk))"
    and "\<forall>i\<in>set (coins_of_block L height blk). m (outpoint_key (fst i)) = None \<and> coin_ok (snd i) \<and>
      length (op_txid (fst i)) = 32 \<and> length (ue_script (snd i)) + 17 < 2 ^ 32"
    and "fresh_inserts (coins_of_block L height blk) m"
proof -
  show each: "\<forall>i\<in>set (coins_of_block L height blk). m (outpoint_key (fst i)) = None \<and> coin_ok (snd i) \<and>
      length (op_txid (fst i)) = 32 \<and> length (ue_script (snd i)) + 17 < 2 ^ 32"
  proof
    fix i assume "i \<in> set (coins_of_block L height blk)"
    then obtain tx vout where tx: "tx \<in> set (txdata blk)" "vout < length (tx_output tx)"
      "fst i = outpoint_at (compute_txid L tx) vout" "ue_height (snd i) = height"
      "ue_script (snd i) = script_pubkey (tx_output tx ! vout)"
      using coins_of_block_mem [of "fst i" "snd i" L height blk] by auto
    then have len: "length (script_pubkey (tx_output tx ! vout)) + 17 < 2 ^ 32"
      using fr by (simp add: block_fresh_def)
    then have "length (ue_script (snd i)) < 2 ^ 32" using tx(5) by simp
    moreover have "ue_height (snd i) < 2 ^ 31" using fr tx(4) unfolding block_fresh_def by blast
    ultimately have "coin_ok (snd i)" unfolding coin_ok_def by blast
    moreover have "length (compute_txid L tx) = 32"
      "\<And>v. m (outpoint_key (outpoint_at (compute_txid L tx) v)) = None"
      using fr tx(1) unfolding block_fresh_def by blast+
    moreover have "op_txid (fst i) = compute_txid L tx" by (simp add: tx(3) outpoint_at_def)
    ultimately show "m (outpoint_key (fst i)) = None \<and> coin_ok (snd i) \<and>
        length (op_txid (fst i)) = 32 \<and> length (ue_script (snd i)) + 17 < 2 ^ 32"
      using len by (simp add: tx(3,5))
  qed
  have "map (\<lambda>(i, tx). map (compute_txid L) (txdata blk) ! i) (enumerate 0 (txdata blk)) =
      map (compute_txid L) (txdata blk)"
    by (rule nth_equalityI) (simp_all add: nth_enumerate_eq)
  then have dist: "distinct (map fst (coins_of_block L height blk))"
    using fr by (intro distinct_block_coins) (auto simp: block_fresh_def in_set_enumerate_eq)
  let ?ops = "map fst (coins_of_block L height blk)"
  have len: "\<forall>op\<in>set ?ops. length (op_txid op) = 32" using each by auto
  have inj: "inj_on outpoint_key (set ?ops)"
  proof (rule inj_onI)
    fix a b assume "a \<in> set ?ops" "b \<in> set ?ops" "outpoint_key a = outpoint_key b"
    with len outpoint_key_inject [of a b] show "a = b" by blast
  qed
  have "distinct (map outpoint_key ?ops)" using dist inj distinct_map by blast
  then show keys: "distinct (map (outpoint_key \<circ> fst) (coins_of_block L height blk))" by simp
  show "fresh_inserts (coins_of_block L height blk) m"
    by (rule fresh_insertsI) (use each keys in blast)+
qed

section \<open>Connecting\<close>

lemma core_run_Inr [simp]: "core_run r = Inr x \<longleftrightarrow> r = Inr x"
  by (cases r) (auto simp: core_run_def)

lemma or_panic_Inr [simp]: "or_panic r = Inr x \<longleftrightarrow> r = Some x"
  by (cases r) (auto simp: or_panic_def)

lemma check_block_Inr:
  assumes "check_block L E cs blk height = Inr (txids, wtxids, vs, mtp)"
  shows "txids = map (compute_txid L) (txdata blk)" and "txdata blk \<noteq> []"
    and "verify_merkle_root_with_txids L blk txids = Some (Inr ())"
    and "block_time_ok L cs blk height = Inr mtp" and "block_bits_ok L cs blk height = Inr ()"
proof -
  have coinbase: "txdata blk \<noteq> []" if "validate_coinbase L blk height (cs_params cs) = Inr ()"
    using that by (auto simp: validate_coinbase_def)
  show "txids = map (compute_txid L) (txdata blk)" "txdata blk \<noteq> []"
    "verify_merkle_root_with_txids L blk txids = Some (Inr ())"
    "block_time_ok L cs blk height = Inr mtp" "block_bits_ok L cs blk height = Inr ()"
    using assms coinbase unfolding check_block_def Let_def
    by (auto simp: bindE_eq_Inr)
qed

text \<open>What \<^verbatim>\<open>bip110_activation\<close> leaves of the chain state.\<close>

definition same_but_caches :: "chain_state \<Rightarrow> chain_state \<Rightarrow> bool" where
  "same_but_caches cs cs' \<longleftrightarrow>
     cs_params cs' = cs_params cs \<and> cs_headers cs' = cs_headers cs \<and> cs_blocks cs' = cs_blocks cs \<and>
     cs_tx_index cs' = cs_tx_index cs \<and> cs_best_height cs' = cs_best_height cs \<and>
     cs_best_hash cs' = cs_best_hash cs"

lemma same_but_caches_refl [simp]: "same_but_caches cs cs"
  by (simp add: same_but_caches_def)

lemma activation_same:
  assumes "cs_bip110_activation L cs prev height = Some (act, cs1)"
  shows "same_but_caches cs cs1" and "cs_utxo cs1 = cs_utxo cs" and "cs_sig_cache cs1 = cs_sig_cache cs"
  using assms by (auto simp: cs_bip110_activation_def same_but_caches_def)

lemma validate_transactions_Inr:
  assumes "validate_transactions L S E bx blk txids wtxids cs = (Inr b, cs')"
  obtains st where "check_txs L S bx blk txids wtxids (cs_utxo cs) = Inr st" "b = vt_batch st"
    "cs_utxo cs' = vt_utxo st" "same_but_caches cs cs'"
    "foldE (\<lambda>c chk. run_check (env_cache_iter E) S (bx_flags bx) chk c) (cs_sig_cache cs)
       (env_schedule E (vt_checks st)) = Inr (cs_sig_cache cs')"
  using assms that unfolding validate_transactions_def Let_def
  by (auto simp: same_but_caches_def split: sum.splits)

lemma connect_Inr:
  assumes "connect_block_with_raw L S E blk height raw cs = (Inr txids, cs')"
  obtains wtxids vs mtp bx st cs2 where
    "check_block L E cs blk height = Inr (txids, wtxids, vs, mtp)"
    "bx_params bx = cs_params cs" "bx_height bx = height"
    "check_txs L S bx blk txids wtxids (cs_utxo cs) = Inr st"
    "same_but_caches cs cs2" "cs_utxo cs2 = vt_utxo st"
    "commit_block L E blk height raw txids (vt_batch st) cs2 = (Inr txids, cs')"
proof -
  obtain txids0 wtxids vs mtp where cb: "check_block L E cs blk height = Inr (txids0, wtxids, vs, mtp)"
    using assms unfolding connect_block_with_raw_def Let_def by (auto split: sum.splits)
  obtain act cs1 where act: "cs_bip110_activation L cs (prev_blockhash (blk_header blk)) height = Some (act, cs1)"
    using assms unfolding connect_block_with_raw_def Let_def cb by (auto split: option.splits)
  let ?bx = "\<lparr>bx_params = cs_params cs, bx_headers = cs_headers cs1, bx_height = height,
      bx_time = hdr_time (blk_header blk), bx_mtp = mtp,
      bx_flags = flags_for_height height (hdr_time (blk_header blk)) (bip16_time (cs_params cs))
        (segwit_height (cs_params cs)) (bip65_height (cs_params cs)) (csv_height (cs_params cs))
        (bip66_height (cs_params cs)) (taproot_height (cs_params cs)),
      bx_verify = vs, bx_bip110 = act\<rparr>"
  obtain b cs2 where vt: "validate_transactions L S E ?bx blk txids0 wtxids cs1 = (Inr b, cs2)"
    and commit: "commit_block L E blk height raw txids0 b cs2 = (Inr txids, cs')"
    using assms unfolding connect_block_with_raw_def Let_def cb act
    by (auto split: if_splits prod.splits sum.splits)
  have t: "txids0 = txids"
    using commit unfolding commit_block_def Let_def by (auto split: prod.splits sum.splits)
  from validate_transactions_Inr [OF vt] obtain st where st:
    "check_txs L S ?bx blk txids0 wtxids (cs_utxo cs1) = Inr st" "b = vt_batch st"
    "cs_utxo cs2 = vt_utxo st" "same_but_caches cs1 cs2" by metis
  note a = activation_same [OF act]
  show thesis
  proof (rule that)
    show "check_block L E cs blk height = Inr (txids, wtxids, vs, mtp)" using cb t by simp
    show "check_txs L S ?bx blk txids wtxids (cs_utxo cs) = Inr st" using st(1) t a(2) by simp
    show "same_but_caches cs cs2" using a(1) st(4) unfolding same_but_caches_def by simp
    show "commit_block L E blk height raw txids (vt_batch st) cs2 = (Inr txids, cs')"
      using commit st(2) t by simp
  qed (simp_all add: st(3))
qed

text \<open>The coins after the writes of a successful connection.\<close>

abbreviation with_undo :: "bitcoin_crate \<Rightarrow> block \<Rightarrow> u32 \<Rightarrow> utxo_batch \<Rightarrow> utxo_set \<Rightarrow> utxo_set" where
  "with_undo L blk height b us \<equiv>
     set_pending_flush_height height (block_hash L (blk_header blk))
       (store_undo (block_hash L (blk_header blk)) (batch_spent b) (map fst (inserts b))
          (prev_blockhash (blk_header blk)) us)"

lemma commit_Inr:
  assumes "commit_block L E blk height raw txids b cs = (Inr ids, cs')"
  shows "cs_utxo cs' = snd (apply_batch (env_iter E) (with_undo L blk height b (cs_utxo cs)) b)"
    and "cs_best_height cs' = height" and "cs_best_hash cs' = block_hash L (blk_header blk)"
    and "cs_params cs' = cs_params cs" and "ids = txids"
    and "cs_tx_index cs' = map_option (index_block_at_height (block_hash L (blk_header blk)) txids height
      (Some (compute_tx_locations (env_varint_size E) (env_total_size E) blk))) (cs_tx_index cs)"
  using assms unfolding commit_block_def Let_def
  by (auto split: prod.splits sum.splits)

lemma with_undo_coins:
  assumes "coherent us"
  shows "coherent (with_undo L blk height b us)" and "coins (with_undo L blk height b us) = coins us"
proof -
  have "coherent (with_undo L blk height b us) \<and> coins (with_undo L blk height b us) = coins us"
    by (rule coherent_cong [OF assms])
      (simp_all add: set_pending_flush_height_def store_undo_def Let_def)
  then show "coherent (with_undo L blk height b us)" "coins (with_undo L blk height b us) = coins us"
    by simp_all
qed

text \<open>The coins and the account of a connected block.\<close>

lemma connected_coins:
  assumes run: "connect_block_with_raw L S E blk height raw cs = (Inr txids, cs')"
    and us: "coherent (cs_utxo cs)" "finite (dom (coins (cs_utxo cs)))" "iteration_ok (env_iter E)"
    and room: "total_supply (coins (cs_utxo cs)) < 2 ^ 63"
    and fresh: "block_fresh L height blk (coins (cs_utxo cs))"
    and ok: "\<forall>tx\<in>set (txdata blk). inputs_ok tx"
  obtains st bx wtxids where "check_txs L S bx blk txids wtxids (cs_utxo cs) = Inr st"
    "vt_inv (coins (cs_utxo cs)) (unat (output_sum (hd (txdata blk)))) st"
    "inserts (vt_batch st) = coins_of_block L height blk"
    "unat (output_sum (hd (txdata blk))) \<le> unat (block_subsidy (cs_params cs) height) + unat (vt_fees st)"
    "cs_utxo cs' = snd (apply_batch (env_iter E) (with_undo L blk height (vt_batch st) (vt_utxo st)) (vt_batch st))"
    "coins (cs_utxo cs') = abs_batch (vt_batch st) (coins (cs_utxo cs))" "coherent (cs_utxo cs')"
proof -
  from connect_Inr [OF run] obtain wtxids vs mtp bx st cs2 where c:
    "check_block L E cs blk height = Inr (txids, wtxids, vs, mtp)"
    "bx_params bx = cs_params cs" "bx_height bx = height"
    "check_txs L S bx blk txids wtxids (cs_utxo cs) = Inr st" "cs_utxo cs2 = vt_utxo st"
    "commit_block L E blk height raw txids (vt_batch st) cs2 = (Inr txids, cs')" by metis
  note cb = check_block_Inr [OF c(1)]
  obtain tx0 txs where blk: "txdata blk = tx0 # txs" using cb(2) by (cases "txdata blk") auto
  have "\<forall>tx\<in>set txs. inputs_ok tx" using ok blk by simp
  note acc = check_txs_account [OF c(4) blk us(1,2) room this, unfolded c(2,3)]
  have ins: "inserts (vt_batch st) = coins_of_block L height blk" using acc(2) cb(1) by simp
  have utxo: "coherent (vt_utxo st)" "coins (vt_utxo st) = coins (cs_utxo cs)"
    using acc(1) unfolding vt_inv_def by blast+
  note wu = with_undo_coins [OF utxo(1), where L = L and blk = blk and height = height and b = "vt_batch st"]
  have "fresh_inserts (inserts (vt_batch st)) (coins (cs_utxo cs))"
    unfolding ins by (rule coins_of_block_fresh(3) [OF fresh])
  then have "fresh_inserts (inserts (vt_batch st)) (coins (with_undo L blk height (vt_batch st) (vt_utxo st)))"
    unfolding wu(2) utxo(2) .
  note ab = apply_batch_correct [OF us(3) wu(1) this]
  show thesis
  proof (rule that [OF c(4)])
    show "vt_inv (coins (cs_utxo cs)) (unat (output_sum (hd (txdata blk)))) st" using acc(1) by (simp add: blk)
    show "unat (output_sum (hd (txdata blk))) \<le> unat (block_subsidy (cs_params cs) height) + unat (vt_fees st)"
      using acc(3) by (simp add: blk)
    show utxo': "cs_utxo cs' =
        snd (apply_batch (env_iter E) (with_undo L blk height (vt_batch st) (vt_utxo st)) (vt_batch st))"
      using commit_Inr(1) [OF c(6)] c(5) by simp
    show "coins (cs_utxo cs') = abs_batch (vt_batch st) (coins (cs_utxo cs))" "coherent (cs_utxo cs')"
      using ab unfolding utxo' wu(2) utxo(2) by simp_all
  qed (rule ins)
qed

lemma finite_dom_batch:
  assumes "finite (dom m)"
  shows "finite (dom (abs_batch b m))"
proof (rule finite_subset)
  show "dom (abs_batch b m) \<subseteq> dom m \<union> (outpoint_key \<circ> fst) ` set (inserts b)"
    by (rule order_trans [OF _ dom_put_coins])
      (auto simp: abs_batch_def del_coins_lookup split: if_splits)
qed (use assms in simp)

lemma total_subsidy_Suc:
  "total_subsidy p (Suc (unat height)) = total_subsidy p (unat height) + unat (block_subsidy p height)"
  by (simp add: total_subsidy_def)


end
