(* ===== verification/Chain_Reorg.thy ===== *)
theory Chain_Reorg
  imports Chain_Facts
begin

text \<open>
  Rejection and reorganisation. A block that fails validation changes nothing but caches. A block
  that was connected can be disconnected again, and that gives back the coins and the tip as they
  were, whether or not the write buffer went to disk in between.
\<close>

section \<open>Validation only reads\<close>

text \<open>Lookups may fill the read cache; buffer and disk stay as they are.\<close>

definition reads :: "utxo_set \<Rightarrow> utxo_set \<Rightarrow> bool" where
  "reads us us' \<longleftrightarrow> us_buffer us' = us_buffer us \<and> us_db us' = us_db us"

lemma reads_refl [simp]: "reads us us"
  by (simp add: reads_def)

lemma reads_trans: "reads us us1 \<Longrightarrow> reads us1 us2 \<Longrightarrow> reads us us2"
  by (simp add: reads_def)

lemma reads_coins: "reads us us' \<Longrightarrow> coins us' = coins us"
  by (rule ext) (simp add: reads_def coins_def split: option.split)

lemma reads_get: "utxo_get us op = (r, us') \<Longrightarrow> reads us us'"
  by (auto simp: utxo_get_def reads_def Let_def split: option.splits sum.splits)

lemma reads_prefetch: "reads us (prefetch us ops)"
  by (simp add: prefetch_def reads_def Let_def)

text \<open>A result whose state, failed or not, differs from \<open>us\<close> by reads only.\<close>

definition only_reads :: "utxo_set \<Rightarrow> ('a \<Rightarrow> utxo_set) \<Rightarrow> 'a vt_result \<Rightarrow> bool" where
  "only_reads us proj r \<longleftrightarrow> (case r of Inl (e, us') \<Rightarrow> reads us us' | Inr x \<Rightarrow> reads us (proj x))"

lemma only_reads_bind:
  assumes "only_reads us proj r" and "\<And>x. r = Inr x \<Longrightarrow> reads us (proj x) \<Longrightarrow> only_reads us proj' (f x)"
  shows "only_reads us proj' (bindE r f)"
  using assms by (cases r) (auto simp: only_reads_def)

lemma only_reads_fold:
  assumes "\<And>a x. reads us (proj a) \<Longrightarrow> only_reads us proj (f a x)" and "reads us (proj s)"
  shows "only_reads us proj (foldE f s xs)"
  using assms(2)
proof (induction xs arbitrary: s)
  case Nil
  then show ?case by (simp add: only_reads_def)
next
  case (Cons x xs)
  from assms(1) [OF Cons.prems] have "only_reads us proj (f s x)" .
  then show ?case unfolding foldE.simps by (rule only_reads_bind) (rule Cons.IH)
qed

lemma only_reads_check: "reads us (vt_utxo st) \<Longrightarrow> only_reads us vt_utxo (vt_check r st)"
  by (simp add: only_reads_def vt_check_def split: sum.split)

lemma only_reads_input:
  assumes "reads us (vt_utxo (is_vt ist))"
  shows "only_reads us (\<lambda>ist. vt_utxo (is_vt ist)) (check_input S bx ist input)"
proof -
  obtain r us1 where get: "utxo_get (vt_utxo (is_vt ist)) (previous_output input) = (r, us1)"
    by fastforce
  from reads_trans [OF assms reads_get [OF get]] have "reads us us1" .
  moreover have "vt_utxo (is_vt (spend_coin S bx input u (ist\<lparr>is_vt := (is_vt ist)\<lparr>vt_utxo := us1\<rparr>\<rparr>))) = us1" for u
    by (simp add: spend_coin_def Let_def)
  ultimately show ?thesis
    using assms by (simp add: check_input_def Let_def only_reads_def get split: sum.split option.split)
qed

lemma only_reads_spending:
  assumes "reads us (vt_utxo st)"
  shows "only_reads us vt_utxo (check_spending_tx L S bx txid wtxid tx st)"
proof -
  have "only_reads us (\<lambda>ist. vt_utxo (is_vt ist)) (foldE (check_input S bx)
      \<lparr>is_vt = st, input_sum = 0, tx_prevouts = [], input_heights = []\<rparr> (tx_input tx))"
    using assms by (intro only_reads_fold only_reads_input) simp_all
  then have "only_reads us vt_utxo (bindE (foldE (check_input S bx)
        \<lparr>is_vt = st, input_sum = 0, tx_prevouts = [], input_heights = []\<rparr> (tx_input tx)) (\<lambda>ins.
      bindE (vt_check (check_sequence L bx tx (input_heights ins)) (queue_checks bx tx wtxid ins)) (\<lambda>st'.
        if input_sum ins < output_sum tx
        then Inl (InvalidTransaction ''outputs exceed inputs'', vt_utxo st')
        else Inr (add_outputs L (bx_height bx) txid False tx
                    (st'\<lparr>vt_fees := vt_fees st' + (input_sum ins - output_sum tx)\<rparr>)))))"
  proof (rule only_reads_bind)
    fix ins :: input_state
    assume "reads us (vt_utxo (is_vt ins))"
    then show "only_reads us vt_utxo
        (bindE (vt_check (check_sequence L bx tx (input_heights ins)) (queue_checks bx tx wtxid ins)) (\<lambda>st'.
          if input_sum ins < output_sum tx
          then Inl (InvalidTransaction ''outputs exceed inputs'', vt_utxo st')
          else Inr (add_outputs L (bx_height bx) txid False tx
                      (st'\<lparr>vt_fees := vt_fees st' + (input_sum ins - output_sum tx)\<rparr>))))"
      by (intro only_reads_bind [OF only_reads_check]) (auto simp: only_reads_def)
  qed
  with assms show ?thesis unfolding check_spending_tx_def Let_def by (simp add: only_reads_def)
qed

lemma only_reads_tx:
  assumes "reads us (vt_utxo st)"
  shows "only_reads us vt_utxo (check_tx L S bx txids wtxids st itx)"
proof -
  obtain i tx where itx: "itx = (i, tx)" by (cases itx)
  show ?thesis
    unfolding check_tx_def itx split Let_def
  proof (intro only_reads_bind [OF only_reads_check] assms)
    fix st1 st2 :: vt_state
    assume "reads us (vt_utxo st2)"
    then show "only_reads us vt_utxo
        (if \<not> bip30_ok bx (vt_utxo st2) (txids ! i) tx
         then Inl (InvalidTransaction ''BIP 30: duplicate txid has unspent outputs'', vt_utxo st2)
         else if i = 0
         then Inr (add_outputs L (bx_height bx) (txids ! i) True tx
                (st2\<lparr>vt_sigops := vt_sigops st2 + ucast (legacy_sigops S tx) * WITNESS_SCALE_FACTOR\<rparr>))
         else check_spending_tx L S bx (txids ! i)
                (case wtxids of None \<Rightarrow> compute_wtxid L tx | Some w \<Rightarrow> w ! i) tx
                (st2\<lparr>vt_sigops := vt_sigops st2 + ucast (legacy_sigops S tx) * WITNESS_SCALE_FACTOR\<rparr>))"
      by (simp add: only_reads_spending) (simp add: only_reads_def)
  qed
qed

lemma reads_fee_samples:
  assumes "reads us us'"
  shows "reads us (fee_samples blk us')"
proof -
  have "reads us (fold (\<lambda>input us. snd (utxo_get us (previous_output input))) ins us')" for ins :: "tx_in list"
    using assms
  proof (induction ins arbitrary: us')
    case (Cons i ins)
    have "reads us' (snd (utxo_get us' (previous_output i)))" by (rule reads_get [OF prod.collapse [symmetric]])
    then show ?case using Cons.IH [OF reads_trans [OF Cons.prems]] by simp
  qed simp
  then show ?thesis by (simp add: fee_samples_def)
qed

lemma only_reads_txs: "only_reads us vt_utxo (check_txs L S bx blk txids wtxids us)"
proof -
  have init: "reads us (vt_utxo (vt_init (prefetch us ops)))" for ops
    using reads_prefetch by (simp add: vt_init_def)
  show ?thesis
    unfolding check_txs_def
    by (rule only_reads_bind [OF only_reads_fold [OF only_reads_tx init]])
      (auto simp: only_reads_def reads_fee_samples split: sum.split)
qed

section \<open>Rejected blocks\<close>

lemma validate_transactions_keeps:
  assumes "validate_transactions L S E bx blk txids wtxids cs = (r, cs')"
  shows "same_but_caches cs cs'" and "reads (cs_utxo cs) (cs_utxo cs')"
  using assms only_reads_txs [of "cs_utxo cs" L S bx blk txids wtxids]
  unfolding validate_transactions_def Let_def
  by (auto simp: same_but_caches_def only_reads_def split: sum.splits)

lemma ensure_header_ok:
  assumes "\<forall>h. is_ok (get_header L hi h)"
  shows "\<exists>hi'. ensure_header L blk height (set_height_hash n x (set_block_pos y pos hi)) = Inr hi'"
proof -
  let ?hi = "set_height_hash n x (set_block_pos y pos hi)"
  have "is_ok (get_header L ?hi h)" for h
    using assms by (simp add: get_header_def set_height_hash_def set_block_pos_def)
  then obtain own par where "get_header L ?hi (block_hash L (blk_header blk)) = Inr own"
    "get_header L ?hi (prev_blockhash (blk_header blk)) = Inr par"
    by (metis is_ok_simps(2) obj_sumE)
  then show ?thesis by (simp add: ensure_header_def Let_def storage_run_def split: option.split)
qed

lemma commit_ok:
  assumes "\<forall>h. is_ok (get_header L (cs_headers cs) h)"
  shows "\<exists>cs'. commit_block L E blk height raw txids b cs = (Inr txids, cs')"
proof -
  obtain pos bs where "store_block_async (env_ack E) (cs_blocks cs)
      (case raw of Some bytes \<Rightarrow> bytes | None \<Rightarrow> env_encode E blk) = (pos, bs)" by fastforce
  moreover obtain hi where "ensure_header L blk height (set_height_hash height (block_hash L (blk_header blk))
      (set_block_pos (block_hash L (blk_header blk)) pos (cs_headers cs))) = Inr hi"
    using ensure_header_ok [OF assms] by blast
  ultimately show ?thesis unfolding commit_block_def Let_def by (simp split: prod.split)
qed

text \<open>
  C3: A rejected block leaves no trace. If the header index is readable, then whenever connecting a
  block fails, with an error of any of its checks or a panic, the header index, the block files,
  the transaction index, the tip and the coins with their write buffer, undo records and database
  are exactly what they were; only caches may have changed.
\<close>

theorem rejected_block_no_trace:
  assumes "connect_block_with_raw L S E blk height raw cs = (Inl e, cs')"
    and "\<forall>h. is_ok (get_header L (cs_headers cs) h)"
  shows "same_but_caches cs cs' \<and> us_buffer (cs_utxo cs') = us_buffer (cs_utxo cs) \<and>
    us_db (cs_utxo cs') = us_db (cs_utxo cs) \<and> coins (cs_utxo cs') = coins (cs_utxo cs)"
proof -
  have keep: "same_but_caches cs cs' \<and> reads (cs_utxo cs) (cs_utxo cs')"
  proof (cases "check_block L E cs blk height")
    case (Inl x)
    then show ?thesis using assms(1) by (auto simp: connect_block_with_raw_def Let_def)
  next
    case (Inr x)
    obtain txids wtxids vs mtp where x: "x = (txids, wtxids, vs, mtp)" by (metis prod_cases4)
    show ?thesis
    proof (cases "cs_bip110_activation L cs (prev_blockhash (blk_header blk)) height")
      case None
      then show ?thesis using assms(1) Inr x by (auto simp: connect_block_with_raw_def Let_def)
    next
      case (Some y)
      obtain act cs1 where y: "y = (act, cs1)" by (cases y)
      note a = activation_same [OF Some [unfolded y]]
      let ?bx = "\<lparr>bx_params = cs_params cs, bx_headers = cs_headers cs1, bx_height = height,
          bx_time = hdr_time (blk_header blk), bx_mtp = mtp,
          bx_flags = flags_for_height height (hdr_time (blk_header blk)) (bip16_time (cs_params cs))
            (segwit_height (cs_params cs)) (bip65_height (cs_params cs)) (csv_height (cs_params cs))
            (bip66_height (cs_params cs)) (taproot_height (cs_params cs)),
          bx_verify = vs, bx_bip110 = act\<rparr>"
      obtain r cs2 where vt: "validate_transactions L S E ?bx blk txids wtxids cs1 = (r, cs2)" by fastforce
      note v = validate_transactions_keeps [OF vt]
      have two: "same_but_caches cs cs2" "reads (cs_utxo cs) (cs_utxo cs2)"
        using a v unfolding same_but_caches_def by simp_all
      then have "\<forall>h. is_ok (get_header L (cs_headers cs2) h)"
        using assms(2) by (simp add: same_but_caches_def)
      note ok = commit_ok [OF this]
      have "cs' = cs1 \<or> cs' = cs2"
      proof (cases r)
        case (Inl e')
        then show ?thesis
          using assms(1) unfolding connect_block_with_raw_def Let_def Inr x Some y
          by (simp add: vt split: if_splits)
      next
        case (Inr b)
        from ok obtain cs3 where "commit_block L E blk height raw txids b cs2 = (Inr txids, cs3)" by blast
        then show ?thesis
          using assms(1) \<open>check_block L E cs blk height = Inr x\<close>
          unfolding connect_block_with_raw_def Let_def x Some y
          by (simp add: vt Inr x split: if_splits)
      qed
      then show ?thesis using a two by auto
    qed
  qed
  then show ?thesis using reads_coins [OF conjunct2 [OF keep]] by (simp add: reads_def)
qed

section \<open>What a block spends\<close>

lemma check_input_removals:
  assumes "check_input S bx ist input = Inr ist'"
  shows "removals (vt_batch (is_vt ist')) = removals (vt_batch (is_vt ist)) @ [previous_output input]"
  using assms unfolding check_input_def Let_def
  by (auto simp: spend_coin_def Let_def split: if_splits sum.splits option.splits prod.splits)

lemma inputs_removals:
  assumes "foldE (check_input S bx) ist0 ins = Inr ist"
  shows "removals (vt_batch (is_vt ist)) = removals (vt_batch (is_vt ist0)) @ map previous_output ins"
  by (rule foldE_prefix [OF assms, where P = "\<lambda>pre a. removals (vt_batch (is_vt a)) =
        removals (vt_batch (is_vt ist0)) @ map previous_output pre"])
    (simp_all add: check_input_removals)

lemma tx_removals:
  assumes "check_tx L S bx txids wtxids st (i, tx) = Inr st'"
  shows "removals (vt_batch st') = removals (vt_batch st) @
    (if i = 0 then [] else map previous_output (tx_input tx))"
proof -
  obtain sg w where c: "i = 0 \<Longrightarrow> st' = add_outputs L (bx_height bx) (txids ! i) True tx (st\<lparr>vt_sigops := sg\<rparr>)"
    "i \<noteq> 0 \<Longrightarrow> check_spending_tx L S bx (txids ! i) w tx (st\<lparr>vt_sigops := sg\<rparr>) = Inr st'"
    using check_tx_Inr(2) [OF assms] by blast
  show ?thesis
  proof (cases "i = 0")
    case False
    with c(2) obtain ist where ist: "foldE (check_input S bx) \<lparr>is_vt = st\<lparr>vt_sigops := sg\<rparr>, input_sum = 0,
        tx_prevouts = [], input_heights = []\<rparr> (tx_input tx) = Inr ist"
      "removals (vt_batch st') = removals (vt_batch (is_vt ist))"
      unfolding check_spending_tx_def Let_def by (auto simp: bindE_eq_Inr split: if_splits)
    with False inputs_removals [OF ist(1)] show ?thesis by simp
  qed (use c(1) in simp)
qed

lemma block_removals:
  assumes "check_txs L S bx blk txids wtxids us = Inr st"
  shows "removals (vt_batch st) = concat (map (\<lambda>(i, tx). if i = 0 then [] else map previous_output (tx_input tx))
    (enumerate 0 (txdata blk)))"
proof -
  from assms obtain us1 where fold: "foldE (check_tx L S bx txids wtxids) (vt_init us1) (enumerate 0 (txdata blk)) = Inr st"
    unfolding check_txs_def by (auto simp: bindE_eq_Inr split: if_splits sum.splits)
  show ?thesis
  proof (rule foldE_prefix [OF fold, where P = "\<lambda>pre a. removals (vt_batch a) =
      concat (map (\<lambda>(i, tx). if i = 0 then [] else map previous_output (tx_input tx)) pre)"])
    fix pre :: "(nat \<times> transaction) list" and x a a'
    assume "removals (vt_batch a) = concat (map (\<lambda>(i, tx). if i = 0 then [] else map previous_output (tx_input tx)) pre)"
      and run: "check_tx L S bx txids wtxids a x = Inr a'"
    moreover obtain i tx where x: "x = (i, tx)" by (cases x)
    moreover note tx_removals [OF run [unfolded x]]
    ultimately show "removals (vt_batch a') =
        concat (map (\<lambda>(i, tx). if i = 0 then [] else map previous_output (tx_input tx)) (pre @ [x]))"
      by simp
  qed (simp add: vt_init_def utxo_batch_new_def)
qed

definition num_inputs :: "block \<Rightarrow> nat" where
  "num_inputs blk = sum_list (map (length \<circ> tx_input) (txdata blk))"

definition num_outputs :: "block \<Rightarrow> nat" where
  "num_outputs blk = sum_list (map (length \<circ> tx_output) (txdata blk))"

lemma sum_list_enumerate_le:
  fixes f g :: "nat \<times> 'a \<Rightarrow> nat"
  assumes "\<And>i x. f (i, x) \<le> h x"
  shows "sum_list (map f (enumerate n xs)) \<le> sum_list (map h xs)"
proof (induction xs arbitrary: n)
  case (Cons x xs)
  then show ?case using assms [of n x] by (simp add: add_mono)
qed simp

lemma removals_count:
  assumes "check_txs L S bx blk txids wtxids us = Inr st"
  shows "length (removals (vt_batch st)) \<le> num_inputs blk"
  unfolding block_removals [OF assms] num_inputs_def length_concat map_map comp_def
  by (rule sum_list_enumerate_le) simp

lemma created_count: "length (coins_of_block L height blk) \<le> num_outputs blk"
proof -
  have "length (created_coins L height txid cb tx) \<le> length (tx_output tx)" for txid cb tx
    unfolding created_coins_def length_map by (rule order_trans [OF length_filter_le]) simp
  then show ?thesis
    unfolding block_coins_def num_outputs_def length_concat map_map comp_def
    by (intro sum_list_enumerate_le) simp
qed

text \<open>The outputs that \<^verbatim>\<open>disconnect_block\<close> removes are those that \<^verbatim>\<open>connect_block\<close> created.\<close>

lemma created_outpoints:
  "created_outpoints_of L tx = map fst (created_coins L h (compute_txid L tx) cb tx)"
  by (simp add: created_outpoints_of_def created_coins_def case_prod_beta comp_def)

lemma inverse_removals:
  "set (removals (inverse_of_block L blk undo)) = fst ` set (coins_of_block L height blk)"
proof -
  have "set (removals (inverse_of_block L blk undo)) =
      (\<Union>tx\<in>set (txdata blk). set (created_outpoints_of L tx))"
    by (simp add: inverse_of_block_def)
  also have "\<dots> = (\<Union>i\<in>{..<length (txdata blk)}. set (created_outpoints_of L (txdata blk ! i)))"
  proof -
    have "set (txdata blk) = (!) (txdata blk) ` {..<length (txdata blk)}" by (auto simp: set_conv_nth)
    then show ?thesis by simp
  qed
  also have "\<dots> = (\<Union>i\<in>{..<length (txdata blk)}. fst ` set (created_coins L height
      (map (compute_txid L) (txdata blk) ! i) (i = 0) (txdata blk ! i)))"
  proof (rule SUP_cong [OF refl])
    fix i assume "i \<in> {..<length (txdata blk)}"
    then show "set (created_outpoints_of L (txdata blk ! i)) = fst ` set (created_coins L height
        (map (compute_txid L) (txdata blk) ! i) (i = 0) (txdata blk ! i))"
      unfolding created_outpoints [of L "txdata blk ! i" height "i = 0"] by simp
  qed
  also have "\<dots> = fst ` (\<Union>i\<in>{..<length (txdata blk)}. set (created_coins L height
      (map (compute_txid L) (txdata blk) ! i) (i = 0) (txdata blk ! i)))"
    by (rule image_UN [symmetric])
  also have "(\<Union>i\<in>{..<length (txdata blk)}. set (created_coins L height
      (map (compute_txid L) (txdata blk) ! i) (i = 0) (txdata blk ! i))) = set (coins_of_block L height blk)"
    by (force simp: block_coins_def in_set_enumerate_eq)
  finally show ?thesis .
qed

section \<open>The undo record of a connected block\<close>

lemma buffer_undo [simp]:
  "undo_buffer (buffer_insert i wb) = undo_buffer wb" "undo_buffer (buffer_remove op wb) = undo_buffer wb"
  "undo_buffer (fold buffer_insert ins wb) = undo_buffer wb"
  "undo_buffer (fold buffer_remove ops wb) = undo_buffer wb"
proof -
  show i: "undo_buffer (buffer_insert i wb) = undo_buffer wb" for i wb
    by (cases i) (simp add: Let_def split: option.split)
  show r: "undo_buffer (buffer_remove op wb) = undo_buffer wb" for op wb
    by (simp add: buffer_remove_def Let_def split: option.split)
  show "undo_buffer (fold buffer_insert ins wb) = undo_buffer wb"
    by (induction ins arbitrary: wb) (simp_all add: i)
  show "undo_buffer (fold buffer_remove ops wb) = undo_buffer wb"
    by (induction ops arbitrary: wb) (simp_all add: r)
qed

lemma evict_fields [simp]:
  "us_buffer (maybe_evict_cache it us) = us_buffer us" "us_db (maybe_evict_cache it us) = us_db us"
  by (simp_all add: maybe_evict_cache_def Let_def)

lemma load_undo_flushed:
  assumes "undo_buffer (us_buffer us) = pre @ [(h, data)]"
  shows "load_undo (flush_to_disk it us) h = bindE (deserialize_undo data) (\<lambda>u. Inr (Some u))"
proof -
  have db: "us_db (flush_to_disk it us) = fold db_write (flush_batches it (us_buffer us)) (us_db us)"
    "undo_buffer (us_buffer (flush_to_disk it us)) = []"
    using assms by (simp_all add: flush_to_disk_def Let_def)
  have "cf_undo (us_db (flush_to_disk it us)) h = Some data"
    unfolding db(1) db_write_concat cf_undo_apply undo_writes_flush assms by simp
  then show ?thesis by (simp add: load_undo_def db(2))
qed

lemma load_undo_applied:
  assumes "undo_buffer (us_buffer us) = pre @ [(h, data)]" and "map_of pre h = None"
  shows "load_undo (snd (apply_batch it us b)) h = bindE (deserialize_undo data) (\<lambda>u. Inr (Some u))"
proof -
  define us1 where "us1 = maybe_evict_cache it (us\<lparr>us_buffer :=
      (fold buffer_remove (removals b) (fold buffer_insert (inserts b) (us_buffer us)))\<lparr>blocks_since_flush :=
        blocks_since_flush (fold buffer_remove (removals b) (fold buffer_insert (inserts b) (us_buffer us))) + 1\<rparr>,
      us_cache := fold (\<lambda>outpoint. hm_remove (outpoint_key outpoint)) (removals b) (us_cache us)\<rparr>)"
  have u1: "undo_buffer (us_buffer us1) = pre @ [(h, data)]" by (simp add: us1_def assms(1))
  have "snd (apply_batch it us b) = us1 \<or> snd (apply_batch it us b) = flush_to_disk it us1"
    by (simp add: apply_batch_def Let_def us1_def)
  moreover have "load_undo us1 h = bindE (deserialize_undo data) (\<lambda>u. Inr (Some u))"
    using u1 assms(2) by (simp add: load_undo_def map_add_def)
  moreover note load_undo_flushed [OF u1, of it]
  ultimately show ?thesis by metis
qed

lemma coherent_coin_ok: "coherent us \<Longrightarrow> coins us k = Some e \<Longrightarrow> coin_ok e"
  by (auto simp: coherent_def buffer_ok_def coins_def disk_coin_ok split: option.splits)

text \<open>What a coin spent by the block was worth before it, looked up after its inserts.\<close>

lemma spent_lookup:
  assumes inv: "vt_inv m C st" and ins: "inserts (vt_batch st) = coins_of_block L height blk"
    and fresh: "block_fresh L height blk m" and co: "\<And>k e. m k = Some e \<Longrightarrow> coin_ok e"
    and s: "s \<in> set (batch_spent (vt_batch st))"
  shows "put_coins (inserts (vt_batch st)) m (outpoint_key (su_outpoint s)) = Some (su_entry s)"
    and "coin_ok (su_entry s)"
proof -
  note cf = coins_of_block_fresh [OF fresh, folded ins]
  have "m (outpoint_key (su_outpoint s)) = Some (su_entry s) \<or>
      m (outpoint_key (su_outpoint s)) = None \<and> (su_outpoint s, su_entry s) \<in> set (inserts (vt_batch st))"
    using inv s unfolding vt_inv_def by metis
  then have "put_coins (inserts (vt_batch st)) m (outpoint_key (su_outpoint s)) = Some (su_entry s) \<and>
      coin_ok (su_entry s)"
  proof
    assume m: "m (outpoint_key (su_outpoint s)) = Some (su_entry s)"
    then show ?thesis using put_coins_keeps [OF cf(3) m] co by blast
  next
    assume n: "m (outpoint_key (su_outpoint s)) = None \<and> (su_outpoint s, su_entry s) \<in> set (inserts (vt_batch st))"
    let ?kv = "map (\<lambda>(op, e). (outpoint_key op, e)) (inserts (vt_batch st))"
    have keys: "map fst ?kv = map (outpoint_key \<circ> fst) (inserts (vt_batch st))"
      by (simp add: case_prod_beta comp_def)
    have "distinct (map fst (rev ?kv))" unfolding rev_map [symmetric] distinct_rev keys by (rule cf(1))
    moreover have "(outpoint_key (su_outpoint s), su_entry s) \<in> set (rev ?kv)"
      using n by force
    ultimately have "map_of (rev ?kv) (outpoint_key (su_outpoint s)) = Some (su_entry s)"
      by (rule map_of_is_SomeI)
    moreover have "coin_ok (su_entry s)" using cf(2) n by auto
    ultimately show ?thesis by (simp add: put_coins_map_of)
  qed
  then show "put_coins (inserts (vt_batch st)) m (outpoint_key (su_outpoint s)) = Some (su_entry s)"
    "coin_ok (su_entry s)" by simp_all
qed

section \<open>Disconnecting\<close>

text \<open>What an undo record can hold: the sizes of a block, scripts within the length field, and no older
  record for the same block in the buffer.\<close>

definition undoable :: "bitcoin_crate \<Rightarrow> block \<Rightarrow> chain_state \<Rightarrow> bool" where
  "undoable L blk cs \<longleftrightarrow>
     num_inputs blk < 2 ^ 32 \<and> num_outputs blk < 2 ^ 32 \<and> length (prev_blockhash (blk_header blk)) = 32 \<and>
     map_of (undo_buffer (us_buffer (cs_utxo cs))) (block_hash L (blk_header blk)) = None \<and>
     (\<forall>k e. coins (cs_utxo cs) k = Some e \<longrightarrow> length (ue_script e) + 17 < 2 ^ 32)"

lemma connected_undo:
  assumes txs: "check_txs L S bx blk txids wtxids (cs_utxo cs) = Inr st"
    and inv: "vt_inv (coins (cs_utxo cs)) C st" and ins: "inserts (vt_batch st) = coins_of_block L height blk"
    and fresh: "block_fresh L height blk (coins (cs_utxo cs))" and u: "undoable L blk cs"
  shows "load_undo (snd (apply_batch it (with_undo L blk height (vt_batch st) (vt_utxo st)) b))
      (block_hash L (blk_header blk)) =
    Inr (Some \<lparr>spent_utxos = batch_spent (vt_batch st), created_outpoints = map fst (inserts (vt_batch st)),
      undo_prev_hash = Some (prev_blockhash (blk_header blk))\<rparr>)"
proof -
  let ?sp = "batch_spent (vt_batch st)" and ?cr = "map fst (inserts (vt_batch st))"
  let ?prev = "prev_blockhash (blk_header blk)" and ?hash = "block_hash L (blk_header blk)"
  note cf = coins_of_block_fresh [OF fresh, folded ins]
  have rem: "removals (vt_batch st) = map su_outpoint ?sp" using inv unfolding vt_inv_def by metis
  have "spent_ok s" if "s \<in> set ?sp" for s
  proof -
    have "length (op_txid (su_outpoint s)) = 32 \<and>
        (coins (cs_utxo cs) (outpoint_key (su_outpoint s)) = Some (su_entry s) \<or>
         (su_outpoint s, su_entry s) \<in> set (inserts (vt_batch st)))"
      using inv that unfolding vt_inv_def by metis
    then show ?thesis using u cf(2) unfolding spent_ok_def undoable_def by (metis snd_conv)
  qed
  moreover have "length ?sp < 2 ^ 32"
    using removals_count [OF txs] u unfolding undoable_def rem length_map by linarith
  moreover have "length ?cr < 2 ^ 32"
    using created_count [of L height blk] u unfolding undoable_def ins length_map by linarith
  moreover have "\<forall>op\<in>set ?cr. length (op_txid op) = 32" using cf(2) by auto
  ultimately have ok: "undo_ok ?sp ?cr ?prev" using u by (simp add: undo_ok_def undoable_def)
  have "us_buffer (vt_utxo st) = us_buffer (cs_utxo cs)"
    using only_reads_txs [of "cs_utxo cs" L S bx blk txids wtxids] by (simp add: txs only_reads_def reads_def)
  then have "undo_buffer (us_buffer (with_undo L blk height (vt_batch st) (vt_utxo st))) =
      undo_buffer (us_buffer (cs_utxo cs)) @ [(?hash, undo_serialize ?sp ?cr ?prev)]"
    by (simp add: set_pending_flush_height_def store_undo_def Let_def)
  from load_undo_applied [OF this, of it b] u undo_codec [OF ok] show ?thesis
    by (simp add: undoable_def)
qed

lemma delete_undo_coins:
  assumes "coherent us"
  shows "coherent (delete_undo h us)" and "coins (delete_undo h us) = coins us"
proof -
  have "coherent (delete_undo h us) \<and> coins (delete_undo h us) = coins us"
    by (rule coherent_cong [OF assms]) (simp_all add: delete_undo_def db_write_def)
  then show "coherent (delete_undo h us)" "coins (delete_undo h us) = coins us" by simp_all
qed

lemma pending_coins:
  assumes "coherent us"
  shows "coherent (set_pending_flush_height h x us)" and "coins (set_pending_flush_height h x us) = coins us"
proof -
  have "coherent (set_pending_flush_height h x us) \<and> coins (set_pending_flush_height h x us) = coins us"
    by (rule coherent_cong [OF assms]) (simp_all add: set_pending_flush_height_def)
  then show "coherent (set_pending_flush_height h x us)"
    "coins (set_pending_flush_height h x us) = coins us" by simp_all
qed

text \<open>The inverse batch brings back the coins.\<close>

lemma inverse_restores:
  assumes inv: "vt_inv m C st" and ins: "inserts (vt_batch st) = coins_of_block L height blk"
    and fresh: "block_fresh L height blk m" and it: "iteration_ok it'"
    and us: "coherent us" "coins us = m" and us': "coherent us'" "coins us' = abs_batch (vt_batch st) m"
    and undo: "spent_utxos undo = batch_spent (vt_batch st)"
  shows "coherent (snd (apply_batch it' us' (inverse_of_block L blk undo)))"
    and "coins (snd (apply_batch it' us' (inverse_of_block L blk undo))) = m"
proof -
  let ?b = "vt_batch st" and ?c = "inverse_of_block L blk undo"
  let ?sp = "map (\<lambda>s. (su_outpoint s, su_entry s)) (batch_spent (vt_batch st))"
  note cf = coins_of_block_fresh [OF fresh, folded ins]
  have co: "coin_ok e" if "m k = Some e" for k e using coherent_coin_ok [OF us(1)] us(2) that by simp
  have sp: "\<forall>i\<in>set ?sp. put_coins (inserts ?b) m (outpoint_key (fst i)) = Some (snd i) \<and> coin_ok (snd i)"
    using spent_lookup [OF inv ins fresh co] by auto
  have "distinct (map (\<lambda>s. outpoint_key (su_outpoint s)) (batch_spent ?b))"
    using inv by (intro distinct_spent_keys) (auto simp: vt_inv_def)
  then have dist: "distinct (map (outpoint_key \<circ> fst) ?sp)" by (simp add: comp_def)
  have rem: "removals ?b = map fst ?sp" using inv unfolding vt_inv_def by (simp add: comp_def)
  have insc: "inserts ?c = ?sp" by (simp add: inverse_of_block_def undo)
  have keys: "outpoint_key ` set (removals ?c) = outpoint_key ` fst ` set (inserts ?b)"
    unfolding inverse_removals [of L blk undo height] ins ..
  let ?us1 = "snd (apply_batch it' us ?b)"
  have one: "coherent ?us1" "coins ?us1 = abs_batch ?b m"
    using apply_batch_correct [OF it us(1), of ?b] cf(3) us(2) by simp_all
  have "abs_batch ?b m (outpoint_key (fst i)) = None" if "i \<in> set ?sp" for i
    using that rem by (auto simp: abs_batch_def del_coins_lookup)
  then have fc: "fresh_inserts (inserts ?c) (abs_batch ?b m)"
    unfolding insc using sp dist by (intro fresh_insertsI) blast+
  have "coins (snd (apply_batch it' ?us1 ?c)) = m"
  proof -
    have "(\<lambda>(it, us). coins us) ((\<lambda>b (it, us). (it, snd (apply_batch it us b))) ?c
        ((\<lambda>b (it, us). (it, snd (apply_batch it us b))) ?b (it', us))) = (\<lambda>(it, us). coins us) (it', us)"
    proof (rule utxo_store.inverse_batch(1))
      show "\<forall>i\<in>set (inserts ?b). (case (it', us) of (it, us) \<Rightarrow> coins us) (outpoint_key (fst i)) = None"
        using cf(2) us(2) by simp
      show "\<forall>i\<in>set ?sp. put_coins (inserts ?b) (case (it', us) of (it, us) \<Rightarrow> coins us)
          (outpoint_key (fst i)) = Some (snd i) \<and> coin_ok (snd i)"
        unfolding split us(2) by (rule sp)
      show "fresh_inserts (inserts ?b) (case (it', us) of (it, us) \<Rightarrow> coins us)"
        unfolding split us(2) by (rule cf(3))
      show "case (it', us) of (it, us) \<Rightarrow> iteration_ok it \<and> coherent us" using it us(1) by simp
    qed (rule dist rem insc keys)+
    then show ?thesis by (simp add: us(2))
  qed
  moreover have "coins (snd (apply_batch it' ?us1 ?c)) = abs_batch ?c (abs_batch ?b m)"
    using apply_batch_correct [OF it one(1), of ?c] fc one(2) by simp
  ultimately have "abs_batch ?c (abs_batch ?b m) = m" by simp
  with apply_batch_correct [OF it us'(1), of ?c] fc us'(2)
  show "coherent (snd (apply_batch it' us' ?c))" "coins (snd (apply_batch it' us' ?c)) = m"
    by simp_all
qed

text \<open>
  C2: Disconnecting undoes connecting. A block that was connected can be disconnected from the tip: the
  undo record it stored is found, in the buffer or on disk, and afterwards the coins are exactly
  those before the block, coins that it both created and spent included; the tip is the block's
  parent at the height below; and a transaction index that knew none of the block's transactions
  answers every txid as before.
\<close>

theorem disconnect_undoes_connect:
  assumes "connect_block_with_raw L S E blk height raw cs = (Inr txids, cs')"
    and "coherent (cs_utxo cs)" and "finite (dom (coins (cs_utxo cs)))" and "iteration_ok (env_iter E)"
    and "total_supply (coins (cs_utxo cs)) < 2 ^ 63" and "block_fresh L height blk (coins (cs_utxo cs))"
    and "\<forall>tx\<in>set (txdata blk). inputs_ok tx" and "undoable L blk cs" and "iteration_ok (env_iter E')"
  shows "\<exists>cs''. disconnect_block L E' blk height cs' = (Inr (), cs'') \<and>
    coins (cs_utxo cs'') = coins (cs_utxo cs) \<and> coherent (cs_utxo cs'') \<and>
    cs_best_hash cs'' = prev_blockhash (blk_header blk) \<and>
    cs_best_height cs'' = saturating_sub_u32 height 1 \<and>
    (\<forall>db. cs_tx_index cs = Some db \<longrightarrow> (\<forall>t\<in>set txids. db t = None) \<longrightarrow>
       (\<exists>db''. cs_tx_index cs'' = Some db'' \<and> (\<forall>k. length k = 32 \<longrightarrow> db'' k = db k)))"
proof -
  from connected_coins [OF assms(1-7)] obtain st bx wtxids where st:
    "check_txs L S bx blk txids wtxids (cs_utxo cs) = Inr st"
    "vt_inv (coins (cs_utxo cs)) (unat (output_sum (hd (txdata blk)))) st"
    "inserts (vt_batch st) = coins_of_block L height blk"
    "cs_utxo cs' = snd (apply_batch (env_iter E) (with_undo L blk height (vt_batch st) (vt_utxo st)) (vt_batch st))"
    "coins (cs_utxo cs') = abs_batch (vt_batch st) (coins (cs_utxo cs))" "coherent (cs_utxo cs')" by metis
  from connect_Inr [OF assms(1)] obtain b cs2 wtxids' vs mtp where c2: "same_but_caches cs cs2"
    "check_block L E cs blk height = Inr (txids, wtxids', vs, mtp)"
    "commit_block L E blk height raw txids b cs2 = (Inr txids, cs')" by metis
  note tip = commit_Inr [OF c2(3)]
  have ids: "txids = map (compute_txid L) (txdata blk)" by (rule check_block_Inr(1) [OF c2(2)])
  let ?hash = "block_hash L (blk_header blk)"
  obtain undo where undo: "load_undo (cs_utxo cs') ?hash = Inr (Some undo)"
    "spent_utxos undo = batch_spent (vt_batch st)"
    using connected_undo [OF st(1-3) assms(6,8), of "env_iter E" "vt_batch st"] st(4) by simp
  define us1 where "us1 = set_pending_flush_height (saturating_sub_u32 height 1) (prev_blockhash (blk_header blk)) (cs_utxo cs')"
  have us1: "coherent us1" "coins us1 = abs_batch (vt_batch st) (coins (cs_utxo cs))"
    using pending_coins [OF st(6)] st(5) by (simp_all add: us1_def)
  define us2 where "us2 = snd (apply_batch (env_iter E') us1 (inverse_of_block L blk undo))"
  have us2: "coherent us2" "coins us2 = coins (cs_utxo cs)"
    using inverse_restores [OF st(2,3) assms(6,9,2) refl us1 undo(2)] by (simp_all add: us2_def)
  define us3 where "us3 = flush_to_disk (env_iter E') (delete_undo ?hash us2)"
  have us3: "coherent us3" "coins us3 = coins (cs_utxo cs)"
    using flush_correct [OF assms(9) delete_undo_coins(1) [OF us2(1)]] delete_undo_coins(2) [OF us2(1)] us2(2)
    by (simp_all add: us3_def)
  obtain cs'' where run: "disconnect_block L E' blk height cs' = (Inr (), cs'')"
    "cs_utxo cs'' = us3" "cs_best_hash cs'' = prev_blockhash (blk_header blk)"
    "cs_best_height cs'' = saturating_sub_u32 height 1"
    "cs_tx_index cs'' = map_option (deindex_block txids) (cs_tx_index cs')"
    unfolding disconnect_block_def Let_def
    by (simp add: tip(2,3) undo(1) us1_def [symmetric] us2_def [symmetric] us3_def [symmetric] ids [symmetric])
  have "\<exists>db''. cs_tx_index cs'' = Some db'' \<and> (\<forall>k. length k = 32 \<longrightarrow> db'' k = db k)"
    if "cs_tx_index cs = Some db" "\<forall>t\<in>set txids. db t = None" for db
  proof -
    have "cs_tx_index cs2 = Some db" using that(1) c2(1) by (simp add: same_but_caches_def)
    then have "cs_tx_index cs'' = Some (deindex_block txids (index_block_at_height ?hash txids height
        (Some (compute_tx_locations (env_varint_size E) (env_total_size E) blk)) db))"
      by (simp add: run(5) tip(6))
    with deindex_indexed [OF that(2)] show ?thesis by simp
  qed
  with run us3 show ?thesis by blast
qed

end
