(* ===== verification/Chain_Demo.thy ===== *)
theory Chain_Demo
  imports Chain_Reorg Demo_Script
begin

text \<open>
  A small chain on which the witnesses of the chain state's properties evaluate: a first block with
  one coinbase on the regression-test network, and a block that is rejected.
\<close>

definition demo_coinbase :: transaction where
  "demo_coinbase = \<lparr>tx_version = 1, tx_lock_time = 0,
     tx_input = [\<lparr>previous_output = \<lparr>op_txid = replicate 32 0, op_vout = 0xffffffff\<rparr>,
       script_sig = [0, 0], in_sequence = 0xffffffff, in_witness = []\<rparr>],
     tx_output = [\<lparr>out_value = 5000000000, script_pubkey = [0x51]\<rparr>]\<rparr>"

definition demo_first_header :: block_header where
  "demo_first_header = \<lparr>hdr_version = 1, prev_blockhash = replicate 32 0, hdr_merkle_root = to_le 32 2,
     hdr_time = 0, hdr_bits = 0, hdr_nonce = 5\<rparr>"

definition demo_first :: block where
  "demo_first = \<lparr>blk_header = demo_first_header, txdata = [demo_coinbase]\<rparr>"

definition demo_bad :: block where
  "demo_bad = \<lparr>blk_header = demo_first_header, txdata = [demo_coinbase\<lparr>tx_version := 2\<rparr>]\<rparr>"

definition demo_env :: chain_env where
  "demo_env = \<lparr>env_now = 0, env_iter = demo_order, env_cache_iter = (\<lambda>s. s), env_schedule = (\<lambda>cs. cs),
     env_ack = True, env_encode = (\<lambda>b. [1, 2, 3]), env_varint_size = (\<lambda>_. 1), env_total_size = (\<lambda>_. 60)\<rparr>"

definition demo_chain :: chain_state where
  "demo_chain = chain_state_new (regtest (\<lambda>_. demo_first)) empty_index demo_set (block_store_open [])
     0 (replicate 32 0)"

lemma demo_chain_sel [simp]:
  "cs_params demo_chain = regtest (\<lambda>_. demo_first)" "cs_headers demo_chain = empty_index"
  "cs_utxo demo_chain = demo_set" "cs_checker demo_chain = None" "cs_tx_index demo_chain = None"
  by (simp_all add: demo_chain_def chain_state_new_def regtest_def)

lemma demo_header_valid:
  "validate_block_header demo_crate 0 demo_first_header 0 None (regtest g) = Inr ()"
proof -
  have zeros: "to_le n 0 = replicate n 0" for n by (induction n) simp_all
  have split: "replicate 32 b = b # replicate 31 (b :: u8)" for b
    using replicate_Suc [of 31 b] by simp
  have "target_from_compact demo_crate 0 = rev (to_le 32 0)" by (simp add: demo_crate_sel to_be_def)
  then have "target_from_compact demo_crate 0 = replicate 32 0" by (simp only: zeros rev_replicate)
  then have t: "target_from_compact demo_crate 0 = 0 # replicate 31 0"
    by (simp only: split)
  have p: "pow_limit_regtest = 0x7f # replicate 31 0xff"
    by (simp add: pow_limit_regtest_def split)
  have "bytes_cmp (target_from_compact demo_crate 0) pow_limit_regtest = Less" unfolding t p by simp
  then show ?thesis
    by (simp add: validate_block_header_def demo_first_header_def demo_crate_sel regtest_def Let_def)
qed

lemma demo_merkle: "verify_merkle_root_with_txids demo_crate demo_first [to_le 32 2] = Some (Inr ())"
  using root_detecting_mutation_mtree [of "[to_le 32 2]" "sha256d demo_crate"]
  by (simp add: verify_merkle_root_with_txids_def demo_first_def demo_first_header_def)

lemma demo_coinbase_valid: "validate_coinbase demo_crate demo_first 0 (regtest g) = Inr ()"
  by (simp add: validate_coinbase_def demo_first_def demo_coinbase_def demo_crate_sel regtest_def)

lemma demo_check_block: "check_block demo_crate demo_env demo_chain demo_first 0 =
    Inr ([to_le 32 2], Some [to_le 32 2], True, 0)"
proof -
  have ids: "map (compute_txid demo_crate) (txdata demo_first) = [to_le 32 2]"
    "map (compute_wtxid demo_crate) (txdata demo_first) = [to_le 32 2]"
    by (simp_all add: demo_first_def demo_coinbase_def demo_crate_sel numeral_2_eq_2)
  have parts: "blk_header demo_first = demo_first_header" "\<not> block_has_witness demo_first"
    "verify_scripts_for demo_crate demo_chain h 0"
    "validate_block_weight demo_crate demo_first (regtest g) = Inr ()"
    "block_time_ok demo_crate demo_chain demo_first 0 = Inr 0"
    "block_bits_ok demo_crate demo_chain demo_first 0 = Inr ()" "env_now demo_env = 0" for h g
    by (simp_all add: demo_first_def block_has_witness_def verify_scripts_for_def regtest_def demo_env_def
        validate_block_weight_def demo_crate_sel block_time_ok_def block_bits_ok_def)
  show ?thesis
    unfolding check_block_def Let_def ids
    by (simp add: parts demo_header_valid demo_merkle demo_coinbase_valid core_run_def or_panic_def)
qed

lemma demo_bad_rejected: "check_block demo_crate demo_env demo_chain demo_bad 0 = Inl (Fail InvalidMerkleRoot)"
proof -
  have ids: "map (compute_txid demo_crate) (txdata demo_bad) = [to_le 32 3]"
    by (simp add: demo_bad_def demo_crate_sel numeral_3_eq_3)
  have "to_le 32 3 \<noteq> to_le 32 2" by (simp add: to_le_inject)
  then have "verify_merkle_root_with_txids demo_crate demo_bad [to_le 32 3] = Some (Inl InvalidMerkleRoot)"
    using root_detecting_mutation_mtree [of "[to_le 32 3]" "sha256d demo_crate"]
    by (simp add: verify_merkle_root_with_txids_def demo_bad_def demo_first_header_def)
  moreover have "blk_header demo_bad = demo_first_header" "env_now demo_env = 0"
    by (simp_all add: demo_bad_def demo_env_def)
  ultimately show ?thesis
    unfolding check_block_def Let_def ids by (simp add: demo_header_valid core_run_def or_panic_def)
qed

lemma demo_tx_valid: "check_transaction demo_crate demo_coinbase = Inr ()"
  by (simp add: check_transaction_def demo_coinbase_def demo_crate_sel duplicate_inputs_def MAX_MONEY_def Let_def)

lemma demo_sigops: "legacy_sigops demo_script demo_coinbase = 0"
proof -
  have "count_sigops demo_script [0x51] False = 0" "count_sigops demo_script [0, 0] False = 0"
    unfolding count_sigops_def demo_script_sel by code_simp+
  then show ?thesis by (simp add: legacy_sigops_def demo_coinbase_def)
qed

lemma demo_absent: "\<not> utxo_contains demo_set op"
  by (simp add: utxo_contains_def demo_set_def from_db_def write_buffer_new_def)

lemma demo_subsidy: "block_subsidy (regtest g) 0 = 5000000000"
  by (simp add: block_subsidy_def regtest_def)

lemma demo_check_txs:
  assumes "bx_params bx = regtest g" and "bx_height bx = 0" and "\<not> enforcing (bx_bip110 bx)"
  shows "\<exists>st. check_txs demo_crate demo_script bx demo_first [to_le 32 2] w demo_set = Inr st \<and> vt_checks st = []"
proof -
  have "prefetch demo_set [] = demo_set" by (simp add: prefetch_def)
  moreover have "output_sum demo_coinbase = 5000000000" by (simp add: output_sum_def demo_coinbase_def)
  ultimately show ?thesis using assms
    by (simp add: check_txs_def demo_first_def check_tx_def vt_check_def demo_tx_valid demo_sigops bip30_ok_def
        demo_absent list_all_iff vt_init_def add_outputs_def Let_def MAX_BLOCK_SIGOPS_COST_def coinbase_ok_def
        demo_subsidy)
qed

lemma demo_activation:
  "cs_bip110_activation demo_crate demo_chain h 0 = Some (INACTIVE, demo_chain)"
  by (simp add: cs_bip110_activation_def activation_at_def demo_chain_def chain_state_new_def regtest_def)

lemma demo_validates:
  assumes "bx_params bx = regtest g" and "bx_height bx = 0" and "bx_bip110 bx = INACTIVE"
  shows "\<exists>b us. validate_transactions demo_crate demo_script demo_env bx demo_first [to_le 32 2] w demo_chain =
    (Inr b, demo_chain\<lparr>cs_utxo := us\<rparr>)"
proof -
  have "\<not> enforcing (bx_bip110 bx)" unfolding assms(3) by (simp add: INACTIVE_def enforcing_def)
  from demo_check_txs [OF assms(1,2) this] obtain st where st:
    "check_txs demo_crate demo_script bx demo_first [to_le 32 2] w demo_set = Inr st" "vt_checks st = []" by metis
  have "demo_chain\<lparr>cs_utxo := us, cs_sig_cache := cs_sig_cache demo_chain\<rparr> = demo_chain\<lparr>cs_utxo := us\<rparr>" for us
    by simp
  moreover have "env_schedule demo_env [] = []" by (simp add: demo_env_def)
  ultimately show ?thesis by (auto simp: validate_transactions_def st Let_def)
qed

lemma demo_connects:
  "\<exists>cs'. connect_block_with_raw demo_crate demo_script demo_env demo_first 0 None demo_chain =
     (Inr [to_le 32 2], cs')"
proof -
  let ?p = "regtest (\<lambda>_. demo_first)"
  let ?bx = "\<lparr>bx_params = ?p, bx_headers = empty_index, bx_height = 0,
      bx_time = hdr_time (blk_header demo_first), bx_mtp = 0,
      bx_flags = flags_for_height 0 (hdr_time (blk_header demo_first)) (bip16_time ?p) (segwit_height ?p)
        (bip65_height ?p) (csv_height ?p) (bip66_height ?p) (taproot_height ?p),
      bx_verify = True, bx_bip110 = INACTIVE\<rparr>"
  obtain b us where v: "validate_transactions demo_crate demo_script demo_env ?bx demo_first [to_le 32 2]
      (Some [to_le 32 2]) demo_chain = (Inr b, demo_chain\<lparr>cs_utxo := us\<rparr>)"
    using demo_validates [of ?bx "\<lambda>_. demo_first" "Some [to_le 32 2]"] by auto
  have "\<forall>h. is_ok (get_header demo_crate (cs_headers (demo_chain\<lparr>cs_utxo := us\<rparr>)) h)" by (simp add: is_ok_def)
  from commit_ok [OF this] v show ?thesis
    by (simp add: connect_block_with_raw_def demo_check_block demo_activation Let_def)
qed

lemma demo_supply: "total_supply (coins demo_set) = 0" "finite (dom (coins demo_set))"
  by (simp_all add: demo_coins total_supply_def)

lemma demo_block_fresh: "block_fresh demo_crate 0 demo_first (coins demo_set)"
  by (simp add: block_fresh_def demo_first_def demo_coinbase_def demo_crate_sel demo_coins)

lemma demo_inputs_ok: "\<forall>tx\<in>set (txdata demo_first). inputs_ok tx"
  by (simp add: demo_first_def demo_coinbase_def inputs_ok_def)

lemma demo_undoable: "undoable demo_crate demo_first demo_chain"
proof -
  have "undo_buffer (us_buffer demo_set) = []" by (simp add: demo_set_def from_db_def write_buffer_new_def)
  then show ?thesis
    by (simp add: undoable_def demo_first_def demo_coinbase_def demo_first_header_def num_inputs_def
        num_outputs_def demo_coins)
qed

lemma demo_env_order: "iteration_ok (env_iter demo_env)"
  by (simp add: demo_env_def demo_order_ok)

lemmas demo_block_ok = demo_coherent demo_supply demo_block_fresh demo_inputs_ok demo_undoable demo_env_order


theorem disconnect_undoes_connect_witness:
  "\<exists>cs' cs''. connect_block_with_raw demo_crate demo_script demo_env demo_first 0 None demo_chain =
      (Inr [to_le 32 2], cs') \<and>
    disconnect_block demo_crate demo_env demo_first 0 cs' = (Inr (), cs'') \<and>
    coins (cs_utxo cs'') = Map.empty \<and> cs_best_hash cs'' = replicate 32 0"
proof -
  obtain cs' where c: "connect_block_with_raw demo_crate demo_script demo_env demo_first 0 None demo_chain =
      (Inr [to_le 32 2], cs')" using demo_connects by blast
  have "prev_blockhash (blk_header demo_first) = replicate 32 0"
    by (simp add: demo_first_def demo_first_header_def)
  moreover have "\<exists>cs''. disconnect_block demo_crate demo_env demo_first 0 cs' = (Inr (), cs'') \<and>
      coins (cs_utxo cs'') = coins demo_set \<and> cs_best_hash cs'' = prev_blockhash (blk_header demo_first)"
    using disconnect_undoes_connect [OF c, of demo_env] by (auto simp: demo_block_ok)
  ultimately show ?thesis using c by (auto simp: demo_coins)
qed

theorem rejected_block_no_trace_witness:
  "\<exists>e cs'. connect_block_with_raw demo_crate demo_script demo_env demo_bad 0 None demo_chain = (Inl e, cs') \<and>
    same_but_caches demo_chain cs' \<and> coins (cs_utxo cs') = Map.empty"
proof -
  have "\<exists>cs'. connect_block_with_raw demo_crate demo_script demo_env demo_bad 0 None demo_chain =
      (Inl (Fail InvalidMerkleRoot), cs')"
    by (simp add: connect_block_with_raw_def demo_bad_rejected)
  then obtain cs' where c: "connect_block_with_raw demo_crate demo_script demo_env demo_bad 0 None demo_chain =
      (Inl (Fail InvalidMerkleRoot), cs')" by blast
  from rejected_block_no_trace [OF c] c show ?thesis by (auto simp: is_ok_def demo_coins)
qed

end
