(* ===== verification/Spec2Isabelle.thy ===== *)
theory Spec2Isabelle
  imports
    Merkle Net_Time Versionbits Consensus_Params Difficulty Header_Chain Validation_Facts Bip110_Facts Utxo_Recovery
    Script_Policy Script_Cache Script_Softfork Prune Chain_Demo
begin

text \<open>
  Verification of the BitcoinPR full node.

  \<^bold>\<open>The program.\<close> A Bitcoin full node in Rust. Headers are stored and linked in an index
  (\<^verbatim>\<open>bitcoinpr-storage/src/header_index.rs\<close>); a block is checked by the consensus rules
  (\<^verbatim>\<open>bitcoinpr-core/src/validation.rs\<close>, \<^verbatim>\<open>merkle.rs\<close>, \<^verbatim>\<open>consensus.rs\<close>, \<^verbatim>\<open>bip110.rs\<close>), its inputs by the
  script interpreters (\<^verbatim>\<open>script.rs\<close>), and its coins are taken from and written to the UTXO set
  (\<^verbatim>\<open>bitcoinpr-storage/src/utxo_set.rs\<close>). The chain state (\<^verbatim>\<open>bitcoinpr-core/src/chain.rs\<close>) drives this
  and writes the block to the block files (\<^verbatim>\<open>block_store.rs\<close>), its transactions to the transaction
  index (\<^verbatim>\<open>tx_index.rs\<close>); old files are pruned (\<^verbatim>\<open>prune.rs\<close>).

  \<^bold>\<open>The model.\<close> Rust functions are HOL functions on explicit states in the order the code has them.
  Machine integers are words of their width and wrap around as a release build does; \<^verbatim>\<open>usize\<close> is
  \<open>nat\<close>. A \<^verbatim>\<open>Result\<close> is a sum with the error on the left, a panic is \<open>None\<close> or the value \<open>Panic\<close>. Column
  families are maps or key-ordered lists, hash maps are association lists whose order of iteration
  is an argument. The functions of the \<^verbatim>\<open>bitcoin\<close> and \<^verbatim>\<open>secp256k1\<close> crates are the records
  \<open>bitcoin_crate\<close> and \<open>script_crate\<close>, arguments of the definitions that call them; what a theorem
  needs of them is a named hypothesis (\<open>header_codec_ok\<close>, \<open>digests_ok\<close>, \<open>instructions_fit\<close>), and
  \<^verbatim>\<open>Demo_Crate\<close> and \<^verbatim>\<open>Demo_Script\<close> hold instances that meet them.

  \<^bold>\<open>Theories.\<close>
  \<^item> \<^verbatim>\<open>Node_Prelude\<close>, \<^verbatim>\<open>Bitcoin_Types\<close>: words, bytes, results, codecs, stores, transactions, errors.
  \<^item> \<^verbatim>\<open>Merkle\<close> (\<^verbatim>\<open>merkle.rs\<close>): the streaming root equals the level-by-level root, flags mutation, binds
    its leaves; branches fold back to the root.
  \<^item> \<^verbatim>\<open>Net_Time\<close> (\<^verbatim>\<open>time.rs\<close>): bounds of the clock offset, the honest-majority property, and the
    overflow of \<^verbatim>\<open>abs\<close>.
  \<^item> \<^verbatim>\<open>Versionbits\<close> (\<^verbatim>\<open>versionbits.rs\<close>): the deployment state machine.
  \<^item> \<^verbatim>\<open>Consensus_Params\<close> (\<^verbatim>\<open>consensus.rs\<close>): parameters of the five networks, the subsidy and its sum.
  \<^item> \<^verbatim>\<open>Chain_Work\<close>, \<^verbatim>\<open>Header_Index\<close>, \<^verbatim>\<open>Header_Chain\<close> (\<^verbatim>\<open>validation.rs\<close>, \<^verbatim>\<open>header_index.rs\<close>): 256-bit work,
    the header store, ancestors, height index and invalid markers.
  \<^item> \<^verbatim>\<open>Difficulty\<close>, \<^verbatim>\<open>Validation\<close>, \<^verbatim>\<open>Validation_Facts\<close>, \<^verbatim>\<open>Mining_Coinbase\<close> (\<^verbatim>\<open>validation.rs\<close>,
    \<^verbatim>\<open>template_provider.rs\<close>): retargeting, header, block and transaction checks.
  \<^item> \<^verbatim>\<open>Bip110\<close>, \<^verbatim>\<open>Bip110_Facts\<close> (\<^verbatim>\<open>bip110.rs\<close>): the memoised activation checker equals the plain
    recursion over period boundaries; enforcement window; signalling; fingerprint.
  \<^item> \<^verbatim>\<open>Utxo_Set\<close>, \<^verbatim>\<open>Utxo_Facts\<close>, \<^verbatim>\<open>Utxo_Recovery\<close> (\<^verbatim>\<open>utxo_set.rs\<close>): buffer, cache and disk refine one
    map of coins; flushes are crash safe; undo records are read back; rollback.
  \<^item> \<^verbatim>\<open>Script_Base\<close>, \<^verbatim>\<open>Script_Interp\<close>, \<^verbatim>\<open>Script_Tap\<close>, \<^verbatim>\<open>Script_Verify\<close>, \<^verbatim>\<open>Script_Policy\<close> (\<^verbatim>\<open>script.rs\<close>): the two
    interpreters, input verification, the signature cache and the relay detectors. \<^verbatim>\<open>Script_Num\<close>: the
    number codec. \<^verbatim>\<open>Script_Cache\<close>: soundness of the cache. \<^verbatim>\<open>Script_Safety\<close>, \<^verbatim>\<open>Script_Typing\<close>: stack
    typing and absence of panics, by a predicate transformer on results. \<^verbatim>\<open>Script_Parity\<close>: the two
    copies of the shared opcodes agree. \<^verbatim>\<open>Script_Softfork\<close>: the BIP 110 rules only restrict.
  \<^item> \<^verbatim>\<open>Block_Store\<close>, \<^verbatim>\<open>Block_Store_Facts\<close> (\<^verbatim>\<open>block_store.rs\<close>): the block files, the background writer,
    reads, scan and reindex. \<open>bs_step\<close> is the interleaving of stores, writer turns, flushes and
    deletions; every block is read back as it was stored. \<^verbatim>\<open>Tx_Index\<close> (\<^verbatim>\<open>tx_index.rs\<close>): an entry
    leads to the bytes of its transaction. \<^verbatim>\<open>Prune\<close> (\<^verbatim>\<open>prune.rs\<close>): a pass keeps the recent blocks and
    leaves no position without its file; a reindex after it finds nothing.
  \<^item> \<^verbatim>\<open>Chain_State\<close> (\<^verbatim>\<open>chain.rs\<close>): connecting a block, from the header checks over
    \<open>validate_transactions\<close> to the writes, and disconnecting the tip. What the code takes from outside
    (clock, orders of hash maps, schedule of the parallel script checks, block encoding) is the
    record \<open>chain_env\<close>. \<^verbatim>\<open>Chain_Facts\<close>: the account invariant of the transaction loop and the bound on
    all coins. \<^verbatim>\<open>Chain_Reorg\<close>: a rejected block leaves no trace; disconnecting undoes connecting.
    \<^verbatim>\<open>Chain_Demo\<close>: a first block on which these evaluate.

  \<^bold>\<open>Bounds and fuel.\<close> Loops are structural or have a termination proof, except the walk of
  \<^verbatim>\<open>reindex_block_files\<close> over the file numbers: its fuel is one more than the number of files, and
  \<open>reindex_loop_ends\<close> shows that it never runs out. The Merkle theorems are for up to \<open>2 ^ 31\<close> leaves,
  the bound of the code's 32-bit counter; those of the chain state for heights below \<open>2 ^ 31\<close>, the bound
  of the coin encoding.

  \<^bold>\<open>Not modelled.\<close> Sockets, tasks, channels and timers (\<^verbatim>\<open>bitcoinpr-p2p/src/manager.rs\<close>, \<^verbatim>\<open>peer.rs\<close>,
  \<^verbatim>\<open>sync.rs\<close>, the transports, the Stratum servers and the daemon), JSON, HTTP and Electrum
  presentation, opening and syncing files and databases: they are effects around the components
  above. The memory pool, compact blocks, block filters, the split monitor and the peer-to-peer tables
  are not covered. Floating point display values are left out. Locks are left out: every operation is one atomic step.
\<close>

end
